(* ===== verification/F64.thy ===== *)
theory F64
  imports Complex_Main "HOL-Library.Log_Nat" "HOL-Library.Word"
begin

text \<open>
  Rust's \<^verbatim>\<open>f64\<close>: IEEE-754 binary64 with round-to-nearest, ties-to-even.

  A value is NaN, one of the two infinities, or a rational that is exactly representable with
  a 53-bit significand and an exponent of at least \<open>-1074\<close> (gradual underflow included). Every
  arithmetic operation is the exact rational operation followed by \<open>f64_rnd\<close> and the overflow
  test, as the standard prescribes; comparisons with NaN are false; \<open>fmax\<close>, \<open>fmin\<close>, \<open>fclamp\<close>
  and the saturating casts are those of the Rust standard library, \<open>fclamp\<close> with its panic
  (\<open>None\<close>) on \<open>min > max\<close> or a NaN bound.

  Two bits of IEEE-754 are not represented: the sign of zero and the payload of NaN. The first
  is only observable through a division by zero, in printed text, and by \<open>copysign\<close> and \<open>is_sign_negative\<close>; every
  division of the modelled code whose divisor may be zero is guarded by a comparison, or divides by a
  duration, whose zero is positive.

  The second half gives the order and rounding facts the components use: \<open>key\<close> embeds the
  non-NaN values into the rationals as an ordered set, and \<open>lit\<close> (rounding of an exact
  rational, which is also how a source literal is read) is monotone and the identity on \<open>key x\<close>.
\<close>

section \<open>Rounding a rational to 53 bits\<close>

definition ilog2 :: "rat \<Rightarrow> int" where
  "ilog2 x = (case quotient_of x of (p, q) \<Rightarrow>
     let e = bitlen p - bitlen q in if x < 2 powi e then e - 1 else e)"

definition rne :: "rat \<Rightarrow> int" where
  "rne y = (let n = \<lfloor>y\<rfloor>; d = y - of_int n in
     if d < 1/2 then n else if 1/2 < d then n + 1 else if even n then n else n + 1)"

definition f64_ulp :: "rat \<Rightarrow> rat" where
  "f64_ulp x = 2 powi (max (ilog2 \<bar>x\<bar> - 52) (-1074))"

definition f64_rnd :: "rat \<Rightarrow> rat" where
  "f64_rnd x = (if x = 0 then 0 else of_int (rne (x / f64_ulp x)) * f64_ulp x)"

lemma bitlen_powi:
  assumes "0 < p"
  shows "2 powi (bitlen p - 1) \<le> (of_int p :: rat)" and "(of_int p :: rat) < 2 powi (bitlen p)"
proof -
  have b: "0 < bitlen p" using assms bitlen_eq_zero_iff[of p] bitlen_nonneg[of p] by linarith
  have "2 powi (bitlen p - 1) = (of_int (2 ^ nat (bitlen p - 1)) :: rat)"
    using b by (simp add: power_int_nonneg_exp)
  then show "2 powi (bitlen p - 1) \<le> (of_int p :: rat)"
    using bitlen_bounds[OF assms] by (simp only: of_int_le_iff)
  have "2 powi (bitlen p) = (of_int (2 ^ nat (bitlen p)) :: rat)"
    using b by (simp add: power_int_nonneg_exp)
  then show "(of_int p :: rat) < 2 powi (bitlen p)"
    using bitlen_bounds[OF assms] by (simp only: of_int_less_iff)
qed

lemma ilog2_bounds:
  assumes "0 < x"
  shows "2 powi (ilog2 x) \<le> x" and "x < 2 powi (ilog2 x + 1)"
proof -
  obtain p q where pq: "quotient_of x = (p, q)" by fastforce
  have q: "0 < q" using quotient_of_denom_pos[OF pq] .
  have x: "x = of_int p / of_int q" using quotient_of_div[OF pq] .
  have p: "0 < p" using assms x q by (simp add: zero_less_divide_iff)
  let ?e = "bitlen p - bitlen q"
  have qpos: "(0::rat) < of_int q" using q by simp
  have lo: "2 powi (?e - 1) \<le> x"
  proof -
    have "(2::rat) powi (?e - 1) * of_int q \<le> 2 powi (?e - 1) * 2 powi (bitlen q)"
      using bitlen_powi(2)[OF q] by (intro mult_left_mono) auto
    also have "\<dots> = 2 powi (bitlen p - 1)"
      by (simp flip: power_int_add)
    also have "\<dots> \<le> of_int p" by (rule bitlen_powi(1)[OF p])
    finally show ?thesis using qpos x by (simp add: pos_le_divide_eq)
  qed
  have hi: "x < 2 powi (?e + 1)"
  proof -
    have "(of_int p::rat) < 2 powi (bitlen p)" by (rule bitlen_powi(2)[OF p])
    also have "\<dots> = 2 powi (?e + 1) * 2 powi (bitlen q - 1)"
      by (simp flip: power_int_add)
    also have "\<dots> \<le> 2 powi (?e + 1) * of_int q"
      using bitlen_powi(1)[OF q] by (intro mult_left_mono) auto
    finally show ?thesis using qpos x by (simp add: pos_divide_less_eq)
  qed
  show "2 powi (ilog2 x) \<le> x" and "x < 2 powi (ilog2 x + 1)"
    using lo hi by (auto simp: ilog2_def pq Let_def)
qed

lemma powi2_less_iff: "(2::rat) powi a < 2 powi b \<longleftrightarrow> a < b"
  by (metis linorder_not_less one_less_numeral_iff order_less_imp_le power_int_increasing
      power_int_strict_increasing semiring_norm(76))

lemma powi2_le_iff: "(2::rat) powi a \<le> 2 powi b \<longleftrightarrow> a \<le> b"
  using powi2_less_iff[of b a] by linarith

lemma ilog2_mono:
  assumes "0 < x" "x \<le> y" shows "ilog2 x \<le> ilog2 y"
proof -
  have "(2::rat) powi ilog2 x < 2 powi (ilog2 y + 1)"
    using ilog2_bounds[of x] ilog2_bounds[of y] assms by linarith
  then show ?thesis by (simp add: powi2_less_iff)
qed

lemma rne_near: "\<bar>of_int (rne y) - y\<bar> \<le> 1/2"
  using of_int_floor_le[of y] floor_correct[of y]
  by (simp add: rne_def Let_def abs_le_iff)

lemma rne_of_int [simp]: "rne (of_int n) = n"
  by (simp add: rne_def)

lemma rne_mono: assumes "x \<le> y" shows "rne x \<le> rne y"
proof (rule ccontr)
  assume "\<not> rne x \<le> rne y"
  hence "rne y + 1 \<le> rne x" by simp
  hence "of_int (rne y) + 1 \<le> (of_int (rne x) :: rat)" by linarith
  hence "x = y" using assms rne_near[of x] rne_near[of y] by (auto simp: abs_le_iff)
  thus False using \<open>\<not> rne x \<le> rne y\<close> by simp
qed

lemma floor_minus_nonint: "y \<noteq> of_int \<lfloor>y\<rfloor> \<Longrightarrow> \<lfloor>-y\<rfloor> = - \<lfloor>y\<rfloor> - 1" for y :: rat
  by (rule floor_unique) (auto, linarith+)

lemma rne_minus: "rne (- y) = - rne y"
proof (cases "y = of_int \<lfloor>y\<rfloor>")
  case True
  then obtain n where "y = of_int n" by blast
  then show ?thesis using rne_of_int[of n] rne_of_int[of "-n"] by simp
next
  case False
  show ?thesis unfolding rne_def Let_def floor_minus_nonint[OF False]
    by auto
qed


lemma f64_ulp_pos: "0 < f64_ulp x" by (simp add: f64_ulp_def)

lemma f64_ulp_minus: "f64_ulp (- x) = f64_ulp x" by (simp add: f64_ulp_def)

lemma f64_rnd_0 [simp]: "f64_rnd 0 = 0" by (simp add: f64_rnd_def)

lemma f64_rnd_minus: "f64_rnd (- x) = - f64_rnd x"
  by (simp add: f64_rnd_def f64_ulp_minus rne_minus)

lemma f64_rnd_nonneg: "0 \<le> x \<Longrightarrow> 0 \<le> f64_rnd x"
  using rne_mono[of 0 "x / f64_ulp x"] f64_ulp_pos[of x] rne_of_int[of 0]
  by (simp add: f64_rnd_def)

lemma f64_rnd_le_grid:
  assumes "x / f64_ulp x \<le> of_int n" "x \<noteq> 0"
  shows "f64_rnd x \<le> of_int n * f64_ulp x"
  using rne_mono[OF assms(1)] f64_ulp_pos[of x] assms(2) by (simp add: f64_rnd_def)

lemma f64_rnd_ge_grid:
  assumes "of_int n \<le> x / f64_ulp x" "x \<noteq> 0"
  shows "of_int n * f64_ulp x \<le> f64_rnd x"
  using rne_mono[OF assms(1)] f64_ulp_pos[of x] assms(2) by (simp add: f64_rnd_def)

lemma f64_rnd_mono_pos:
  assumes "0 < x" "x \<le> y" shows "f64_rnd x \<le> f64_rnd y"
proof (cases "f64_ulp x = f64_ulp y")
  case True
  then have "x / f64_ulp x \<le> y / f64_ulp y"
    using assms f64_ulp_pos[of y] by (simp add: divide_right_mono)
  from rne_mono[OF this] show ?thesis
    using assms True f64_ulp_pos[of y] by (simp add: f64_rnd_def)
next
  case False
  let ?kx = "ilog2 x" let ?ky = "ilog2 y"
  have kk: "?kx \<le> ?ky" by (rule ilog2_mono[OF assms])
  with False assms have ky: "-1074 < ?ky - 52" and lt: "?kx < ?ky"
    by (auto simp: f64_ulp_def max_def order_le_less split: if_splits)
  have uy: "f64_ulp y = 2 powi (?ky - 52)" using ky assms by (simp add: f64_ulp_def max_def)
  define ex where "ex = max (?kx - 52) (-1074)"
  have ux: "f64_ulp x = 2 powi ex" using assms by (simp add: f64_ulp_def ex_def)
  have ex: "ex + 53 \<le> ?ky" if "ex \<noteq> -1074" using that lt by (simp add: ex_def max_def split: if_splits)
  have y: "2 powi ?ky \<le> f64_rnd y"
  proof -
    have "(2::rat) powi ?ky = of_int (2^52) * f64_ulp y"
      unfolding uy by (simp flip: power_int_add add: power_int_diff)
    moreover have "of_int (2^52) \<le> y / f64_ulp y"
      using ilog2_bounds[of y] assms f64_ulp_pos[of y]
      by (simp add: pos_le_divide_eq) (simp add: uy power_int_diff)
    ultimately show ?thesis using f64_rnd_ge_grid[of "2^52" y] assms by simp
  qed
  have "f64_rnd x \<le> 2 powi ?ky"
  proof -
    have n: "ex \<le> ?ky" using ky lt by (simp add: ex_def)
    have e: "(2::rat) powi ?ky = of_int (2 ^ nat (?ky - ex)) * f64_ulp x"
      using n unfolding ux by (simp flip: power_int_add add: power_int_nonneg_exp[symmetric])
    have "x \<le> 2 powi ?ky"
      using ilog2_bounds(2)[OF assms(1)] lt powi2_le_iff[of "?kx + 1" ?ky] by linarith
    then have "x / f64_ulp x \<le> of_int (2 ^ nat (?ky - ex))"
      using f64_ulp_pos[of x] e by (simp add: pos_divide_le_eq)
    from f64_rnd_le_grid[OF this] show ?thesis using e assms by simp
  qed
  with y show ?thesis by linarith
qed

lemma f64_rnd_mono: "x \<le> y \<Longrightarrow> f64_rnd x \<le> f64_rnd y"
  using f64_rnd_mono_pos[of x y] f64_rnd_mono_pos[of "-y" "-x"] f64_rnd_nonneg[of y]
    f64_rnd_nonneg[of "-x"] f64_rnd_minus[of x] f64_rnd_minus[of y]
  by (cases "0 < x"; cases "y < 0") auto

lemma f64_rnd_representable:
  assumes "\<bar>m\<bar> \<le> 2 ^ 53" "-1074 \<le> e"
  shows "f64_rnd (of_int m * 2 powi e) = of_int m * 2 powi e"
proof (cases "m = 0")
  case False
  let ?x = "of_int m * 2 powi e :: rat"
  define k where "k = max (ilog2 \<bar>?x\<bar> - 52) (-1074)"
  have u: "f64_ulp ?x = 2 powi k" by (simp add: f64_ulp_def k_def)
  show ?thesis
  proof (cases "k \<le> e")
    case True
    have "?x / 2 powi k = of_int (m * 2 ^ nat (e - k))"
      using True by (simp add: power_int_nonneg_exp[symmetric] power_int_diff)
    then have "f64_rnd ?x = of_int (m * 2 ^ nat (e - k)) * 2 powi k"
      using False unfolding f64_rnd_def u by (simp only: rne_of_int) simp
    also have "\<dots> = ?x"
      using True by (simp add: power_int_nonneg_exp[symmetric] power_int_diff)
    finally show ?thesis .
  next
    case k: False
    have pos: "0 < \<bar>?x\<bar>" using False by simp
    have "2 powi (ilog2 \<bar>?x\<bar>) \<le> \<bar>?x\<bar>" by (rule ilog2_bounds(1)[OF pos])
    also have "\<bar>?x\<bar> \<le> 2 ^ 53 * 2 powi e"
      using assms(1) by (simp add: abs_mult mult_right_mono)
    also have "\<dots> = 2 powi (e + 53)" by (simp add: power_int_add)
    finally have "ilog2 \<bar>?x\<bar> \<le> e + 53" by (simp add: powi2_le_iff)
    with k assms(2) have ke: "k = e + 1" and il: "ilog2 \<bar>?x\<bar> = e + 53" by (auto simp: k_def)
    have "(2::rat) ^ 53 * 2 powi e \<le> \<bar>of_int m\<bar> * 2 powi e"
      using ilog2_bounds(1)[OF pos] il by (simp add: abs_mult power_int_add)
    then have "(of_int (2 ^ 53) :: rat) \<le> of_int \<bar>m\<bar>" by simp
    then have "2 ^ 53 \<le> \<bar>m\<bar>" by (simp only: of_int_le_iff)
    with assms(1) have "\<bar>m\<bar> = 2 ^ 53" by (rule antisym)
    then obtain n where m: "m = 2 * n" by (auto simp: abs_if split: if_splits intro: that[of "2 ^ 52"] that[of "- (2 ^ 52)"])
    have "?x / 2 powi k = of_int n"
      by (simp add: m ke power_int_add)
    then have "f64_rnd ?x = of_int n * 2 powi k"
      using False unfolding f64_rnd_def u by (simp only: rne_of_int) simp
    also have "\<dots> = ?x" by (simp add: m ke power_int_add)
    finally show ?thesis .
  qed
qed simp

lemma f64_rnd_grid:
  obtains m e where "f64_rnd x = of_int m * 2 powi e" "\<bar>m\<bar> \<le> 2 ^ 53" "-1074 \<le> e"
proof (cases "x = 0")
  case True
  then show ?thesis using that[of 0 0] by simp
next
  case False
  define e where "e = max (ilog2 \<bar>x\<bar> - 52) (-1074)"
  have u: "f64_ulp x = 2 powi e" by (simp add: f64_ulp_def e_def)
  have "\<bar>x\<bar> < 2 powi (ilog2 \<bar>x\<bar> + 1)" using ilog2_bounds(2)[of "\<bar>x\<bar>"] False by simp
  also have "\<dots> \<le> 2 powi (e + 53)" unfolding powi2_le_iff by (simp add: e_def)
  also have "\<dots> = of_int (2 ^ 53) * f64_ulp x" by (simp add: u power_int_add)
  finally have lt: "\<bar>x\<bar> < of_int (2 ^ 53) * f64_ulp x" .
  have "x / f64_ulp x \<le> of_int (2 ^ 53)" "of_int (- (2 ^ 53)) \<le> x / f64_ulp x"
    unfolding pos_divide_le_eq[OF f64_ulp_pos] pos_le_divide_eq[OF f64_ulp_pos]
    using lt by linarith+
  from rne_mono[OF this(1)] rne_mono[OF this(2)] have "\<bar>rne (x / f64_ulp x)\<bar> \<le> 2 ^ 53"
    by (simp only: rne_of_int abs_le_iff) simp
  then show ?thesis using that[of "rne (x / f64_ulp x)" e] False
    by (simp add: f64_rnd_def u e_def)
qed

lemma f64_rnd_idem [simp]: "f64_rnd (f64_rnd x) = f64_rnd x"
  by (metis f64_rnd_grid f64_rnd_representable)

section \<open>The type and its operations\<close>

definition f64_huge :: rat where
  "f64_huge = 2 ^ 1024"

datatype f64_raw = RNaN | RNInf | RPInf | RFin rat

definition f64_wf :: "f64_raw \<Rightarrow> bool" where
  "f64_wf r = (case r of RFin q \<Rightarrow> f64_rnd q = q \<and> \<bar>q\<bar> < f64_huge | _ \<Rightarrow> True)"

typedef f64 = "{r. f64_wf r}"
  by (rule exI[of _ RNaN]) (simp add: f64_wf_def)

setup_lifting type_definition_f64

definition raw_round :: "rat \<Rightarrow> f64_raw" where
  "raw_round q = (let r = f64_rnd q in
     if f64_huge \<le> r then RPInf else if r \<le> - f64_huge then RNInf else RFin r)"

definition raw_inf :: "rat \<Rightarrow> f64_raw" where
  "raw_inf s = (if s = 0 then RNaN else if 0 < s then RPInf else RNInf)"

fun raw_sgn :: "f64_raw \<Rightarrow> rat" where
  "raw_sgn RPInf = 1"
| "raw_sgn RNInf = -1"
| "raw_sgn (RFin q) = sgn q"
| "raw_sgn RNaN = 0"

fun raw_add :: "f64_raw \<Rightarrow> f64_raw \<Rightarrow> f64_raw" where
  "raw_add (RFin a) (RFin b) = raw_round (a + b)"
| "raw_add RNaN _ = RNaN"
| "raw_add _ RNaN = RNaN"
| "raw_add RPInf RNInf = RNaN"
| "raw_add RNInf RPInf = RNaN"
| "raw_add RPInf _ = RPInf"
| "raw_add _ RPInf = RPInf"
| "raw_add RNInf _ = RNInf"
| "raw_add _ RNInf = RNInf"

fun raw_uminus :: "f64_raw \<Rightarrow> f64_raw" where
  "raw_uminus RNaN = RNaN"
| "raw_uminus RPInf = RNInf"
| "raw_uminus RNInf = RPInf"
| "raw_uminus (RFin q) = RFin (- q)"

fun raw_mul :: "f64_raw \<Rightarrow> f64_raw \<Rightarrow> f64_raw" where
  "raw_mul (RFin a) (RFin b) = raw_round (a * b)"
| "raw_mul RNaN _ = RNaN"
| "raw_mul _ RNaN = RNaN"
| "raw_mul x y = raw_inf (raw_sgn x * raw_sgn y)"

fun raw_div :: "f64_raw \<Rightarrow> f64_raw \<Rightarrow> f64_raw" where
  "raw_div (RFin a) (RFin b) = (if b = 0 then raw_inf a else raw_round (a / b))"
| "raw_div RNaN _ = RNaN"
| "raw_div _ RNaN = RNaN"
| "raw_div (RFin a) _ = RFin 0"
| "raw_div x (RFin b) = raw_inf (raw_sgn x * (if b < 0 then -1 else 1))"
| "raw_div _ _ = RNaN"

fun raw_abs :: "f64_raw \<Rightarrow> f64_raw" where
  "raw_abs RNaN = RNaN"
| "raw_abs RPInf = RPInf"
| "raw_abs RNInf = RPInf"
| "raw_abs (RFin q) = RFin \<bar>q\<bar>"

fun raw_key :: "f64_raw \<Rightarrow> rat" where
  "raw_key RNaN = 0"
| "raw_key RPInf = f64_huge"
| "raw_key RNInf = - f64_huge"
| "raw_key (RFin q) = q"

lemma raw_round_wf: "f64_wf (raw_round q)"
  by (auto simp: raw_round_def f64_wf_def Let_def)

lemma raw_wf_simps [simp]:
  "f64_wf RNaN" "f64_wf RPInf" "f64_wf RNInf" "f64_wf (raw_inf s)" "f64_wf (RFin 0)"
  by (simp_all add: f64_wf_def raw_inf_def f64_huge_def)

lemma raw_add_wf: "f64_wf (raw_add a b)"
  by (cases "(a, b)" rule: raw_add.cases) (auto simp: raw_round_wf)

lemma raw_uminus_wf: "f64_wf a \<Longrightarrow> f64_wf (raw_uminus a)"
  by (cases a) (auto simp: f64_wf_def f64_rnd_minus)

lemma raw_mul_wf: "f64_wf (raw_mul a b)"
  by (cases "(a, b)" rule: raw_mul.cases) (auto simp: raw_round_wf)

lemma raw_div_wf: "f64_wf (raw_div a b)"
  by (cases "(a, b)" rule: raw_div.cases) (auto simp: raw_round_wf)

lemma raw_abs_wf: "f64_wf a \<Longrightarrow> f64_wf (raw_abs a)"
  by (cases a) (auto simp: f64_wf_def f64_rnd_minus abs_if)

text \<open>A literal of the source, or an exact rational, rounded once.\<close>

lift_definition lit :: "rat \<Rightarrow> f64" is raw_round by (rule raw_round_wf)

lift_definition f64_nan :: f64 is RNaN by simp

lift_definition f64_infinity :: f64 is RPInf by simp

lift_definition f64_neg_infinity :: f64 is RNInf by simp

lift_definition is_nan :: "f64 \<Rightarrow> bool" is "\<lambda>r. r = RNaN" .

lift_definition is_finite :: "f64 \<Rightarrow> bool" is "\<lambda>r. case r of RFin _ \<Rightarrow> True | _ \<Rightarrow> False" .

lift_definition key :: "f64 \<Rightarrow> rat" is raw_key .

instantiation f64 :: "{zero, one, plus, uminus, minus, times, inverse, abs, ord, equal}"
begin

definition zero_f64 :: f64 where
  "zero_f64 = lit 0"

definition one_f64 :: f64 where
  "one_f64 = lit 1"

lift_definition plus_f64 :: "f64 \<Rightarrow> f64 \<Rightarrow> f64" is raw_add by (rule raw_add_wf)

lift_definition uminus_f64 :: "f64 \<Rightarrow> f64" is raw_uminus by (rule raw_uminus_wf)

definition minus_f64 :: "f64 \<Rightarrow> f64 \<Rightarrow> f64" where
  "minus_f64 x y = x + (- y)"

lift_definition times_f64 :: "f64 \<Rightarrow> f64 \<Rightarrow> f64" is raw_mul by (rule raw_mul_wf)

lift_definition divide_f64 :: "f64 \<Rightarrow> f64 \<Rightarrow> f64" is raw_div by (rule raw_div_wf)

definition inverse_f64 :: "f64 \<Rightarrow> f64" where
  "inverse_f64 x = divide 1 x"

lift_definition abs_f64 :: "f64 \<Rightarrow> f64" is raw_abs by (rule raw_abs_wf)

definition less_eq_f64 :: "f64 \<Rightarrow> f64 \<Rightarrow> bool" where
  "less_eq_f64 x y = (\<not> is_nan x \<and> \<not> is_nan y \<and> key x \<le> key y)"

definition less_f64 :: "f64 \<Rightarrow> f64 \<Rightarrow> bool" where
  "less_f64 x y = (\<not> is_nan x \<and> \<not> is_nan y \<and> key x < key y)"

lift_definition equal_f64 :: "f64 \<Rightarrow> f64 \<Rightarrow> bool" is "(=)" .

instance
  by standard (transfer, simp)

end

text \<open>The comparison operator \<^verbatim>\<open>==\<close> (false on NaN); HOL's equality is identity of values.\<close>

definition feq :: "f64 \<Rightarrow> f64 \<Rightarrow> bool" where
  "feq x y = (\<not> is_nan x \<and> \<not> is_nan y \<and> key x = key y)"

text \<open>\<^verbatim>\<open>f64::max\<close>, \<^verbatim>\<open>f64::min\<close>: a NaN argument is ignored.\<close>

definition fmax :: "f64 \<Rightarrow> f64 \<Rightarrow> f64" where
  "fmax x y = (if is_nan x then y else if is_nan y then x else if x < y then y else x)"

definition fmin :: "f64 \<Rightarrow> f64 \<Rightarrow> f64" where
  "fmin x y = (if is_nan x then y else if is_nan y then x else if y < x then y else x)"

text \<open>
  \<^verbatim>\<open>f64::clamp\<close>: \<^verbatim>\<open>assert!(min <= max); if x < min { x = min } if x > max { x = max }\<close>.
  \<open>None\<close> is the panic of the assertion; a NaN receiver passes through.
\<close>

definition fclamp :: "f64 \<Rightarrow> f64 \<Rightarrow> f64 \<Rightarrow> f64 option" where
  "fclamp x lo hi = (if lo \<le> hi
     then (let y = (if x < lo then lo else x) in Some (if hi < y then hi else y))
     else None)"

text \<open>\<^verbatim>\<open>x as uN\<close>: truncate, saturate at \<open>0\<close> and \<open>bnd\<close>, NaN gives 0. \<^verbatim>\<open>x.ceil()\<close> before it.\<close>

definition f64_to_nat :: "nat \<Rightarrow> f64 \<Rightarrow> nat" where
  "f64_to_nat bnd x = (if is_nan x then 0 else min bnd (nat \<lfloor>key x\<rfloor>))"

definition f64_ceil :: "f64 \<Rightarrow> f64" where
  "f64_ceil x = (if is_finite x then lit (of_int \<lceil>key x\<rceil>) else x)"

definition f64_of_nat :: "nat \<Rightarrow> f64" where
  "f64_of_nat n = lit (of_nat n)"

definition f64_epsilon :: f64 where
  "f64_epsilon = lit (1 / 2 ^ 52)"

section \<open>Order and rounding facts\<close>

named_theorems f64_key \<open>values of \<open>key\<close>, \<open>is_nan\<close> and \<open>is_finite\<close>\<close>

named_theorems f64_eval \<open>evaluation of arithmetic and comparisons on representable literals\<close>

lemma f64_huge_pos [simp]: "0 < f64_huge" "0 \<le> f64_huge" "f64_huge \<noteq> 0" "\<not> f64_huge \<le> 0"
  by (simp_all add: f64_huge_def)

lemma finite_not_nan: "is_finite x \<Longrightarrow> \<not> is_nan x"
  by transfer auto

lemma lit_not_nan [simp, f64_key]: "\<not> is_nan (lit q)"
  by transfer (simp add: raw_round_def Let_def)

lemma key_lit: "key (lit q) = max (- f64_huge) (min f64_huge (f64_rnd q))"
  by transfer (auto simp: raw_round_def Let_def max_def min_def)

lemma finite_lit: "is_finite (lit q) \<longleftrightarrow> \<bar>f64_rnd q\<bar> < f64_huge"
  by transfer (auto simp: raw_round_def Let_def abs_less_iff)

lemma key_abs_less: "is_finite x \<Longrightarrow> \<bar>key x\<bar> < f64_huge"
  by transfer (auto simp: f64_wf_def split: f64_raw.splits)

lemma lit_key: "is_finite x \<Longrightarrow> lit (key x) = x"
  by transfer (auto simp: f64_wf_def raw_round_def Let_def split: f64_raw.splits)

lemma key_inject: "\<not> is_nan x \<Longrightarrow> \<not> is_nan y \<Longrightarrow> key x = key y \<longleftrightarrow> x = y"
proof (transfer)
  fix x y assume "f64_wf x" "f64_wf y" "x \<noteq> RNaN" "y \<noteq> RNaN"
  then show "raw_key x = raw_key y \<longleftrightarrow> x = y"
    using f64_huge_pos by (cases x; cases y) (auto simp: f64_wf_def)
qed

lemma nan_unique: "is_nan x \<longleftrightarrow> x = f64_nan"
  by transfer simp

lemma key_special [simp, f64_key]:
  "is_nan f64_nan" "\<not> is_nan f64_infinity" "\<not> is_nan f64_neg_infinity"
  "key f64_infinity = f64_huge" "key f64_neg_infinity = - f64_huge"
  "\<not> is_finite f64_nan" "\<not> is_finite f64_infinity" "\<not> is_finite f64_neg_infinity"
  by (transfer; simp)+

lemma key_uminus [simp, f64_key]: "key (- x) = - key x" "is_nan (- x) = is_nan x" "is_finite (- x) = is_finite x"
  for x :: f64
  by (transfer, case_tac x, simp_all)+

lemma key_abs [simp, f64_key]: "key \<bar>x\<bar> = \<bar>key x\<bar>" "is_nan \<bar>x\<bar> = is_nan x" "is_finite \<bar>x\<bar> = is_finite x"
  for x :: f64
  by (transfer, case_tac x, simp_all add: less_imp_le)+

lemma fle_iff: "x \<le> y \<longleftrightarrow> \<not> is_nan x \<and> \<not> is_nan y \<and> key x \<le> key y" for x y :: f64
  by (simp add: less_eq_f64_def)

lemma flt_iff: "x < y \<longleftrightarrow> \<not> is_nan x \<and> \<not> is_nan y \<and> key x < key y" for x y :: f64
  by (simp add: less_f64_def)

lemmas f64_order = fle_iff flt_iff feq_def

lemma fle_refl [simp]: "\<not> is_nan x \<Longrightarrow> x \<le> x" for x :: f64
  by (simp add: fle_iff)

lemma fle_trans: "x \<le> y \<Longrightarrow> y \<le> z \<Longrightarrow> x \<le> z" for x y z :: f64
  by (auto simp: fle_iff)

lemma flt_fle_trans: "x < y \<Longrightarrow> y \<le> z \<Longrightarrow> x < z" for x y z :: f64
  by (auto simp: f64_order)

lemma fle_flt_trans: "x \<le> y \<Longrightarrow> y < z \<Longrightarrow> x < z" for x y z :: f64
  by (auto simp: f64_order)

lemma flt_imp_fle: "x < y \<Longrightarrow> x \<le> y" for x y :: f64
  by (auto simp: f64_order)

lemma fle_antisym: "x \<le> y \<Longrightarrow> y \<le> x \<Longrightarrow> x = y" for x y :: f64
  by (metis fle_iff key_inject order_antisym)

lemma not_flt: "\<not> is_nan x \<Longrightarrow> \<not> is_nan y \<Longrightarrow> \<not> x < y \<longleftrightarrow> y \<le> x" for x y :: f64
  by (auto simp: f64_order)

lemma flt_irrefl [simp]: "\<not> x < x" for x :: f64
  by (simp add: flt_iff)

lemma nan_compare [simp]: "is_nan x \<Longrightarrow> \<not> x < y" "is_nan x \<Longrightarrow> \<not> y < x" "is_nan x \<Longrightarrow> \<not> x \<le> y" "is_nan x \<Longrightarrow> \<not> y \<le> x"
  for x y :: f64
  by (simp_all add: f64_order)

lemma fle_not_nan: "x \<le> y \<Longrightarrow> \<not> is_nan x" "x \<le> y \<Longrightarrow> \<not> is_nan y" for x y :: f64
  by (simp_all add: fle_iff)

lemma finite_between: "\<lbrakk>x \<le> y; y \<le> z; is_finite x; is_finite z\<rbrakk> \<Longrightarrow> is_finite y" for x y z :: f64
proof -
  assume a: "x \<le> y" "y \<le> z" "is_finite x" "is_finite z"
  then have "\<bar>key y\<bar> < f64_huge" "\<not> is_nan y"
    using key_abs_less[of x] key_abs_less[of z] by (auto simp: fle_iff abs_less_iff)
  then show ?thesis
    by transfer (auto split: f64_raw.splits)
qed

text \<open>Rounding is monotone, and exact on values that are already representable.\<close>

lemma lit_mono: "p \<le> q \<Longrightarrow> lit p \<le> lit q"
  using f64_rnd_mono[of p q] by (simp add: fle_iff key_lit)

lemma lit_mono_left: "\<lbrakk>is_finite x; key x \<le> q\<rbrakk> \<Longrightarrow> x \<le> lit q"
  using lit_mono[of "key x" q] by (simp add: lit_key)

lemma lit_mono_right: "\<lbrakk>is_finite x; q \<le> key x\<rbrakk> \<Longrightarrow> lit q \<le> x"
  using lit_mono[of q "key x"] by (simp add: lit_key)

text \<open>On finite operands every operation is one rounding of the exact result.\<close>

lemma fadd_lit: "is_finite x \<Longrightarrow> is_finite y \<Longrightarrow> x + y = lit (key x + key y)"
  by transfer (auto split: f64_raw.splits)

lemma fdiff_lit: "is_finite x \<Longrightarrow> is_finite y \<Longrightarrow> x - y = lit (key x - key y)"
  by (simp add: minus_f64_def fadd_lit)

lemma fmul_lit: "is_finite x \<Longrightarrow> is_finite y \<Longrightarrow> x * y = lit (key x * key y)"
  by transfer (auto split: f64_raw.splits)

lemma fdiv_lit: "is_finite x \<Longrightarrow> is_finite y \<Longrightarrow> key y \<noteq> 0 \<Longrightarrow> x / y = lit (key x / key y)"
  by transfer (auto split: f64_raw.splits)

lemmas f64_ops_lit = fadd_lit fdiff_lit fmul_lit fdiv_lit

text \<open>Rationals that a binary64 represents exactly.\<close>

definition rep :: "rat \<Rightarrow> bool" where
  "rep q \<longleftrightarrow> f64_rnd q = q \<and> \<bar>q\<bar> < f64_huge"

lemma rep_lit: "rep q \<Longrightarrow> is_finite (lit q)" "rep q \<Longrightarrow> key (lit q) = q"
  by (auto simp: rep_def finite_lit key_lit abs_less_iff max_def min_def)

lemma rep_key: "is_finite x \<Longrightarrow> rep (key x)"
  unfolding rep_def by transfer (auto simp: f64_wf_def split: f64_raw.splits)

lemma rep_dyadic:
  assumes "\<bar>m\<bar> \<le> 2 ^ 53" "k \<le> 1074"
  shows "rep (of_int m / 2 ^ k)"
proof -
  have eq: "of_int m / 2 ^ k = (of_int m * 2 powi (- int k) :: rat)"
    by (simp add: power_int_minus divide_inverse)
  have "\<bar>of_int m :: rat\<bar> \<le> 2 ^ 53"
    using assms(1) by (metis of_int_abs of_int_le_iff of_int_numeral of_int_power)
  moreover have "\<bar>of_int m / 2 ^ k :: rat\<bar> \<le> \<bar>of_int m\<bar> / 1"
    unfolding abs_divide by (rule divide_left_mono) auto
  ultimately have "\<bar>of_int m / 2 ^ k :: rat\<bar> < f64_huge"
    by (simp add: f64_huge_def)
  moreover have "f64_rnd (of_int m / 2 ^ k) = of_int m / 2 ^ k"
    unfolding eq using assms by (intro f64_rnd_representable) auto
  ultimately show ?thesis by (simp add: rep_def)
qed

lemma rep_int:
  assumes "\<bar>m\<bar> \<le> 2 ^ 53" shows "rep (of_int m)"
  using rep_dyadic[OF assms, of 0] by simp

lemma rep_numeral [f64_eval]:
  "(numeral n :: int) \<le> 9007199254740992 \<Longrightarrow> rep (numeral n)"
  "(numeral n :: int) \<le> 9007199254740992 \<Longrightarrow> rep (- numeral n)"
  using rep_int[of "numeral n"] rep_int[of "- numeral n"] by simp_all

lemma rep_01 [simp, f64_eval]: "rep 0" "rep 1" "rep (- 1)"
  using rep_int[of 0] rep_int[of 1] rep_int[of "-1"] by simp_all

lemma rep_frac:
  assumes "(numeral d :: int) = 2 ^ k" "k \<le> 1074" "(numeral n :: int) \<le> 9007199254740992"
  shows "rep (numeral n / numeral d)" "rep (1 / numeral d)"
proof -
  have "(numeral d :: rat) = of_int (2 ^ k)" using assms(1) by (metis of_int_numeral)
  then show "rep (numeral n / numeral d)" "rep (1 / numeral d)"
    using rep_dyadic[of "numeral n" k] rep_dyadic[of 1 k] assms by simp_all
qed

lemma rep_halves [f64_eval]:
  "(numeral n :: int) \<le> 9007199254740992 \<Longrightarrow> rep (numeral n / 2)"
  "(numeral n :: int) \<le> 9007199254740992 \<Longrightarrow> rep (numeral n / 4)"
  "(numeral n :: int) \<le> 9007199254740992 \<Longrightarrow> rep (numeral n / 8)"
  "(numeral n :: int) \<le> 9007199254740992 \<Longrightarrow> rep (numeral n / 16)"
  "rep (1 / 2)" "rep (1 / 4)" "rep (1 / 8)" "rep (1 / 16)"
  using rep_frac[of "num.Bit0 num.One" 1 n] rep_frac[of "num.Bit0 (num.Bit0 num.One)" 2 n]
    rep_frac[of "num.Bit0 (num.Bit0 (num.Bit0 num.One))" 3 n]
    rep_frac[of "num.Bit0 (num.Bit0 (num.Bit0 (num.Bit0 num.One)))" 4 n]
    rep_frac[of "num.Bit0 num.One" 1 num.One] rep_frac[of "num.Bit0 (num.Bit0 num.One)" 2 num.One]
    rep_frac[of "num.Bit0 (num.Bit0 (num.Bit0 num.One))" 3 num.One]
    rep_frac[of "num.Bit0 (num.Bit0 (num.Bit0 (num.Bit0 num.One)))" 4 num.One]
  by simp_all

lemma f64_of_nat_rep: "n \<le> 2 ^ 53 \<Longrightarrow> rep (of_nat n)"
  using rep_int[of "int n"] by simp

lemma lit_arith [f64_eval]:
  assumes "rep a" "rep b"
  shows "lit a + lit b = lit (a + b)" "lit a - lit b = lit (a - b)" "lit a * lit b = lit (a * b)"
    "b \<noteq> 0 \<Longrightarrow> lit a / lit b = lit (a / b)"
    "lit a < lit b \<longleftrightarrow> a < b" "lit a \<le> lit b \<longleftrightarrow> a \<le> b" "feq (lit a) (lit b) \<longleftrightarrow> a = b"
    "lit a = lit b \<longleftrightarrow> a = b"
  using assms key_inject[of "lit a" "lit b"] by (simp_all add: rep_lit f64_ops_lit f64_order)

lemma lit_unary [f64_eval]:
  assumes "rep a" shows "- lit a = lit (- a)" "\<bar>lit a\<bar> = lit \<bar>a\<bar>" "is_finite (lit a)" "key (lit a) = a"
proof -
  have r: "rep (- a)" using assms by (simp add: rep_def f64_rnd_minus)
  show "- lit a = lit (- a)"
    using key_inject[of "- lit a" "lit (- a)"] by (simp add: rep_lit assms r)
  show "\<bar>lit a\<bar> = lit \<bar>a\<bar>"
    using key_inject[of "\<bar>lit a\<bar>" "lit \<bar>a\<bar>"] assms r by (simp add: rep_lit abs_if)
qed (simp_all add: rep_lit assms)

lemma key_01 [simp, f64_key]:
  "key (0::f64) = 0" "key (1::f64) = 1" "is_finite (0::f64)" "is_finite (1::f64)"
  "\<not> is_nan (0::f64)" "\<not> is_nan (1::f64)"
  by (simp_all add: zero_f64_def one_f64_def rep_lit)

lemma lit_01: "lit 0 = 0" "lit 1 = 1"
  by (simp_all add: zero_f64_def one_f64_def)

text \<open>Non-NaN results on finite operands.\<close>

lemma finite_ops_not_nan [intro]:
  "is_finite x \<Longrightarrow> is_finite y \<Longrightarrow> \<not> is_nan (x + y)"
  "is_finite x \<Longrightarrow> is_finite y \<Longrightarrow> \<not> is_nan (x - y)"
  "is_finite x \<Longrightarrow> is_finite y \<Longrightarrow> \<not> is_nan (x * y)"
  "is_finite x \<Longrightarrow> is_finite y \<Longrightarrow> key y \<noteq> 0 \<Longrightarrow> \<not> is_nan (x / y)"
  by (simp_all add: f64_ops_lit)

text \<open>Scaling a non-negative value by a factor below or above one.\<close>

lemma fmul_le_self:
  assumes "is_finite x" "is_finite f" "0 \<le> x" "f \<le> 1"
  shows "x * f \<le> x"
proof -
  have "key x * key f \<le> key x" using assms by (auto simp: fle_iff intro: mult_left_le)
  then show ?thesis using assms by (simp add: fmul_lit lit_mono_right)
qed

lemma fmul_ge_self:
  assumes "is_finite x" "is_finite f" "0 \<le> x" "1 \<le> f"
  shows "x \<le> x * f"
proof -
  have "key x * 1 \<le> key x * key f" using assms by (intro mult_left_mono) (auto simp: fle_iff)
  then show ?thesis using assms by (simp add: fmul_lit lit_mono_left)
qed

lemma fmul_nonneg:
  assumes "is_finite x" "is_finite f" "0 \<le> x" "0 \<le> f"
  shows "0 \<le> x * f"
  using assms lit_mono[of 0 "key x * key f"] by (simp add: fmul_lit lit_01 fle_iff)

lemma fmul_mono:
  assumes "is_finite x" "is_finite f" "is_finite g" "0 \<le> x" "f \<le> g"
  shows "x * f \<le> x * g"
  unfolding fmul_lit[OF assms(1,2)] fmul_lit[OF assms(1,3)]
  using assms by (intro lit_mono mult_left_mono) (auto simp: fle_iff)

lemma fadd_ge_self:
  assumes "is_finite x" "is_finite y" "0 \<le> y" shows "x \<le> x + y"
  unfolding fadd_lit[OF assms(1,2)]
  using assms by (intro lit_mono_left) (auto simp: fle_iff)

text \<open>Minimum, maximum and clamp.\<close>

lemma fmax_ge: "\<not> is_nan x \<Longrightarrow> x \<le> fmax x y" "\<not> is_nan y \<Longrightarrow> y \<le> fmax x y"
  by (auto simp: fmax_def f64_order)

lemma fmin_le: "\<not> is_nan x \<Longrightarrow> fmin x y \<le> x" "\<not> is_nan y \<Longrightarrow> fmin x y \<le> y"
  by (auto simp: fmin_def f64_order)

lemma fmax_cases: "fmax x y = x \<or> fmax x y = y"
  by (simp add: fmax_def)

lemma fmin_cases: "fmin x y = x \<or> fmin x y = y"
  by (simp add: fmin_def)

lemma fmax_nan: "is_nan (fmax x y) \<longleftrightarrow> is_nan x \<and> is_nan y"
  by (simp add: fmax_def)

lemma fmin_nan: "is_nan (fmin x y) \<longleftrightarrow> is_nan x \<and> is_nan y"
  by (simp add: fmin_def)

lemma fmax_finite: "is_finite x \<Longrightarrow> is_finite y \<Longrightarrow> is_finite (fmax x y)"
  by (simp add: fmax_def)

lemma fmin_finite: "is_finite x \<Longrightarrow> is_finite y \<Longrightarrow> is_finite (fmin x y)"
  by (simp add: fmin_def)

lemma fclamp_None_iff: "fclamp x lo hi = None \<longleftrightarrow> \<not> lo \<le> hi"
  by (simp add: fclamp_def Let_def)

lemma fclamp_Some: "lo \<le> hi \<Longrightarrow> \<exists>y. fclamp x lo hi = Some y"
  by (simp add: fclamp_def Let_def)

lemma fclamp_bounds:
  "fclamp x lo hi = Some y \<Longrightarrow> \<not> is_nan x \<Longrightarrow> lo \<le> y \<and> y \<le> hi"
  by (auto simp: fclamp_def Let_def f64_order split: if_splits)

lemma fclamp_nan: "is_nan x \<Longrightarrow> fclamp x lo hi = Some y \<Longrightarrow> y = x"
  by (auto simp: fclamp_def Let_def split: if_splits)

lemma fclamp_id: "lo \<le> x \<Longrightarrow> x \<le> hi \<Longrightarrow> fclamp x lo hi = Some x"
  by (auto simp: fclamp_def Let_def f64_order)

lemma fclamp_finite:
  "fclamp x lo hi = Some y \<Longrightarrow> \<not> is_nan x \<Longrightarrow> is_finite lo \<Longrightarrow> is_finite hi \<Longrightarrow> is_finite y"
  using fclamp_bounds finite_between by blast

lemma f64_to_nat_le: "f64_to_nat b x \<le> b"
  by (simp add: f64_to_nat_def)

lemma f64_to_nat_mono: "x \<le> y \<Longrightarrow> f64_to_nat b x \<le> f64_to_nat b y"
  unfolding f64_to_nat_def fle_iff by (auto intro!: min.mono nat_mono floor_mono simp del: min.bounded_iff)

lemma f64_of_nat_props [simp]:
  "\<not> is_nan (f64_of_nat n)" "0 \<le> f64_of_nat n"
  using lit_mono[of 0 "of_nat n"] by (simp_all add: f64_of_nat_def lit_01)

lemma f64_of_nat_mono: "m \<le> n \<Longrightarrow> f64_of_nat m \<le> f64_of_nat n"
  by (simp add: f64_of_nat_def lit_mono)

text \<open>Signs of results, infinities included.\<close>

lemma raw_key_round_nonneg: "0 \<le> q \<Longrightarrow> 0 \<le> raw_key (raw_round q)"
  using f64_rnd_nonneg[of q] by (auto simp: raw_round_def Let_def)

lemma fadd_nonneg:
  fixes x y :: f64
  assumes "0 \<le> x" "0 \<le> y" shows "0 \<le> x + y"
proof -
  have "a \<noteq> RNaN \<Longrightarrow> b \<noteq> RNaN \<Longrightarrow> 0 \<le> raw_key a \<Longrightarrow> 0 \<le> raw_key b \<Longrightarrow>
      raw_add a b \<noteq> RNaN \<and> 0 \<le> raw_key (raw_add a b)" for a b
    by (cases a; cases b) (auto simp: raw_key_round_nonneg, auto simp: raw_round_def Let_def split: if_splits)
  then show ?thesis using assms unfolding fle_iff key_01 by transfer auto
qed

lemma fdiv_nonneg:
  fixes x y :: f64
  assumes "0 \<le> x" "0 < y" shows "is_nan (x / y) \<or> 0 \<le> x / y"
proof -
  have "a \<noteq> RNaN \<Longrightarrow> b \<noteq> RNaN \<Longrightarrow> 0 \<le> raw_key a \<Longrightarrow> 0 < raw_key b \<Longrightarrow>
      raw_div a b = RNaN \<or> 0 \<le> raw_key (raw_div a b)" for a b
    by (cases a; cases b) (auto simp: raw_key_round_nonneg raw_inf_def)
  then show ?thesis using assms unfolding fle_iff flt_iff key_01 by transfer auto
qed

lemma fmul_nonneg_or_nan:
  fixes x y :: f64
  assumes "0 \<le> x" "0 \<le> y" shows "is_nan (x * y) \<or> 0 \<le> x * y"
proof -
  have "a \<noteq> RNaN \<Longrightarrow> b \<noteq> RNaN \<Longrightarrow> 0 \<le> raw_key a \<Longrightarrow> 0 \<le> raw_key b \<Longrightarrow>
      raw_mul a b = RNaN \<or> 0 \<le> raw_key (raw_mul a b)" for a b
    by (cases a; cases b) (auto simp: raw_key_round_nonneg raw_inf_def)
  then show ?thesis using assms unfolding fle_iff key_01 by transfer auto
qed

text \<open>Finiteness of a result that is bounded by a finite value.\<close>

lemma finite_lit_le:
  assumes "is_finite x" "\<bar>q\<bar> \<le> \<bar>key x\<bar>" shows "is_finite (lit q)"
proof (rule finite_between)
  show "lit (- \<bar>key x\<bar>) \<le> lit q" "lit q \<le> lit \<bar>key x\<bar>" using assms(2) by (auto intro!: lit_mono)
  show "is_finite (lit (- \<bar>key x\<bar>))" "is_finite (lit \<bar>key x\<bar>)"
    using assms(1) lit_key[of "\<bar>x\<bar>"] lit_key[of "- \<bar>x\<bar>"] by simp_all
qed

lemma fdiff_finite:
  assumes "is_finite x" "is_finite y" "0 \<le> x" "0 \<le> y" shows "is_finite (x - y)"
proof (cases "key y \<le> key x")
  case True
  then have "\<bar>key x - key y\<bar> \<le> \<bar>key x\<bar>" using assms by (simp add: fle_iff)
  then show ?thesis using assms finite_lit_le by (simp add: fdiff_lit)
next
  case False
  then have "\<bar>key x - key y\<bar> \<le> \<bar>key y\<bar>" using assms by (simp add: fle_iff)
  then show ?thesis using assms finite_lit_le by (simp add: fdiff_lit)
qed

lemma fmul_finite:
  assumes "is_finite x" "0 \<le> p" "p \<le> 1" shows "is_finite (p * x)"
proof -
  have p: "is_finite p" "0 \<le> key p" "key p \<le> 1"
    using assms finite_between[of 0 p 1] by (simp_all add: fle_iff)
  then have "\<bar>key p * key x\<bar> \<le> \<bar>key x\<bar>" by (simp add: abs_mult mult_left_le_one_le)
  then show ?thesis using assms p finite_lit_le by (simp add: fmul_lit)
qed

lemma fdiv_mono:
  fixes x y z :: f64
  assumes "is_finite x" "is_finite y" "is_finite z" "x \<le> y" "0 < z" shows "x / z \<le> y / z"
proof -
  have "key x / key z \<le> key y / key z" using assms by (simp add: f64_order divide_right_mono)
  then show ?thesis using assms by (simp add: fdiv_lit lit_mono flt_iff)
qed

lemma fmin_mono: "x \<le> y \<Longrightarrow> \<not> is_nan z \<Longrightarrow> fmin x z \<le> fmin y z"
  by (auto simp: fmin_def f64_order)

text \<open>Comparisons of literals that are not exactly representable.\<close>

lemma lit_compare [f64_eval]:
  "q \<le> p \<Longrightarrow> \<not> lit p < lit q" "p \<le> q \<Longrightarrow> lit p \<le> lit q"
  using lit_mono[of q p] lit_mono[of p q] by (auto simp: f64_order)

lemma lit_compare_01 [f64_eval]:
  "0 \<le> q \<Longrightarrow> 0 \<le> lit q" "1 \<le> q \<Longrightarrow> 1 \<le> lit q" "q \<le> 1 \<Longrightarrow> lit q \<le> 1"
  using lit_mono[of 0 q] lit_mono[of 1 q] lit_mono[of q 1] by (simp_all add: lit_01)

lemma lit_finite_small [f64_eval]: "- 9007199254740992 \<le> q \<Longrightarrow> q \<le> 9007199254740992 \<Longrightarrow> is_finite (lit q)"
proof -
  assume "- 9007199254740992 \<le> q" "q \<le> 9007199254740992"
  then have "\<bar>q\<bar> \<le> 9007199254740992" by (simp add: abs_le_iff)
  moreover have "is_finite (lit 9007199254740992)" "key (lit 9007199254740992) = 9007199254740992"
    using rep_lit[of 9007199254740992] by (simp_all add: rep_numeral)
  ultimately show ?thesis using finite_lit_le[of "lit 9007199254740992" q] by simp
qed

end
