(* ===== verification/Prelude.thy ===== *)
theory Prelude
  imports F64 "HOL-Library.Monad_Syntax" "HOL-Library.Multiset"
begin

text \<open>
  The vocabulary shared by the components: machine integers, conversions between them and binary64,
  monotonic time, byte strings with their big-endian encodings, JSON request and response bodies as
  the controllers see them, and the generic lemmas on lists, options and words the component proofs
  use. The collections \<open>netanvil_simps\<close> and \<open>netanvil_intros\<close> gather the facts that unfold small
  helpers and that discharge side conditions.
\<close>

named_theorems netanvil_simps \<open>unfolding of small helper functions\<close>

named_theorems netanvil_intros \<open>preservation facts\<close>

section \<open>Machine integers\<close>

type_synonym u8 = "8 word"

type_synonym u16 = "16 word"

type_synonym u32 = "32 word"

type_synonym u64 = "64 word"

type_synonym bytes = "u8 list"

text \<open>\<^verbatim>\<open>saturating_add(1)\<close> and \<^verbatim>\<open>saturating_sub(1)\<close> on \<^verbatim>\<open>u32\<close>.\<close>

definition sat_incr :: "u32 \<Rightarrow> u32" where
  "sat_incr x = (if x = - 1 then x else x + 1)"

definition sat_decr :: "u32 \<Rightarrow> u32" where
  "sat_decr x = (if x = 0 then 0 else x - 1)"

lemma unat_u32_less: "unat (x :: u32) < 4294967296"
  using unsigned_less[of x, where ?'a=nat] by simp

lemma unat_u8_less: "unat (x :: u8) < 256"
  using unsigned_less[of x, where ?'a=nat] by simp

lemma unat_u64_less: "unat (x :: u64) < 2 ^ 64"
  using unsigned_less[of x, where ?'a=nat] by simp

lemma unat_u32_max: "unat (- 1 :: u32) = 4294967295"
  by (simp add: unsigned_minus_1_eq_mask mask_eq_exp_minus_1)

lemma unat_sat_incr: "unat (sat_incr x) = min 4294967295 (unat x + 1)"
proof (cases "x = - 1")
  case True
  then show ?thesis by (simp add: sat_incr_def unat_u32_max)
next
  case False
  then have "unat x \<noteq> 4294967295"
    using unat_u32_max by (metis unsigned_word_eqI)
  then show ?thesis using False unat_u32_less[of x] by (simp add: sat_incr_def unat_word_ariths)
qed

lemma unat_sat_decr [simp]: "unat (sat_decr x) = unat x - 1"
  by (cases "x = 0") (simp_all add: sat_decr_def unat_minus_one)

lemma sat_incr_gt_0 [simp]: "0 < sat_incr x" "sat_incr x \<noteq> 0"
proof -
  show "0 < sat_incr x" using unat_sat_incr[of x] by (simp add: word_less_nat_alt)
  then show "sat_incr x \<noteq> 0" by auto
qed

lemma sat_incr_mono: "x \<le> y \<Longrightarrow> sat_incr x \<le> sat_incr y"
  by (simp add: word_le_nat_alt unat_sat_incr)

lemma sat_incr_ge: "x \<le> sat_incr x"
  using unat_u32_less[of x] by (simp add: word_le_nat_alt unat_sat_incr)

text \<open>\<^verbatim>\<open>x as f64\<close> for unsigned \<open>x\<close>, and the saturating casts back.\<close>

definition f64_of_word :: "'a::len word \<Rightarrow> f64" where
  "f64_of_word w = f64_of_nat (unat w)"

definition f64_to_u32 :: "f64 \<Rightarrow> u32" where
  "f64_to_u32 x = word_of_nat (f64_to_nat (2 ^ 32 - 1) x)"

definition f64_to_u64 :: "f64 \<Rightarrow> u64" where
  "f64_to_u64 x = word_of_nat (f64_to_nat (2 ^ 64 - 1) x)"

lemma unat_f64_to_u32: "unat (f64_to_u32 x) = f64_to_nat (2 ^ 32 - 1) x"
  using f64_to_nat_le[of "2 ^ 32 - 1" x]
  by (simp add: f64_to_u32_def unsigned_of_nat take_bit_nat_eq_self)

lemma f64_of_word_props [simp]:
  "\<not> is_nan (f64_of_word w)" "0 \<le> f64_of_word w"
  by (simp_all add: f64_of_word_def)

lemma is_finite_of_nat: "n \<le> 2 ^ 53 \<Longrightarrow> is_finite (f64_of_nat n)"
  by (simp add: f64_of_nat_def f64_of_nat_rep rep_lit)

text \<open>
  \<^verbatim>\<open>clamp\<close> with constant bounds cannot panic; \<open>clamp_to\<close> is its result.
\<close>

definition clamp_to :: "f64 \<Rightarrow> f64 \<Rightarrow> f64 \<Rightarrow> f64" where
  "clamp_to lo hi x = (if x < lo then lo else if hi < x then hi else x)"

lemma fclamp_clamp_to: "fclamp x lo hi = (if lo \<le> hi then Some (clamp_to lo hi x) else None)"
  by (auto simp: fclamp_def clamp_to_def f64_order)

lemma clamp_to_bounds: "lo \<le> hi \<Longrightarrow> \<not> is_nan x \<Longrightarrow> lo \<le> clamp_to lo hi x \<and> clamp_to lo hi x \<le> hi"
  by (auto simp: clamp_to_def f64_order)

section \<open>Sorting binary64 values\<close>

text \<open>
  \<^verbatim>\<open>sort_by(|a, b| a.partial_cmp(b).unwrap_or(Equal))\<close> on a list without NaN, where the comparison is
  a total order and the stable sort is determined. With a NaN in the list the standard library leaves
  the order unspecified; the samples the controllers sort are counts, rates and JSON numbers, none of
  which is NaN.
\<close>

definition f64_sort :: "f64 list \<Rightarrow> f64 list" where
  "f64_sort xs = sort_key key xs"

lemma f64_sort_props [simp]:
  "length (f64_sort xs) = length xs" "set (f64_sort xs) = set xs" "mset (f64_sort xs) = mset xs"
  "sorted (map key (f64_sort xs))"
  by (simp_all add: f64_sort_def)

section \<open>Time\<close>

text \<open>
  \<^verbatim>\<open>Duration\<close> is a count of nanoseconds, \<^verbatim>\<open>Instant\<close> a point on the monotonic clock, also in
  nanoseconds. \<^verbatim>\<open>Instant::duration_since\<close> saturates at zero.
\<close>

type_synonym duration = nat

type_synonym instant = int

definition secs :: "nat \<Rightarrow> duration" where
  "secs n = n * 1000000000"

definition millis :: "nat \<Rightarrow> duration" where
  "millis n = n * 1000000"

definition duration_since :: "instant \<Rightarrow> instant \<Rightarrow> duration" where
  "duration_since now t = nat (now - t)"

text \<open>\<^verbatim>\<open>as_secs_f64\<close>: whole seconds plus the sub-second nanoseconds over \<open>10\<^sup>9\<close>.\<close>

definition as_secs_f64 :: "duration \<Rightarrow> f64" where
  "as_secs_f64 d = f64_of_nat (d div 1000000000) + f64_of_nat (d mod 1000000000) / lit 1000000000"

lemma duration_since_mono: "now \<le> now' \<Longrightarrow> duration_since now t \<le> duration_since now' t"
  by (simp add: duration_since_def)

section \<open>Big-endian byte strings\<close>

text \<open>
  \<open>to_be n x\<close> is \<^verbatim>\<open>to_be_bytes\<close> of \<open>x\<close> cast to an \<open>n\<close>-byte unsigned integer (the cast keeps the low
  \<open>8 * n\<close> bits); \<open>from_be\<close> is \<^verbatim>\<open>from_be_bytes\<close>.
\<close>

fun to_be :: "nat \<Rightarrow> nat \<Rightarrow> bytes" where
  "to_be 0 x = []"
| "to_be (Suc n) x = word_of_nat (x div 256 ^ n) # to_be n x"

fun from_be :: "bytes \<Rightarrow> nat" where
  "from_be [] = 0"
| "from_be (b # bs) = unat b * 256 ^ length bs + from_be bs"

lemma length_to_be [simp]: "length (to_be n x) = n"
  by (induction n) simp_all

lemma unat_of_byte [simp]: "unat (word_of_nat n :: u8) = n mod 256"
  by (simp add: unsigned_of_nat take_bit_nat_def)

lemma from_be_to_be: "from_be (to_be n x) = x mod 256 ^ n"
proof (induction n)
  case (Suc n)
  have "x mod 256 ^ Suc n = (x div 256 ^ n mod 256) * 256 ^ n + x mod 256 ^ n"
    using mod_mult2_eq[of x "256 ^ n" 256] by (simp add: mult.commute)
  with Suc show ?case by simp
qed simp

lemma from_be_to_be_id: "x < 256 ^ n \<Longrightarrow> from_be (to_be n x) = x"
  by (simp add: from_be_to_be)

lemma from_be_less: "from_be bs < 256 ^ length bs"
proof (induction bs)
  case (Cons b bs)
  have "(unat b + 1) * 256 ^ length bs \<le> 256 * 256 ^ length bs"
    using unat_u8_less[of b] by (intro mult_right_mono) auto
  moreover have "(unat b + 1) * 256 ^ length bs = unat b * 256 ^ length bs + 256 ^ length bs" by simp
  ultimately have "unat b * 256 ^ length bs + from_be bs < 256 * 256 ^ length bs"
    using Cons by linarith
  then show ?case by simp
qed simp

lemma to_be_add: "to_be n (x + k * 256 ^ n) = to_be n x"
proof (induction n arbitrary: k)
  case (Suc n)
  have "(x + k * 256 ^ Suc n) div 256 ^ n = x div 256 ^ n + 256 * k"
    using div_mult_self1[of "256 ^ n" x "256 * k"] by (simp add: ac_simps)
  moreover have "word_of_nat (m + 256 * k) = (word_of_nat m :: u8)" for m
    by (rule unsigned_word_eqI[where ?'a=nat]) (simp del: of_nat_add of_nat_mult)
  ultimately show ?case using Suc[of "256 * k"] by (simp add: ac_simps)
qed simp

lemma to_be_from_be: "to_be (length bs) (from_be bs) = bs"
proof (induction bs)
  case (Cons b bs)
  have "to_be (length bs) (from_be (b # bs)) = bs"
    using to_be_add[of "length bs" "from_be bs" "unat b"] Cons by (simp add: add.commute)
  moreover have "from_be (b # bs) div 256 ^ length bs = unat b"
    using from_be_less[of bs] by simp
  ultimately show ?case by simp
qed simp

section \<open>Request and response bodies of the control API\<close>

text \<open>
  \<^verbatim>\<open>serde_json\<close> is a third-party crate: a parameter object is what the code can ask of it, the
  results of \<^verbatim>\<open>params.get(k).and_then(as_f64)\<close> and \<^verbatim>\<open>as_u64\<close>. Response bodies are the key-value
  pairs handed to \<^verbatim>\<open>json!\<close>.
\<close>

record params =
  p_f64 :: "string \<Rightarrow> f64 option"
  p_u64 :: "string \<Rightarrow> u64 option"

datatype jval = JBool bool | JF64 f64 | JU64 u64 | JStr string | JNull | JArr "jval list" | JObj "(string \<times> jval) list"

type_synonym json_object = "(string \<times> jval) list"

definition empty_params :: params where
  "empty_params = \<lparr>p_f64 = \<lambda>_. None, p_u64 = \<lambda>_. None\<rparr>"

definition ok_or :: "'a option \<Rightarrow> 'e \<Rightarrow> 'e + 'a" where
  "ok_or v e = (case v of None \<Rightarrow> Inl e | Some x \<Rightarrow> Inr x)"

section \<open>Lists and options\<close>

definition the_or :: "'a \<Rightarrow> 'a option \<Rightarrow> 'a" where
  "the_or d v = (case v of None \<Rightarrow> d | Some x \<Rightarrow> x)"

lemma the_or_simps [simp]: "the_or d None = d" "the_or d (Some x) = x"
  by (simp_all add: the_or_def)

text \<open>\<^verbatim>\<open>iter().find(|(k, _)| k == name).map(|(_, v)| v)\<close> is \<open>map_of\<close>.\<close>

text \<open>\<^verbatim>\<open>str::strip_prefix\<close> and \<^verbatim>\<open>str::split_once\<close> with a single character.\<close>

fun strip_prefix :: "string \<Rightarrow> string \<Rightarrow> string option" where
  "strip_prefix [] s = Some s"
| "strip_prefix (p # ps) [] = None"
| "strip_prefix (p # ps) (c # cs) = (if p = c then strip_prefix ps cs else None)"

fun split_once :: "char \<Rightarrow> string \<Rightarrow> (string \<times> string) option" where
  "split_once d [] = None"
| "split_once d (c # cs) = (if c = d then Some ([], cs)
     else map_option (map_prod ((#) c) id) (split_once d cs))"

lemma strip_prefix_append [simp]: "strip_prefix p (p @ s) = Some s"
  by (induction p) simp_all

lemma strip_prefix_Some: "strip_prefix p s = Some r \<Longrightarrow> s = p @ r"
  by (induction p s rule: strip_prefix.induct) (auto split: if_splits)

lemma split_once_Some: "split_once d s = Some (a, b) \<Longrightarrow> s = a @ d # b \<and> d \<notin> set a"
  by (induction s arbitrary: a) (auto split: if_splits)

lemma split_once_append: "d \<notin> set a \<Longrightarrow> split_once d (a @ d # b) = Some (a, b)"
  by (induction a) auto

text \<open>Replace the first element that satisfies a predicate, with the result of the update.\<close>

fun update_first :: "('a \<Rightarrow> bool) \<Rightarrow> ('a \<Rightarrow> 'a \<times> 'b) \<Rightarrow> 'a list \<Rightarrow> ('a list \<times> 'b) option" where
  "update_first P f [] = None"
| "update_first P f (x # xs) =
     (if P x then (let (x', r) = f x in Some (x' # xs, r))
      else map_option (map_prod ((#) x) id) (update_first P f xs))"

lemma bind_Some_iff: "Option.bind v f = Some y \<longleftrightarrow> (\<exists>x. v = Some x \<and> f x = Some y)"
  by (cases v) simp_all

lemma take_append_prefix: "take (length xs) (xs @ ys) = xs" "drop (length xs) (xs @ ys) = ys"
  by simp_all

end
