(* ===== verification/Rate_Types.thy ===== *)
theory Rate_Types
  imports Prelude
begin

text \<open>
  The plain data of \<^verbatim>\<open>crates/netanvil-types/src\<close> that the rate controllers read and write: the metrics
  summary of one control tick, the rate decision, the configuration enums of the adaptive controller,
  and the controller introspection types. Field names carry a short prefix, since record fields are
  global constants.
\<close>

section \<open>Metrics (\<^verbatim>\<open>metrics.rs\<close>)\<close>

record MetricsSummary =
  ms_total_requests :: u64
  ms_total_errors :: u64
  ms_error_rate :: f64
  ms_request_rate :: f64
  ms_latency_p50_ns :: u64
  ms_latency_p90_ns :: u64
  ms_latency_p99_ns :: u64
  ms_window_duration :: duration
  ms_bytes_sent :: u64
  ms_bytes_received :: u64
  ms_throughput_send_bps :: f64
  ms_throughput_recv_bps :: f64
  ms_external_signals :: "(string \<times> f64) list"
  ms_timeout_count :: u64
  ms_in_flight_drops :: u64

text \<open>The derived \<^verbatim>\<open>Default\<close> of the summary.\<close>

definition MetricsSummary_default :: MetricsSummary where
  "MetricsSummary_default = \<lparr>
     ms_total_requests = 0, ms_total_errors = 0, ms_error_rate = lit 0, ms_request_rate = lit 0,
     ms_latency_p50_ns = 0, ms_latency_p90_ns = 0, ms_latency_p99_ns = 0, ms_window_duration = 0,
     ms_bytes_sent = 0, ms_bytes_received = 0, ms_throughput_send_bps = lit 0,
     ms_throughput_recv_bps = lit 0, ms_external_signals = [], ms_timeout_count = 0,
     ms_in_flight_drops = 0\<rparr>"

record RateDecision =
  target_rps :: f64

record PacketCounterDeltas =
  pcd_sent :: u64
  pcd_received :: u64
  pcd_lost :: u64

text \<open>CPU affinity observations of one core: each sampled read is a hit, a miss or unknown.\<close>

record CpuAffinityCounters =
  cac_hits :: u64
  cac_misses :: u64
  cac_unknown :: u64

definition CpuAffinityCounters_new :: CpuAffinityCounters where
  "CpuAffinityCounters_new = \<lparr>cac_hits = 0, cac_misses = 0, cac_unknown = 0\<rparr>"

text \<open>\<^verbatim>\<open>incoming_cpu\<close> is an \<^verbatim>\<open>i32\<close>; it is only cast to \<^verbatim>\<open>usize\<close> when it is non-negative.\<close>

definition CpuAffinityCounters_record :: "int \<Rightarrow> u64 \<Rightarrow> CpuAffinityCounters \<Rightarrow> CpuAffinityCounters" where
  "CpuAffinityCounters_record incoming_cpu worker_cpu c =
     (if incoming_cpu < 0 then c\<lparr>cac_unknown := cac_unknown c + 1\<rparr>
      else if word_of_int incoming_cpu = worker_cpu then c\<lparr>cac_hits := cac_hits c + 1\<rparr>
      else c\<lparr>cac_misses := cac_misses c + 1\<rparr>)"

definition CpuAffinityCounters_drain :: "CpuAffinityCounters \<Rightarrow> CpuAffinityCounters \<times> (u64 \<times> u64 \<times> u64)" where
  "CpuAffinityCounters_drain c =
     (c\<lparr>cac_hits := 0, cac_misses := 0, cac_unknown := 0\<rparr>,
      (cac_hits c, cac_misses c, cac_unknown c))"

record TcpHealth =
  th_rtt_sum_us :: u64
  th_rtt_count :: u64
  th_rtt_max_us :: u64
  th_retransmits :: u64
  th_lost :: u64

definition TcpHealthCounters_new :: TcpHealth where
  "TcpHealthCounters_new = \<lparr>th_rtt_sum_us = 0, th_rtt_count = 0, th_rtt_max_us = 0,
     th_retransmits = 0, th_lost = 0\<rparr>"

text \<open>The three \<^verbatim>\<open>u32\<close> fields of \<^verbatim>\<open>libc::tcp_info\<close> the code reads.\<close>

record tcp_info =
  tcpi_rtt :: u32
  tcpi_total_retrans :: u32
  tcpi_lost :: u32

definition TcpHealthCounters_record :: "tcp_info \<Rightarrow> TcpHealth \<Rightarrow> TcpHealth" where
  "TcpHealthCounters_record info c =
     (let rtt = ucast (tcpi_rtt info) :: u64 in
      c\<lparr>th_rtt_sum_us := th_rtt_sum_us c + rtt,
        th_rtt_count := th_rtt_count c + 1,
        th_rtt_max_us := (if th_rtt_max_us c < rtt then rtt else th_rtt_max_us c),
        th_retransmits := th_retransmits c + ucast (tcpi_total_retrans info),
        th_lost := th_lost c + ucast (tcpi_lost info)\<rparr>)"

definition TcpHealthCounters_drain :: "TcpHealth \<Rightarrow> TcpHealth \<times> TcpHealth" where
  "TcpHealthCounters_drain c =
     (c\<lparr>th_rtt_sum_us := 0, th_rtt_count := 0, th_rtt_max_us := 0, th_retransmits := 0, th_lost := 0\<rparr>, c)"

section \<open>Configuration of the controllers (\<^verbatim>\<open>config.rs\<close>)\<close>

datatype TargetMetric =
    TM_LatencyP50 | TM_LatencyP90 | TM_LatencyP99 | TM_ErrorRate | TM_ThroughputSend | TM_ThroughputRecv
  | TM_External string

datatype SignalDirection = HigherIsWorse | LowerIsWorse

datatype MissingSignalBehavior = MSB_Ignore | MSB_Hold | MSB_Backoff

record ExternalConstraintConfig =
  ecc_signal_name :: string
  ecc_threshold :: f64
  ecc_direction :: SignalDirection
  ecc_on_missing :: MissingSignalBehavior
  ecc_stale_after_ticks :: u32
  ecc_persistence :: u32

datatype InternalMetric =
    IM_LatencyP50 | IM_LatencyP90 | IM_LatencyP99 | IM_ErrorRate | IM_ThroughputSend | IM_ThroughputRecv
  | IM_TimeoutFraction | IM_InFlightDropFraction

record ExternalMetricRef =
  emr_name :: string
  emr_direction :: SignalDirection
  emr_stale_after_ticks :: u32
  emr_on_missing :: MissingSignalBehavior

datatype MetricRef = MR_Internal InternalMetric | MR_External ExternalMetricRef

record BaselineMultiplier =
  bm_multiplier :: f64
  bm_baseline_floor_ms :: f64

datatype ThresholdSource = TS_Absolute f64 | TS_FromBaseline BaselineMultiplier

datatype SmootherConfig = SC_None | SC_Ema f64 | SC_Median nat

record BackoffConfig =
  bc_gentle :: f64
  bc_moderate :: f64
  bc_hard :: f64

datatype ConstraintClassConfig = CCC_OperatingPoint | CCC_Catastrophic

record ThresholdConstraintConfig =
  tcc_id :: string
  tcc_metric :: MetricRef
  tcc_smoother :: "SmootherConfig option"
  tcc_class_override :: "ConstraintClassConfig option"
  tcc_threshold_source :: ThresholdSource
  tcc_persistence :: u32
  tcc_self_caused_cap :: "f64 option"
  tcc_backoff :: "BackoffConfig option"

datatype GainsConfig =
    GC_Auto (gc_autotune_duration: duration) (gc_smoothing: f64)
  | GC_Manual f64 f64 f64

definition GainsConfig_default :: GainsConfig where
  "GainsConfig_default = GC_Auto (secs 3) (lit 0.3)"

record SetpointConstraintConfig =
  scc_id :: string
  scc_metric :: MetricRef
  scc_smoother :: "SmootherConfig option"
  scc_target :: f64
  scc_gains :: GainsConfig
  scc_tracking_gain :: f64

datatype ConstraintConfig = CC_Threshold ThresholdConstraintConfig | CC_Setpoint SetpointConstraintConfig

record BoundsConfig =
  bounds_min_rps :: f64
  bounds_max_rps :: f64

record WarmupConfig =
  wc_rps :: f64
  wc_duration :: duration

record CongestionAvoidanceConfig =
  ca_trigger_threshold :: f64
  ca_additive_fraction :: f64
  ca_failure_rate_alpha :: f64

text \<open>The \<^verbatim>\<open>IncreasePolicyConfig\<close> of the configuration file; the arbiter has a struct of the same name.\<close>

datatype IncreaseConfig =
    Multiplicative f64 "CongestionAvoidanceConfig option"
  | Additive f64

definition IncreaseConfig_default :: IncreaseConfig where
  "IncreaseConfig_default = Multiplicative (lit 1.1) None"

record CooldownPolicyConfig =
  cp_min_ticks :: u32
  cp_recovery_multiplier :: f64

definition CooldownPolicyConfig_default :: CooldownPolicyConfig where
  "CooldownPolicyConfig_default = \<lparr>cp_min_ticks = 2, cp_recovery_multiplier = lit 1.5\<rparr>"

record FloorPolicyConfig =
  fp_fraction :: f64
  fp_window :: duration

definition FloorPolicyConfig_default :: FloorPolicyConfig where
  "FloorPolicyConfig_default = \<lparr>fp_fraction = lit 0.8, fp_window = secs 60\<rparr>"

record RateChangeLimitsConfig =
  rcl_max_increase_pct :: f64
  rcl_max_decrease_pct :: f64

definition RateChangeLimitsConfig_default :: RateChangeLimitsConfig where
  "RateChangeLimitsConfig_default = \<lparr>rcl_max_increase_pct = lit 0.2, rcl_max_decrease_pct = lit 0.5\<rparr>"

record AdaptiveConfig =
  ac_bounds :: BoundsConfig
  ac_warmup :: "WarmupConfig option"
  ac_initial_rps :: "f64 option"
  ac_constraints :: "ConstraintConfig list"
  ac_increase :: "IncreaseConfig option"
  ac_cooldown :: "CooldownPolicyConfig option"
  ac_floor :: "FloorPolicyConfig option"
  ac_rate_change_limits :: "RateChangeLimitsConfig option"

datatype RateConfig = RC_Static f64 | RC_Step "(duration \<times> f64) list" | RC_Adaptive AdaptiveConfig

text \<open>\<^verbatim>\<open>TestConfig::initial_rps\<close>, a function of the \<^verbatim>\<open>rate\<close> field.\<close>

definition initial_rps_of :: "RateConfig \<Rightarrow> f64" where
  "initial_rps_of rate = (case rate of
     RC_Static rps \<Rightarrow> rps
   | RC_Step steps \<Rightarrow> (case steps of [] \<Rightarrow> lit 100 | (_, rps) # _ \<Rightarrow> rps)
   | RC_Adaptive ac \<Rightarrow> (case ac_initial_rps ac of
       Some r \<Rightarrow> r
     | None \<Rightarrow> (case ac_warmup ac of Some w \<Rightarrow> wc_rps w | None \<Rightarrow> bounds_min_rps (ac_bounds ac))))"

section \<open>Controller introspection (\<^verbatim>\<open>controller.rs\<close>)\<close>

datatype ControllerType =
  CT_Static | CT_Step | CT_Pid | CT_PidAutotune | CT_CompositePid | CT_Ramp | CT_Arbiter

record ControllerInfo =
  ci_controller_type :: ControllerType
  ci_current_rps :: f64
  ci_editable_actions :: "string list"
  ci_params :: jval

datatype HoldState = Released | Held f64

datatype HoldCommand = Hold f64 | Release

text \<open>
  The errors of \<^verbatim>\<open>apply_update\<close>; the code formats each into a message string. \<open>InvalidAction\<close> names
  the action and the controller or constraint type that rejects it.
\<close>

datatype UpdateError =
    MissingField string
  | InvalidAction string string
  | StepOutOfRange nat nat
  | ConstraintNotFound string

type_synonym update_result = "UpdateError + json_object"

end
