(* ===== verification/Constraints.thy ===== *)
theory Constraints
  imports Rate_Types
begin

text \<open>
  \<^verbatim>\<open>controller/constraints.rs\<close> and the data types of \<^verbatim>\<open>controller/constraint.rs\<close>: graduated actions,
  violation streaks with hysteresis, the persistence gate, and the recovery-time estimator that sizes
  the cooldown of the arbiter.
\<close>

section \<open>Constants and actions\<close>

definition SEVERITY_BYPASS_PERSISTENCE :: f64 where
  "SEVERITY_BYPASS_PERSISTENCE = lit 3"

definition RECOVERY_MIN_TICKS :: u32 where
  "RECOVERY_MIN_TICKS = 3"

definition RECOVERY_MIN_SAMPLES :: u32 where
  "RECOVERY_MIN_SAMPLES = 3"

definition RECOVERY_SEVERITY_THRESHOLD :: f64 where
  "RECOVERY_SEVERITY_THRESHOLD = lit 0.9"

definition RECOVERY_EMA_ALPHA :: f64 where
  "RECOVERY_EMA_ALPHA = lit 0.3"

datatype ConstraintAction = AllowIncrease | HoldRate | GentleBackoff | ModerateBackoff | HardBackoff

text \<open>The derived \<^verbatim>\<open>Ord\<close>: variants in ascending severity.\<close>

fun action_rank :: "ConstraintAction \<Rightarrow> nat" where
  "action_rank AllowIncrease = 0"
| "action_rank HoldRate = 1"
| "action_rank GentleBackoff = 2"
| "action_rank ModerateBackoff = 3"
| "action_rank HardBackoff = 4"

instantiation ConstraintAction :: linorder
begin

definition less_eq_ConstraintAction :: "ConstraintAction \<Rightarrow> ConstraintAction \<Rightarrow> bool" where
  "less_eq_ConstraintAction a b \<longleftrightarrow> action_rank a \<le> action_rank b"

definition less_ConstraintAction :: "ConstraintAction \<Rightarrow> ConstraintAction \<Rightarrow> bool" where
  "less_ConstraintAction a b \<longleftrightarrow> action_rank a < action_rank b"

instance
proof
  fix a b :: ConstraintAction
  show "a \<le> b \<Longrightarrow> b \<le> a \<Longrightarrow> a = b"
    by (cases a; cases b) (simp_all add: less_eq_ConstraintAction_def)
qed (auto simp: less_eq_ConstraintAction_def less_ConstraintAction_def)

end

definition backoff_factor :: "ConstraintAction \<Rightarrow> f64 \<Rightarrow> f64 \<Rightarrow> f64 \<Rightarrow> f64" where
  "backoff_factor a gentle moderate hard = (case a of
     GentleBackoff \<Rightarrow> gentle
   | ModerateBackoff \<Rightarrow> moderate
   | HardBackoff \<Rightarrow> hard
   | _ \<Rightarrow> lit 1)"

fun ConstraintAction_label :: "ConstraintAction \<Rightarrow> string" where
  "ConstraintAction_label AllowIncrease = ''increase''"
| "ConstraintAction_label HoldRate = ''hold''"
| "ConstraintAction_label GentleBackoff = ''backoff_gentle''"
| "ConstraintAction_label ModerateBackoff = ''backoff_moderate''"
| "ConstraintAction_label HardBackoff = ''backoff_hard''"

definition is_backoff :: "ConstraintAction \<Rightarrow> bool" where
  "is_backoff a = (case a of GentleBackoff \<Rightarrow> True | ModerateBackoff \<Rightarrow> True | HardBackoff \<Rightarrow> True | _ \<Rightarrow> False)"

datatype ConstraintClass = OperatingPoint | Catastrophic

datatype ConstraintId = CI_Timeout | CI_InFlightDrop | CI_Latency | CI_ErrorRate | CI_External string

fun ConstraintId_label :: "ConstraintId \<Rightarrow> string" where
  "ConstraintId_label CI_Timeout = ''timeout''"
| "ConstraintId_label CI_InFlightDrop = ''inflight_drop''"
| "ConstraintId_label CI_Latency = ''latency''"
| "ConstraintId_label CI_ErrorRate = ''error_rate''"
| "ConstraintId_label (CI_External name) = name"

section \<open>Per-constraint state\<close>

record ConstraintState =
  cs_violation_streak :: u32
  cs_persistence :: u32
  cs_ticks_since_seen :: u32
  cs_missing_streak :: u32
  cs_recovery_ema_ticks :: f64
  cs_recovery_samples :: u32
  cs_initial_seed :: f64
  cs_ticks_since_backoff :: "u32 option"

definition ConstraintState_new :: "u32 \<Rightarrow> f64 \<Rightarrow> ConstraintState" where
  "ConstraintState_new persistence initial_seed = \<lparr>
     cs_violation_streak = 0, cs_persistence = persistence, cs_ticks_since_seen = 0,
     cs_missing_streak = 0, cs_recovery_ema_ticks = initial_seed, cs_recovery_samples = 0,
     cs_initial_seed = initial_seed, cs_ticks_since_backoff = None\<rparr>"

definition cooldown_estimate :: "ConstraintState \<Rightarrow> f64" where
  "cooldown_estimate s =
     (if cs_recovery_samples s \<ge> RECOVERY_MIN_SAMPLES then cs_recovery_ema_ticks s
      else fmax (cs_recovery_ema_ticks s) (cs_initial_seed s))"

definition advance_recovery :: "f64 \<Rightarrow> ConstraintState \<Rightarrow> ConstraintState" where
  "advance_recovery severity s = (case cs_ticks_since_backoff s of
     None \<Rightarrow> s
   | Some t \<Rightarrow>
       (let ticks = t + 1 in
        if ticks \<ge> RECOVERY_MIN_TICKS \<and> severity < RECOVERY_SEVERITY_THRESHOLD
        then s\<lparr>cs_recovery_samples := cs_recovery_samples s + 1,
               cs_recovery_ema_ticks := RECOVERY_EMA_ALPHA * f64_of_word ticks
                 + (lit 1 - RECOVERY_EMA_ALPHA) * cs_recovery_ema_ticks s,
               cs_ticks_since_backoff := None\<rparr>
        else s\<lparr>cs_ticks_since_backoff := Some ticks\<rparr>))"

definition start_recovery_tracking :: "ConstraintState \<Rightarrow> ConstraintState" where
  "start_recovery_tracking s = s\<lparr>cs_ticks_since_backoff := Some 0\<rparr>"

section \<open>Graduation, streaks, persistence\<close>

definition graduated_action :: "f64 \<Rightarrow> ConstraintAction" where
  "graduated_action severity =
     (if severity < lit 0.7 then AllowIncrease
      else if severity < lit 1 then HoldRate
      else if severity < lit 1.5 then GentleBackoff
      else if severity < lit 2 then ModerateBackoff
      else HardBackoff)"

definition update_streak :: "u32 \<Rightarrow> f64 \<Rightarrow> u32" where
  "update_streak streak severity =
     (if severity \<ge> lit 1 then streak + 1
      else if severity < lit 0.7 then 0
      else streak)"

definition apply_persistence :: "ConstraintAction \<Rightarrow> u32 \<Rightarrow> u32 \<Rightarrow> f64 \<Rightarrow> ConstraintAction" where
  "apply_persistence action streak persistence severity =
     (if \<not> is_backoff action then action
      else if streak \<ge> persistence \<or> severity > SEVERITY_BYPASS_PERSISTENCE then action
      else HoldRate)"

section \<open>Evaluation context and intents (\<^verbatim>\<open>constraint.rs\<close>)\<close>

record EvalContext =
  ctx_summary :: MetricsSummary
  ctx_current_rate :: f64
  ctx_ticks_since_increase :: u32
  ctx_min_rps :: f64
  ctx_max_rps :: f64

datatype ConstraintIntent = NoObjection | HoldAt f64 | DesireRate f64

record ConstraintOutput =
  co_intent :: ConstraintIntent
  co_severity :: f64

record WarmupBaseline =
  wb_baseline_p99_ms :: f64
  wb_sample_count :: nat

section \<open>Lemmas\<close>

lemma is_backoff_iff: "is_backoff a \<longleftrightarrow> HoldRate < a"
  by (cases a) (simp_all add: is_backoff_def less_ConstraintAction_def)

lemma apply_persistence_le: "apply_persistence a k p sev \<le> a"
  by (auto simp: apply_persistence_def is_backoff_iff)

lemma apply_persistence_gate:
  "is_backoff (apply_persistence a k p sev) \<Longrightarrow> p \<le> k \<or> SEVERITY_BYPASS_PERSISTENCE < sev"
  by (auto simp: apply_persistence_def is_backoff_def split: if_splits)

lemma min_Hold_not_backoff: "\<not> is_backoff (min a HoldRate)"
  by (auto simp: is_backoff_iff min_def)

lemma sev_thresholds: "lit 0.7 < lit 1" "lit 1 < lit 1.5" "lit 1.5 < lit 2" "lit 0.7 < lit 0.9" "lit 0.9 < lit 1"
proof -
  have d: "rep (3 / 4)" "rep (7 / 8)" "rep (15/16)" by (simp_all add: f64_eval)
  have "lit 0.7 \<le> lit (3 / 4)" "lit (7/8) \<le> lit 0.9" "lit 0.9 \<le> lit (15/16)" by (rule lit_mono; simp)+
  moreover have "lit (3 / 4) < lit 1" "lit (3/4) < lit (7/8)" "lit (15/16) < lit 1"
    using d by (simp_all add: f64_eval)
  ultimately show "lit 0.7 < lit 1" "lit 0.7 < lit 0.9" "lit 0.9 < lit 1"
    by (simp_all only: flt_iff fle_iff) linarith+
  have "rep (3 / 2)" by (simp add: f64_eval)
  then show "lit 1 < lit 1.5" "lit 1.5 < lit 2" by (simp_all add: f64_eval)
qed

lemma graduated_action_mono:
  assumes "x \<le> y" shows "graduated_action x \<le> graduated_action y"
proof -
  have c: "y < c \<Longrightarrow> x < c" for c using assms by (rule fle_flt_trans)
  show ?thesis using c[of "lit 0.7"] c[of "lit 1"] c[of "lit 1.5"] c[of "lit 2"]
    by (simp add: graduated_action_def less_eq_ConstraintAction_def)
qed

lemma update_streak_le: "unat (update_streak k sev) \<le> unat k + 1"
proof -
  have "unat (k + 1) \<le> unat k + 1" by (simp add: unat_word_ariths mod_less_eq_dividend)
  then show ?thesis by (auto simp: update_streak_def)
qed

text \<open>
  Hysteresis: after a violation the streak can only return to zero through a tick in the increase zone.
\<close>

lemma update_streak_zero:
  assumes "update_streak k sev = 0" "k \<noteq> 0" "unat k < 2 ^ 32 - 1"
  shows "sev < lit 0.7"
proof (rule ccontr)
  assume "\<not> sev < lit 0.7"
  then have "k + 1 = 0" using assms(1,2) by (auto simp: update_streak_def split: if_splits)
  then have "unat (k + 1) = 0" by simp
  then show False using assms(3) by (simp add: unat_word_ariths)
qed

text \<open>Recovery tracking measures at least \<open>RECOVERY_MIN_TICKS\<close> ticks and stops at the first relaxed tick.\<close>

definition recovery_ticks :: "f64 list \<Rightarrow> ConstraintState \<Rightarrow> ConstraintState" where
  "recovery_ticks = fold advance_recovery"

lemma advance_recovery_idle [simp]: "cs_ticks_since_backoff s = None \<Longrightarrow> advance_recovery sev s = s"
  by (simp add: advance_recovery_def)

lemma advance_recovery_stressed:
  assumes "cs_ticks_since_backoff s = Some t" "\<not> sev < RECOVERY_SEVERITY_THRESHOLD"
  shows "advance_recovery sev s = s\<lparr>cs_ticks_since_backoff := Some (t + 1)\<rparr>"
  using assms by (simp add: advance_recovery_def Let_def)

lemma recovery_ticks_stressed:
  assumes "cs_ticks_since_backoff s = Some t" "\<forall>sev \<in> set sevs. \<not> sev < RECOVERY_SEVERITY_THRESHOLD"
  shows "recovery_ticks sevs s = s\<lparr>cs_ticks_since_backoff := Some (t + word_of_nat (length sevs))\<rparr>"
  using assms
proof (induction sevs arbitrary: s t)
  case (Cons sev sevs)
  then show ?case
    by (simp add: recovery_ticks_def advance_recovery_stressed ac_simps)
qed (simp add: recovery_ticks_def)

end
