(* ===== verification/Smoothing.thy ===== *)
theory Smoothing
  imports Prelude
begin

text \<open>
  \<^verbatim>\<open>crates/netanvil-core/src/controller/smoothing.rs\<close>: the signal smoothers. The sliding median is the
  interesting one: its window is the last \<open>size\<close> samples, and its output stays inside any range that
  holds more than half of the window, whatever the outliers are.
\<close>

section \<open>Model\<close>

datatype Smoother =
    Smoother_None (sm_value: f64)
  | Smoother_Ema (sm_alpha: f64) (sm_value: f64) (sm_initialized: bool)
  | Smoother_Median (sm_window: "f64 list") (sm_size: nat) (sm_cached: f64)

definition Smoother_none :: Smoother where
  "Smoother_none = Smoother_None (lit 0)"

definition Smoother_ema :: "f64 \<Rightarrow> Smoother" where
  "Smoother_ema alpha = Smoother_Ema (clamp_to (lit 0) (lit 1) alpha) (lit 0) False"

definition Smoother_median :: "nat \<Rightarrow> Smoother" where
  "Smoother_median cap = Smoother_Median [] (max cap 1) (lit 0)"

text \<open>The loop \<^verbatim>\<open>while window.len() > size { window.pop_front() }\<close>.\<close>

fun pop_front_to :: "nat \<Rightarrow> 'a list \<Rightarrow> 'a list" where
  "pop_front_to cap [] = []"
| "pop_front_to cap (x # xs) = (if length (x # xs) > cap then pop_front_to cap xs else x # xs)"

fun Smoother_smooth :: "Smoother \<Rightarrow> f64 \<Rightarrow> Smoother \<times> f64" where
  "Smoother_smooth (Smoother_None value) raw = (Smoother_None raw, raw)"
| "Smoother_smooth (Smoother_Ema alpha value initialized) raw =
     (let value' = (if \<not> initialized then raw else alpha * raw + (lit 1 - alpha) * value)
      in (Smoother_Ema alpha value' True, value'))"
| "Smoother_smooth (Smoother_Median window cap cached) raw =
     (let window' = pop_front_to cap (window @ [raw]);
          sorted = f64_sort window';
          cached' = sorted ! (length sorted div 2)
      in (Smoother_Median window' cap cached', cached'))"

fun Smoother_current :: "Smoother \<Rightarrow> f64" where
  "Smoother_current (Smoother_None value) = value"
| "Smoother_current (Smoother_Ema alpha value initialized) = value"
| "Smoother_current (Smoother_Median window cap cached) = cached"

fun Smoother_min_samples :: "Smoother \<Rightarrow> nat" where
  "Smoother_min_samples (Smoother_None value) = 1"
| "Smoother_min_samples (Smoother_Ema alpha value initialized) = 1"
| "Smoother_min_samples (Smoother_Median window cap cached) = cap"

fun Smoother_reset :: "Smoother \<Rightarrow> Smoother" where
  "Smoother_reset (Smoother_None value) = Smoother_None (lit 0)"
| "Smoother_reset (Smoother_Ema alpha value initialized) = Smoother_Ema alpha (lit 0) False"
| "Smoother_reset (Smoother_Median window cap cached) = Smoother_Median [] cap (lit 0)"

text \<open>Feeding a sequence of samples.\<close>

definition smooth_all :: "Smoother \<Rightarrow> f64 list \<Rightarrow> Smoother" where
  "smooth_all = foldl (\<lambda>s raw. fst (Smoother_smooth s raw))"

section \<open>Lemmas\<close>

lemma pop_front_to_drop: "pop_front_to n xs = drop (length xs - n) xs"
proof (induction xs)
  case (Cons x xs)
  then show ?case by (cases "length xs < n") (auto simp: Suc_diff_le not_less)
qed simp

text \<open>The window is bounded and never empty after a sample, so the index of the median is in range.\<close>

fun smoother_wf :: "Smoother \<Rightarrow> bool" where
  "smoother_wf (Smoother_None _) \<longleftrightarrow> True"
| "smoother_wf (Smoother_Ema alpha _ _) \<longleftrightarrow> is_nan alpha \<or> 0 \<le> alpha \<and> alpha \<le> 1"
| "smoother_wf (Smoother_Median window cap _) \<longleftrightarrow> 1 \<le> cap \<and> length window \<le> cap"

lemma smoother_wf_new [simp]:
  "smoother_wf Smoother_none" "smoother_wf (Smoother_ema alpha)" "smoother_wf (Smoother_median n)"
  using clamp_to_bounds[of 0 1 alpha]
  by (auto simp: Smoother_none_def Smoother_ema_def Smoother_median_def lit_01 clamp_to_def f64_order)

lemma smoother_wf_smooth [simp]: "smoother_wf s \<Longrightarrow> smoother_wf (fst (Smoother_smooth s raw))"
  by (cases s) (auto simp: Let_def pop_front_to_drop)

lemma smoother_wf_reset [simp]: "smoother_wf s \<Longrightarrow> smoother_wf (Smoother_reset s)"
  by (cases s) auto

lemma smooth_current: "Smoother_current (fst (Smoother_smooth s raw)) = snd (Smoother_smooth s raw)"
  by (cases s) (auto simp: Let_def)

lemma smooth_reset_fresh:
  "snd (Smoother_smooth (Smoother_reset s) raw) = raw" if "smoother_wf s"
  using that by (cases s) (auto simp: Let_def f64_sort_def)

lemma smooth_median_window:
  assumes "length window \<le> n" "1 \<le> n"
  shows "\<exists>c. smooth_all (Smoother_Median window n c0) xs
     = Smoother_Median (drop (length (window @ xs) - n) (window @ xs)) n c"
  using assms(1)
proof (induction xs arbitrary: window c0)
  case Nil
  then show ?case by (auto simp: smooth_all_def)
next
  case (Cons x xs)
  define w where "w = drop (Suc (length window) - n) (window @ [x])"
  have w: "length w \<le> n" by (simp add: w_def)
  obtain c1 where "fst (Smoother_smooth (Smoother_Median window n c0) x) = Smoother_Median w n c1"
    by (simp add: Let_def pop_front_to_drop w_def)
  then have "smooth_all (Smoother_Median window n c0) (x # xs) = smooth_all (Smoother_Median w n c1) xs"
    by (simp add: smooth_all_def)
  moreover have "drop (length (w @ xs) - n) (w @ xs) = drop (length (window @ x # xs) - n) (window @ x # xs)"
  proof (cases "length window < n")
    case True
    then show ?thesis by (simp add: w_def)
  next
    case False
    then have "length window = n" using Cons.prems by simp
    then show ?thesis using assms(2) by (cases window) (auto simp: w_def)
  qed
  ultimately show ?case using Cons.IH[OF w, of c1] by metis
qed

text \<open>
  A value at position \<open>length xs div 2\<close> of a sorted list lies in every interval that holds more than
  half of the elements.
\<close>

lemma sorted_middle_ge:
  assumes s: "sorted (map key xs)" and m: "2 * length (filter (\<lambda>x. lo \<le> key x) xs) > length xs"
  shows "lo \<le> key (xs ! (length xs div 2))"
proof (rule ccontr)
  let ?k = "length xs div 2"
  assume "\<not> lo \<le> key (xs ! ?k)"
  moreover have k: "?k < length xs" using m by (cases xs) auto
  ultimately have "\<not> lo \<le> key x" if "x \<in> set (take (Suc ?k) xs)" for x
  proof -
    from that obtain i where "x = xs ! i" "i \<le> ?k" by (auto simp: in_set_conv_nth less_Suc_eq_le)
    then show ?thesis using sorted_nth_mono[OF s, of i ?k] \<open>\<not> lo \<le> key (xs ! ?k)\<close> k by simp
  qed
  then have "filter (\<lambda>x. lo \<le> key x) (take (Suc ?k) xs) = []" by (simp add: filter_empty_conv)
  then have "length (filter (\<lambda>x. lo \<le> key x) xs) = length (filter (\<lambda>x. lo \<le> key x) (drop (Suc ?k) xs))"
    by (metis append_Nil append_take_drop_id filter_append)
  also have "\<dots> \<le> length xs - Suc ?k" by (metis length_drop length_filter_le)
  finally show False using m by linarith
qed

lemma sorted_middle_le:
  assumes s: "sorted (map key xs)" and m: "2 * length (filter (\<lambda>x. key x \<le> hi) xs) > length xs"
  shows "key (xs ! (length xs div 2)) \<le> hi"
proof (rule ccontr)
  let ?k = "length xs div 2"
  assume "\<not> key (xs ! ?k) \<le> hi"
  moreover have k: "?k < length xs" using m by (cases xs) auto
  ultimately have "\<not> key x \<le> hi" if "x \<in> set (drop ?k xs)" for x
  proof -
    from that obtain i where "x = xs ! (?k + i)" "?k + i < length xs"
      by (auto simp: in_set_conv_nth)
    then show ?thesis using sorted_nth_mono[OF s, of ?k "?k + i"] \<open>\<not> key (xs ! ?k) \<le> hi\<close> k by simp
  qed
  then have "filter (\<lambda>x. key x \<le> hi) (drop ?k xs) = []" by (simp add: filter_empty_conv)
  then have "length (filter (\<lambda>x. key x \<le> hi) xs) = length (filter (\<lambda>x. key x \<le> hi) (take ?k xs))"
    by (metis append_Nil2 append_take_drop_id filter_append)
  also have "\<dots> \<le> ?k" by (metis length_filter_le length_take min.absorb_iff2 min.cobounded2 order_trans)
  finally show False using m by linarith
qed

lemma median_sorted_within:
  assumes "2 * length (filter (\<lambda>x. lo \<le> key x \<and> key x \<le> hi) xs) > length xs"
  shows "lo \<le> key (f64_sort xs ! (length xs div 2)) \<and> key (f64_sort xs ! (length xs div 2)) \<le> hi"
proof -
  have count: "length (filter P (f64_sort xs)) = length (filter P xs)" for P
    by (metis f64_sort_props(3) mset_filter size_mset)
  have "length (filter (\<lambda>x. lo \<le> key x \<and> key x \<le> hi) xs) \<le> length (filter P xs)"
    if "\<And>x. lo \<le> key x \<and> key x \<le> hi \<Longrightarrow> P x" for P
    using that by (induction xs) auto
  from this[of "\<lambda>x. lo \<le> key x"] this[of "\<lambda>x. key x \<le> hi"] show ?thesis
    using assms sorted_middle_ge[of "f64_sort xs" lo] sorted_middle_le[of "f64_sort xs" hi]
    by (simp add: count)
qed

lemma median_in_window:
  assumes "Smoother_smooth (Smoother_Median window cap c) raw = (s', v)" "1 \<le> cap"
  shows "v \<in> set (window @ [raw])"
proof -
  let ?w = "pop_front_to cap (window @ [raw])"
  have "?w \<noteq> []" using assms(2) by (simp add: pop_front_to_drop)
  then have "f64_sort ?w ! (length ?w div 2) \<in> set (f64_sort ?w)" by (intro nth_mem) simp
  moreover have "set ?w \<subseteq> set (window @ [raw])" unfolding pop_front_to_drop by (rule set_drop_subset)
  ultimately show ?thesis using assms(1) by (auto simp: Let_def)
qed

end
