(* ===== verification/Threshold.thy ===== *)
theory Threshold
  imports Constraints Smoothing
begin

text \<open>
  \<^verbatim>\<open>controller/threshold.rs\<close>: the AIMD constraint. One evaluation extracts a metric, smooths it,
  computes its severity against the threshold, maps it to a graduated action, gates the action by
  persistence and turns it into a rate intent. The lemmas show that a threshold constraint only ever
  asks for a hold or a decrease, and when it may ask for a decrease.
\<close>

section \<open>Model\<close>

datatype MetricExtractor =
    TimeoutFraction | InFlightDropFraction | LatencyP99Ms | LatencyP90Ms | LatencyP50Ms | ErrorRatePct
  | External string SignalDirection

fun MetricExtractor_extract :: "MetricExtractor \<Rightarrow> EvalContext \<Rightarrow> f64 option" where
  "MetricExtractor_extract TimeoutFraction ctx =
     (if ms_total_requests (ctx_summary ctx) = 0 then None
      else Some (f64_of_word (ms_timeout_count (ctx_summary ctx)) / f64_of_word (ms_total_requests (ctx_summary ctx))))"
| "MetricExtractor_extract InFlightDropFraction ctx =
     (if ctx_current_rate ctx \<le> lit 0 then None
      else let drop_rate = f64_of_word (ms_in_flight_drops (ctx_summary ctx))
                 / fmax (as_secs_f64 (ms_window_duration (ctx_summary ctx))) (lit 0.001)
           in Some (drop_rate / ctx_current_rate ctx))"
| "MetricExtractor_extract LatencyP99Ms ctx = Some (f64_of_word (ms_latency_p99_ns (ctx_summary ctx)) / lit 1000000)"
| "MetricExtractor_extract LatencyP90Ms ctx = Some (f64_of_word (ms_latency_p90_ns (ctx_summary ctx)) / lit 1000000)"
| "MetricExtractor_extract LatencyP50Ms ctx = Some (f64_of_word (ms_latency_p50_ns (ctx_summary ctx)) / lit 1000000)"
| "MetricExtractor_extract ErrorRatePct ctx = Some (ms_error_rate (ctx_summary ctx) * lit 100)"
| "MetricExtractor_extract (External signal_name direction) ctx = map_of (ms_external_signals (ctx_summary ctx)) signal_name"

datatype SeverityMapping =
    Graduated
  | TimeoutDirect f64
  | InFlightDirect
  | ErrorRateDirect f64

fun SeverityMapping_map_to_action :: "SeverityMapping \<Rightarrow> f64 \<Rightarrow> f64 \<Rightarrow> ConstraintAction" where
  "SeverityMapping_map_to_action Graduated severity raw_value = graduated_action severity"
| "SeverityMapping_map_to_action (TimeoutDirect max_error_rate_pct) severity raw_value =
     (let hard = fmax (max_error_rate_pct / lit 100 * lit 2.5) (lit 0.05);
          soft = fmax (max_error_rate_pct / lit 100 * lit 0.5) (lit 0.01)
      in if raw_value \<ge> hard then HardBackoff
         else if raw_value \<ge> soft then GentleBackoff
         else AllowIncrease)"
| "SeverityMapping_map_to_action InFlightDirect severity raw_value =
     (if raw_value > lit 0.01 then GentleBackoff
      else if raw_value > lit 0.001 then HoldRate
      else AllowIncrease)"
| "SeverityMapping_map_to_action (ErrorRateDirect max_error_rate_pct) severity raw_value =
     (if raw_value < max_error_rate_pct then AllowIncrease
      else if raw_value < max_error_rate_pct * lit 1.5 then GentleBackoff
      else HardBackoff)"

record ExternalSignalState =
  ess_config :: ExternalConstraintConfig
  ess_ticks_since_seen :: u32
  ess_missing_streak :: u32

record BackoffSchedule =
  bs_gentle :: f64
  bs_moderate :: f64
  bs_hard :: f64

definition BackoffSchedule_default :: BackoffSchedule where
  "BackoffSchedule_default = \<lparr>bs_gentle = lit 0.9, bs_moderate = lit 0.75, bs_hard = lit 0.5\<rparr>"

record ThresholdConfig =
  tc_id :: string
  tc_class :: ConstraintClass
  tc_metric :: MetricExtractor
  tc_smoother :: Smoother
  tc_threshold :: f64
  tc_severity_mapping :: SeverityMapping
  tc_persistence :: u32
  tc_recovery_seed :: f64
  tc_backoff :: BackoffSchedule
  tc_external :: "ExternalConstraintConfig option"
  tc_self_caused_cap :: "f64 option"
  tc_direction :: SignalDirection
  tc_baseline_multiplier :: "f64 option"
  tc_baseline_floor_ms :: "f64 option"

definition timeout_soft_threshold :: "f64 \<Rightarrow> f64" where
  "timeout_soft_threshold max_error_rate_pct = fmax (max_error_rate_pct / lit 100 * lit 0.5) (lit 0.01)"

definition timeout_defaults :: "f64 \<Rightarrow> ThresholdConfig" where
  "timeout_defaults max_error_rate_pct = \<lparr>
     tc_id = ''timeout'', tc_class = Catastrophic, tc_metric = TimeoutFraction,
     tc_smoother = Smoother_ema (lit 0.5), tc_threshold = timeout_soft_threshold max_error_rate_pct,
     tc_severity_mapping = TimeoutDirect max_error_rate_pct, tc_persistence = 1,
     tc_recovery_seed = lit 20, tc_backoff = BackoffSchedule_default, tc_external = None,
     tc_self_caused_cap = None, tc_direction = HigherIsWorse, tc_baseline_multiplier = None,
     tc_baseline_floor_ms = None\<rparr>"

definition inflight_defaults :: ThresholdConfig where
  "inflight_defaults = \<lparr>
     tc_id = ''inflight'', tc_class = Catastrophic, tc_metric = InFlightDropFraction,
     tc_smoother = Smoother_ema (lit 0.5), tc_threshold = lit 0.01,
     tc_severity_mapping = InFlightDirect, tc_persistence = 1, tc_recovery_seed = lit 20,
     tc_backoff = BackoffSchedule_default, tc_external = None, tc_self_caused_cap = None,
     tc_direction = HigherIsWorse, tc_baseline_multiplier = None, tc_baseline_floor_ms = None\<rparr>"

definition latency_defaults :: "nat \<Rightarrow> ThresholdConfig" where
  "latency_defaults smoothing_window = \<lparr>
     tc_id = ''latency'', tc_class = OperatingPoint, tc_metric = LatencyP99Ms,
     tc_smoother = Smoother_median (max smoothing_window 3), tc_threshold = lit 0,
     tc_severity_mapping = Graduated, tc_persistence = 2, tc_recovery_seed = lit 5,
     tc_backoff = BackoffSchedule_default, tc_external = None, tc_self_caused_cap = Some (lit 1.5),
     tc_direction = HigherIsWorse, tc_baseline_multiplier = None, tc_baseline_floor_ms = None\<rparr>"

definition error_rate_defaults :: "f64 \<Rightarrow> ThresholdConfig" where
  "error_rate_defaults max_error_rate_pct = \<lparr>
     tc_id = ''error_rate'', tc_class = OperatingPoint, tc_metric = ErrorRatePct,
     tc_smoother = Smoother_ema (lit 0.3), tc_threshold = max_error_rate_pct,
     tc_severity_mapping = ErrorRateDirect max_error_rate_pct, tc_persistence = 1,
     tc_recovery_seed = lit 5, tc_backoff = BackoffSchedule_default, tc_external = None,
     tc_self_caused_cap = None, tc_direction = HigherIsWorse, tc_baseline_multiplier = None,
     tc_baseline_floor_ms = None\<rparr>"

definition external_defaults :: "ExternalConstraintConfig \<Rightarrow> ThresholdConfig" where
  "external_defaults config = \<lparr>
     tc_id = ecc_signal_name config, tc_class = OperatingPoint,
     tc_metric = External (ecc_signal_name config) (ecc_direction config),
     tc_smoother = Smoother_ema (lit 0.3), tc_threshold = ecc_threshold config,
     tc_severity_mapping = Graduated, tc_persistence = ecc_persistence config,
     tc_recovery_seed = lit 10, tc_backoff = BackoffSchedule_default, tc_external = Some config,
     tc_self_caused_cap = None, tc_direction = ecc_direction config, tc_baseline_multiplier = None,
     tc_baseline_floor_ms = None\<rparr>"

record ThresholdConstraint =
  th_id :: string
  th_class :: ConstraintClass
  th_metric :: MetricExtractor
  th_smoother :: Smoother
  th_threshold :: f64
  th_severity_mapping :: SeverityMapping
  th_direction :: SignalDirection
  th_state :: ConstraintState
  th_backoff :: BackoffSchedule
  th_external_state :: "ExternalSignalState option"
  th_self_caused_cap :: "f64 option"
  th_last_severity :: f64
  th_last_smoothed_value :: f64
  th_baseline_multiplier :: "f64 option"
  th_baseline_floor_ms :: "f64 option"

definition ThresholdConstraint_new :: "ThresholdConfig \<Rightarrow> ThresholdConstraint" where
  "ThresholdConstraint_new config = \<lparr>
     th_id = tc_id config, th_class = tc_class config, th_metric = tc_metric config,
     th_smoother = tc_smoother config, th_threshold = tc_threshold config,
     th_severity_mapping = tc_severity_mapping config, th_direction = tc_direction config,
     th_state = ConstraintState_new (tc_persistence config) (tc_recovery_seed config),
     th_backoff = tc_backoff config,
     th_external_state = map_option (\<lambda>ext. \<lparr>ess_config = ext, ess_ticks_since_seen = 0, ess_missing_streak = 0\<rparr>)
       (tc_external config),
     th_self_caused_cap = tc_self_caused_cap config, th_last_severity = lit 0,
     th_last_smoothed_value = lit 0, th_baseline_multiplier = tc_baseline_multiplier config,
     th_baseline_floor_ms = tc_baseline_floor_ms config\<rparr>"

definition ThresholdConstraint_timeout :: "f64 \<Rightarrow> ThresholdConstraint" where
  "ThresholdConstraint_timeout max_error_rate_pct = ThresholdConstraint_new (timeout_defaults max_error_rate_pct)"

definition ThresholdConstraint_inflight :: ThresholdConstraint where
  "ThresholdConstraint_inflight = ThresholdConstraint_new inflight_defaults"

definition ThresholdConstraint_latency :: "f64 \<Rightarrow> nat \<Rightarrow> ThresholdConstraint" where
  "ThresholdConstraint_latency target_p99_ms smoothing_window =
     ThresholdConstraint_new ((latency_defaults smoothing_window)\<lparr>tc_threshold := target_p99_ms\<rparr>)"

definition latency_from_baseline :: "f64 \<Rightarrow> nat \<Rightarrow> ThresholdConstraint" where
  "latency_from_baseline multiplier smoothing_window =
     ThresholdConstraint_new ((latency_defaults smoothing_window)
       \<lparr>tc_threshold := lit 0, tc_baseline_multiplier := Some multiplier\<rparr>)"

definition ThresholdConstraint_error_rate :: "f64 \<Rightarrow> ThresholdConstraint" where
  "ThresholdConstraint_error_rate max_error_rate_pct = ThresholdConstraint_new (error_rate_defaults max_error_rate_pct)"

definition ThresholdConstraint_external :: "ExternalConstraintConfig \<Rightarrow> ThresholdConstraint" where
  "ThresholdConstraint_external config = ThresholdConstraint_new (external_defaults config)"

definition set_threshold :: "f64 \<Rightarrow> ThresholdConstraint \<Rightarrow> ThresholdConstraint" where
  "set_threshold threshold c = c\<lparr>th_threshold := threshold\<rparr>"

definition set_max_error_rate :: "f64 \<Rightarrow> ThresholdConstraint \<Rightarrow> ThresholdConstraint" where
  "set_max_error_rate rate c = (case th_severity_mapping c of
     TimeoutDirect _ \<Rightarrow> c\<lparr>th_severity_mapping := TimeoutDirect rate,
                          th_threshold := fmax (rate / lit 100 * lit 0.5) (lit 0.01)\<rparr>
   | ErrorRateDirect _ \<Rightarrow> c\<lparr>th_severity_mapping := ErrorRateDirect rate, th_threshold := rate\<rparr>
   | _ \<Rightarrow> c)"

definition threshold_severity :: "ThresholdConstraint \<Rightarrow> f64 \<Rightarrow> f64" where
  "threshold_severity c smoothed = (case th_direction c of
     HigherIsWorse \<Rightarrow> if th_threshold c > lit 0 then smoothed / th_threshold c else lit 0
   | LowerIsWorse \<Rightarrow> if smoothed > f64_epsilon then th_threshold c / smoothed
                    else SEVERITY_BYPASS_PERSISTENCE + lit 1)"

definition action_to_intent :: "ThresholdConstraint \<Rightarrow> ConstraintAction \<Rightarrow> f64 \<Rightarrow> ConstraintIntent" where
  "action_to_intent c action current_rate = (case action of
     AllowIncrease \<Rightarrow> NoObjection
   | HoldRate \<Rightarrow> HoldAt current_rate
   | _ \<Rightarrow> DesireRate (current_rate
            * backoff_factor action (bs_gentle (th_backoff c)) (bs_moderate (th_backoff c)) (bs_hard (th_backoff c))))"

text \<open>
  The tail both branches of \<^verbatim>\<open>evaluate\<close> share: advance the streak, gate the action, build the output.
\<close>

definition threshold_gate ::
  "ThresholdConstraint \<Rightarrow> EvalContext \<Rightarrow> f64 \<Rightarrow> ConstraintAction \<Rightarrow> ThresholdConstraint \<times> ConstraintOutput option" where
  "threshold_gate c ctx severity action =
     (let streak = update_streak (cs_violation_streak (th_state c)) severity;
          action' = apply_persistence action streak (cs_persistence (th_state c)) severity
      in (c\<lparr>th_state := (th_state c)\<lparr>cs_violation_streak := streak\<rparr>\<rparr>,
          Some \<lparr>co_intent = action_to_intent c action' (ctx_current_rate ctx), co_severity = severity\<rparr>))"

text \<open>
  The missing-signal branch of an external constraint. Its result says whether \<^verbatim>\<open>evaluate\<close> returns there
  (\<open>Inl\<close>) or falls through with the staleness counters reset (\<open>Inr\<close>).
\<close>

definition threshold_missing ::
  "ThresholdConstraint \<Rightarrow> EvalContext \<Rightarrow> (ThresholdConstraint \<times> ConstraintOutput option) + ThresholdConstraint" where
  "threshold_missing c ctx = (case th_external_state c of
     None \<Rightarrow> Inr c
   | Some ext \<Rightarrow>
       if list_ex (\<lambda>(name, _). name = ecc_signal_name (ess_config ext)) (ms_external_signals (ctx_summary ctx))
       then Inr (c\<lparr>th_external_state := Some (ext\<lparr>ess_ticks_since_seen := 0, ess_missing_streak := 0\<rparr>)\<rparr>)
       else
         let seen = ess_ticks_since_seen ext + 1;
             streak = (if seen > ecc_stale_after_ticks (ess_config ext)
                       then ess_missing_streak ext + 1 else ess_missing_streak ext);
             c1 = c\<lparr>th_external_state := Some (ext\<lparr>ess_ticks_since_seen := seen, ess_missing_streak := streak\<rparr>)\<rparr>
         in if \<not> streak \<ge> cs_persistence (th_state c) then Inl (c1, None)
            else case ecc_on_missing (ess_config ext) of
                MSB_Ignore \<Rightarrow> Inl (c1, None)
              | MSB_Hold \<Rightarrow> Inl (threshold_gate (c1\<lparr>th_last_severity := lit 0.85\<rparr>) ctx (lit 0.85) HoldRate)
              | MSB_Backoff \<Rightarrow>
                  (let severity = SEVERITY_BYPASS_PERSISTENCE + lit 1
                   in Inl (threshold_gate (c1\<lparr>th_last_severity := severity\<rparr>) ctx severity HardBackoff)))"

definition threshold_evaluate ::
  "ThresholdConstraint \<Rightarrow> EvalContext \<Rightarrow> ThresholdConstraint \<times> ConstraintOutput option" where
  "threshold_evaluate c0 ctx = (case threshold_missing c0 ctx of
     Inl r \<Rightarrow> r
   | Inr c \<Rightarrow>
      (case MetricExtractor_extract (th_metric c) ctx of
         None \<Rightarrow> (c, None)
       | Some raw_value \<Rightarrow>
           let (sm, smoothed) = Smoother_smooth (th_smoother c) raw_value;
               severity = threshold_severity c smoothed;
               c1 = c\<lparr>th_smoother := sm, th_last_smoothed_value := smoothed, th_last_severity := severity\<rparr>;
               raw_action = SeverityMapping_map_to_action (th_severity_mapping c) severity raw_value
           in if (case th_self_caused_cap c of
                    None \<Rightarrow> False
                  | Some cap \<Rightarrow> ctx_ticks_since_increase ctx > 2 \<and> severity < cap)
              then (c1, Some \<lparr>co_intent = action_to_intent c1 (min raw_action HoldRate) (ctx_current_rate ctx),
                              co_severity = severity\<rparr>)
              else threshold_gate c1 ctx severity raw_action))"

definition threshold_post_select :: "f64 \<Rightarrow> f64 \<Rightarrow> bool \<Rightarrow> ThresholdConstraint \<Rightarrow> ThresholdConstraint" where
  "threshold_post_select selected_rate current_rate is_binding c =
     c\<lparr>th_state := advance_recovery (th_last_severity c)
        (if is_binding then start_recovery_tracking (th_state c) else th_state c)\<rparr>"

definition threshold_recovery_estimate_ticks :: "ThresholdConstraint \<Rightarrow> f64 option" where
  "threshold_recovery_estimate_ticks c = Some (cooldown_estimate (th_state c))"

definition threshold_constraint_state :: "ThresholdConstraint \<Rightarrow> (string \<times> f64) list" where
  "threshold_constraint_state c =
     [(th_id c @ ''_severity'', th_last_severity c),
      (th_id c @ ''_smoothed'', th_last_smoothed_value c),
      (th_id c @ ''_streak'', f64_of_word (cs_violation_streak (th_state c))),
      (th_id c @ ''_recovery_ema'', cs_recovery_ema_ticks (th_state c))]"

definition threshold_apply_update ::
  "string \<Rightarrow> params \<Rightarrow> ThresholdConstraint \<Rightarrow> ThresholdConstraint \<times> update_result" where
  "threshold_apply_update action ps c =
     (if action = ''set_threshold'' then
        (case p_f64 ps ''threshold'' of
           None \<Rightarrow> (c, Inl (MissingField ''threshold''))
         | Some threshold \<Rightarrow> (set_threshold threshold c,
             Inr [(''ok'', JBool True), (''previous_threshold'', JF64 (th_threshold c)),
                  (''new_threshold'', JF64 threshold)]))
      else if action = ''set_max_error_rate'' then
        (case p_f64 ps ''max_error_rate'' of
           None \<Rightarrow> (c, Inl (MissingField ''max_error_rate''))
         | Some rate \<Rightarrow> (set_max_error_rate rate c,
             Inr [(''ok'', JBool True), (''new_max_error_rate'', JF64 rate)]))
      else (c, Inl (InvalidAction action ''threshold constraint'')))"

text \<open>\<^verbatim>\<open>on_warmup_complete\<close>; the log records it writes carry no state.\<close>

definition threshold_on_warmup_complete :: "WarmupBaseline \<Rightarrow> ThresholdConstraint \<Rightarrow> ThresholdConstraint" where
  "threshold_on_warmup_complete baseline c = (case th_baseline_multiplier c of
     None \<Rightarrow> c
   | Some multiplier \<Rightarrow>
       if wb_sample_count baseline = 0 \<or> wb_baseline_p99_ms baseline \<le> lit 0 then c
       else let floor = the_or (lit 0) (th_baseline_floor_ms c);
                effective_baseline = fmax (wb_baseline_p99_ms baseline) floor
            in set_threshold (effective_baseline * multiplier) c)"

section \<open>Lemmas\<close>

definition schedule_ok :: "BackoffSchedule \<Rightarrow> bool" where
  "schedule_ok b \<longleftrightarrow> (\<forall>f \<in> {bs_gentle b, bs_moderate b, bs_hard b}. 0 \<le> f \<and> f \<le> 1)"

lemma schedule_ok_default [simp]: "schedule_ok BackoffSchedule_default"
  unfolding schedule_ok_def BackoffSchedule_default_def lit_01[symmetric] by (auto intro!: lit_mono)

lemma action_to_intent_upd [simp]:
  "action_to_intent (c\<lparr>th_state := st\<rparr>) = action_to_intent c"
  "action_to_intent (c\<lparr>th_smoother := sm\<rparr>) = action_to_intent c"
  "action_to_intent (c\<lparr>th_last_severity := v\<rparr>) = action_to_intent c"
  "action_to_intent (c\<lparr>th_last_smoothed_value := v\<rparr>) = action_to_intent c"
  "action_to_intent (c\<lparr>th_external_state := e\<rparr>) = action_to_intent c"
  by (auto simp: action_to_intent_def fun_eq_iff split: ConstraintAction.splits)

lemma backoff_factor_range:
  assumes "schedule_ok b"
  shows "is_finite (backoff_factor a (bs_gentle b) (bs_moderate b) (bs_hard b))"
    "0 \<le> backoff_factor a (bs_gentle b) (bs_moderate b) (bs_hard b)"
    "backoff_factor a (bs_gentle b) (bs_moderate b) (bs_hard b) \<le> 1"
proof -
  let ?f = "backoff_factor a (bs_gentle b) (bs_moderate b) (bs_hard b)"
  have "0 \<le> (1 :: f64)" by (simp add: fle_iff)
  then show range: "0 \<le> ?f" "?f \<le> 1"
    using assms by (cases a; simp add: schedule_ok_def backoff_factor_def lit_01)+
  from finite_between[OF this] show "is_finite ?f" by simp
qed

text \<open>The rate a threshold constraint asks for never exceeds the current rate.\<close>

fun intent_within :: "f64 \<Rightarrow> ConstraintIntent \<Rightarrow> bool" where
  "intent_within rate NoObjection \<longleftrightarrow> True"
| "intent_within rate (HoldAt r) \<longleftrightarrow> r = rate"
| "intent_within rate (DesireRate r) \<longleftrightarrow> 0 \<le> r \<and> r \<le> rate"

lemma action_to_intent_within:
  assumes "schedule_ok (th_backoff c)" "is_finite rate" "0 \<le> rate"
  shows "intent_within rate (action_to_intent c a rate)"
proof -
  note f = backoff_factor_range[OF assms(1), of a]
  have "0 \<le> rate * backoff_factor a (bs_gentle (th_backoff c)) (bs_moderate (th_backoff c)) (bs_hard (th_backoff c))"
    "rate * backoff_factor a (bs_gentle (th_backoff c)) (bs_moderate (th_backoff c)) (bs_hard (th_backoff c)) \<le> rate"
    using f assms(2,3) by (simp_all add: fmul_le_self fmul_nonneg)
  then show ?thesis by (cases a) (simp_all add: action_to_intent_def)
qed

lemma action_to_intent_desire: "action_to_intent c a rate = DesireRate r \<Longrightarrow> is_backoff a"
  by (cases a) (simp_all add: action_to_intent_def is_backoff_def)

text \<open>
  The output of a constraint whose state before is \<open>c\<close> and after is \<open>c'\<close>: some action turned into an
  intent, which is a backoff only past the persistence gate.
\<close>

definition gated :: "ThresholdConstraint \<Rightarrow> EvalContext \<Rightarrow> ThresholdConstraint \<times> ConstraintOutput option \<Rightarrow> bool" where
  "gated c ctx r = (case r of
     (c', None) \<Rightarrow> True
   | (c', Some out) \<Rightarrow> \<exists>a. co_intent out = action_to_intent c a (ctx_current_rate ctx)
       \<and> co_severity out = th_last_severity c'
       \<and> (is_backoff a \<longrightarrow> cs_persistence (th_state c) \<le> cs_violation_streak (th_state c')
            \<or> SEVERITY_BYPASS_PERSISTENCE < co_severity out))"

definition same_identity :: "ThresholdConstraint \<Rightarrow> ThresholdConstraint \<Rightarrow> bool" where
  "same_identity c c' \<longleftrightarrow> th_backoff c' = th_backoff c \<and> th_id c' = th_id c \<and> th_class c' = th_class c
     \<and> cs_persistence (th_state c') = cs_persistence (th_state c)"

lemma threshold_gate_gated: "th_last_severity c = sev \<Longrightarrow> gated c ctx (threshold_gate c ctx sev a)"
  unfolding gated_def threshold_gate_def Let_def
  by (auto dest: apply_persistence_gate)

lemma gated_upd [simp]:
  "gated (c\<lparr>th_smoother := sm\<rparr>) ctx r = gated c ctx r"
  "gated (c\<lparr>th_last_severity := v\<rparr>) ctx r = gated c ctx r"
  "gated (c\<lparr>th_last_smoothed_value := v\<rparr>) ctx r = gated c ctx r"
  "gated (c\<lparr>th_external_state := e\<rparr>) ctx r = gated c ctx r"
  by (simp_all add: gated_def split: prod.splits option.splits)

lemma same_identity_gate: "same_identity c (fst (threshold_gate c ctx sev a))"
  by (simp add: same_identity_def threshold_gate_def Let_def)

lemma same_identity_upd [simp]:
  "same_identity (c\<lparr>th_smoother := sm\<rparr>) = same_identity c"
  "same_identity (c\<lparr>th_last_severity := v\<rparr>) = same_identity c"
  "same_identity (c\<lparr>th_last_smoothed_value := v\<rparr>) = same_identity c"
  "same_identity (c\<lparr>th_external_state := e\<rparr>) = same_identity c"
  "same_identity c c"
  by (simp_all add: same_identity_def fun_eq_iff)

lemma threshold_missing_cases:
  "(\<exists>e. threshold_missing c ctx = Inr (c\<lparr>th_external_state := e\<rparr>))
   \<or> (\<exists>e. threshold_missing c ctx = Inl (c\<lparr>th_external_state := e\<rparr>, None))
   \<or> (\<exists>e sev a. threshold_missing c ctx
        = Inl (threshold_gate (c\<lparr>th_external_state := e, th_last_severity := sev\<rparr>) ctx sev a))"
proof (cases "th_external_state c")
  case None
  then have "threshold_missing c ctx = Inr (c\<lparr>th_external_state := None\<rparr>)" by (simp add: threshold_missing_def)
  then show ?thesis by blast
next
  case (Some ext)
  show ?thesis unfolding threshold_missing_def Some Let_def option.case
    by (cases "ecc_on_missing (ess_config ext)"; simp only: MissingSignalBehavior.case split: if_split; blast)
qed

lemma threshold_evaluate_gated: "gated c ctx (threshold_evaluate c ctx) \<and> same_identity c (fst (threshold_evaluate c ctx))"
  using threshold_missing_cases[of c ctx]
proof (elim disjE exE)
  fix e assume through: "threshold_missing c ctx = Inr (c\<lparr>th_external_state := e\<rparr>)"
  let ?c = "c\<lparr>th_external_state := e\<rparr>"
  show ?thesis
  proof (cases "MetricExtractor_extract (th_metric ?c) ctx")
    case None
    then show ?thesis using through by (simp add: threshold_evaluate_def gated_def same_identity_def)
  next
    case (Some raw)
    obtain sm v where "Smoother_smooth (th_smoother ?c) raw = (sm, v)" by force
    then show ?thesis using through Some
        threshold_gate_gated[of "?c\<lparr>th_smoother := sm, th_last_smoothed_value := v, th_last_severity := threshold_severity ?c v\<rparr>"
          "threshold_severity ?c v" ctx] min_Hold_not_backoff
        same_identity_gate[of "?c\<lparr>th_smoother := sm, th_last_smoothed_value := v, th_last_severity := threshold_severity ?c v\<rparr>" ctx]
      by (auto simp: threshold_evaluate_def Let_def gated_def same_identity_def split: option.splits)
  qed
next
  fix e assume "threshold_missing c ctx = Inl (c\<lparr>th_external_state := e\<rparr>, None)"
  then show ?thesis by (simp add: threshold_evaluate_def gated_def same_identity_def)
next
  fix e sev a
  assume stale: "threshold_missing c ctx
    = Inl (threshold_gate (c\<lparr>th_external_state := e, th_last_severity := sev\<rparr>) ctx sev a)"
  let ?c = "c\<lparr>th_external_state := e, th_last_severity := sev\<rparr>"
  show ?thesis using stale threshold_gate_gated[of ?c sev ctx a] same_identity_gate[of ?c ctx sev a]
    by (simp add: threshold_evaluate_def)
qed

lemma threshold_evaluate_frame [simp]:
  "th_backoff (fst (threshold_evaluate c ctx)) = th_backoff c"
  "th_id (fst (threshold_evaluate c ctx)) = th_id c"
  "th_class (fst (threshold_evaluate c ctx)) = th_class c"
  "cs_persistence (th_state (fst (threshold_evaluate c ctx))) = cs_persistence (th_state c)"
  using threshold_evaluate_gated[of c ctx] by (simp_all add: same_identity_def)

lemma threshold_post_select_frame [simp]:
  "th_backoff (threshold_post_select s r b c) = th_backoff c"
  "th_id (threshold_post_select s r b c) = th_id c"
  "th_class (threshold_post_select s r b c) = th_class c"
  by (simp_all add: threshold_post_select_def)

end
