(* ===== verification/Pid_Math.thy ===== *)
theory Pid_Math
  imports Rate_Types
begin

text \<open>
  \<^verbatim>\<open>controller/pid_math.rs\<close>: metric extraction, gain scheduling, the PID state and the back-calculation
  that keeps the integrator of a non-binding constraint in step with the selected rate.

  Rust leaves the precision of \<^verbatim>\<open>f64::ln\<close> and \<^verbatim>\<open>f64::exp\<close> unspecified (they call the platform's
  mathematical library), so the two functions are a parameter \<open>libm\<close> of every definition that uses
  them. No lemma needs more of them than the named hypotheses it states.
\<close>

section \<open>Model\<close>

record libm =
  libm_ln :: "f64 \<Rightarrow> f64"
  libm_exp :: "f64 \<Rightarrow> f64"

fun extract_metric :: "TargetMetric \<Rightarrow> MetricsSummary \<Rightarrow> f64" where
  "extract_metric TM_LatencyP50 summary = f64_of_word (ms_latency_p50_ns summary) / lit 1000000"
| "extract_metric TM_LatencyP90 summary = f64_of_word (ms_latency_p90_ns summary) / lit 1000000"
| "extract_metric TM_LatencyP99 summary = f64_of_word (ms_latency_p99_ns summary) / lit 1000000"
| "extract_metric TM_ErrorRate summary = ms_error_rate summary * lit 100"
| "extract_metric TM_ThroughputSend summary = ms_throughput_send_bps summary / lit 125000"
| "extract_metric TM_ThroughputRecv summary = ms_throughput_recv_bps summary / lit 125000"
| "extract_metric (TM_External name) summary = the_or (lit 0) (map_of (ms_external_signals summary) name)"

record GainMultipliers =
  gm_kp_scale :: f64
  gm_ki_scale :: f64
  gm_kd_scale :: f64
  gm_reset_integral :: bool

definition gain_schedule :: "f64 \<Rightarrow> GainMultipliers" where
  "gain_schedule e =
     (if e > lit 0.4 then \<lparr>gm_kp_scale = lit 2, gm_ki_scale = lit 0.5, gm_kd_scale = lit 1, gm_reset_integral = False\<rparr>
      else if e > lit 0.1 then \<lparr>gm_kp_scale = lit 1, gm_ki_scale = lit 0.8, gm_kd_scale = lit 1.5, gm_reset_integral = False\<rparr>
      else if e > lit (- 0.1) then \<lparr>gm_kp_scale = lit 0.7, gm_ki_scale = lit 1, gm_kd_scale = lit 1, gm_reset_integral = False\<rparr>
      else if e > lit (- 0.3) then \<lparr>gm_kp_scale = lit 1.5, gm_ki_scale = lit 0.3, gm_kd_scale = lit 2, gm_reset_integral = False\<rparr>
      else \<lparr>gm_kp_scale = lit 3, gm_ki_scale = lit 0, gm_kd_scale = lit 2.5, gm_reset_integral = True\<rparr>)"

record PidState =
  ps_integral :: f64
  ps_last_error :: f64
  ps_ema_value :: f64
  ps_ema_alpha :: f64
  ps_ema_initialized :: bool

definition PidState_default :: PidState where
  "PidState_default = \<lparr>ps_integral = lit 0, ps_last_error = lit 0, ps_ema_value = lit 0,
     ps_ema_alpha = lit 0, ps_ema_initialized = False\<rparr>"

definition PidState_new :: "f64 \<Rightarrow> PidState" where
  "PidState_new smoothing = \<lparr>ps_integral = lit 0, ps_last_error = lit 0, ps_ema_value = lit 0,
     ps_ema_alpha = clamp_to (lit 0) (lit 1) smoothing, ps_ema_initialized = False\<rparr>"

definition PidState_smooth :: "f64 \<Rightarrow> PidState \<Rightarrow> PidState \<times> f64" where
  "PidState_smooth raw s =
     (let v = (if \<not> ps_ema_initialized s then raw
               else ps_ema_alpha s * raw + (lit 1 - ps_ema_alpha s) * ps_ema_value s)
      in (s\<lparr>ps_ema_value := v, ps_ema_initialized := True\<rparr>, v))"

definition PidState_reset :: "PidState \<Rightarrow> PidState" where
  "PidState_reset s = s\<lparr>ps_integral := lit 0, ps_last_error := lit 0, ps_ema_value := lit 0,
     ps_ema_initialized := False\<rparr>"

definition pid_back_calculate_log ::
  "libm \<Rightarrow> f64 \<Rightarrow> f64 \<Rightarrow> f64 \<Rightarrow> f64 \<Rightarrow> f64 \<Rightarrow> f64 \<Rightarrow> f64 \<Rightarrow> PidState \<Rightarrow> PidState" where
  "pid_back_calculate_log m selected_rate current_rate kp ki kd err tracking_gain s =
     (let derivative = err - ps_last_error s;
          s1 = s\<lparr>ps_last_error := err\<rparr>
      in if \<bar>ki\<bar> < lit (1 / 10 ^ 12) then s1
         else let u_selected = libm_ln m (fmax selected_rate (lit (1 / 10 ^ 9)));
                  u_current = libm_ln m (fmax current_rate (lit (1 / 10 ^ 9)));
                  required_integral = (u_selected - u_current - kp * err - kd * derivative) / ki;
                  integral = ps_integral s1 + tracking_gain * (required_integral - ps_integral s1)
              in s1\<lparr>ps_integral := clamp_to (lit (- 1000)) (lit 1000) integral\<rparr>)"

section \<open>Lemmas\<close>

lemma gain_schedule_reset: "gm_reset_integral (gain_schedule e) \<longleftrightarrow> \<not> e > lit (- 0.3)"
proof -
  have "lit (- 0.3) \<le> lit (- 0.1)" "lit (- 0.1) \<le> lit 0.1" "lit 0.1 \<le> lit 0.4" by (rule lit_mono; simp)+
  then show ?thesis unfolding gain_schedule_def
    by (auto dest: fle_flt_trans)
qed

lemma back_calculate_bounded:
  assumes "\<not> \<bar>ki\<bar> < lit (1 / 10 ^ 12)"
    and "\<not> is_nan (ps_integral (pid_back_calculate_log m sel cur kp ki kd e tg s))"
  shows "lit (- 1000) \<le> ps_integral (pid_back_calculate_log m sel cur kp ki kd e tg s)
    \<and> ps_integral (pid_back_calculate_log m sel cur kp ki kd e tg s) \<le> lit 1000"
proof -
  have "lit (- 1000) \<le> lit 1000" by (rule lit_mono) simp
  then show ?thesis using assms
    by (auto simp: pid_back_calculate_log_def Let_def clamp_to_def f64_order)
qed

lemma back_calculate_no_integral:
  "\<bar>ki\<bar> < lit (1 / 10 ^ 12) \<Longrightarrow>
   ps_integral (pid_back_calculate_log m sel cur kp ki kd e tg s) = ps_integral s"
  by (simp add: pid_back_calculate_log_def Let_def)

lemma back_calculate_last_error [simp]:
  "ps_last_error (pid_back_calculate_log m sel cur kp ki kd e tg s) = e"
  by (simp add: pid_back_calculate_log_def Let_def)

end
