(* ===== verification/Autotune.thy ===== *)
theory Autotune
  imports Pid_Math
begin

text \<open>
  \<^verbatim>\<open>controller/autotune.rs\<close>: the exploration state machine that measures a step response, and the
  Cohen-Coon gains computed from it. The exploration always finishes: the lemmas bound the number of
  ticks it takes whatever the metrics are.
\<close>

section \<open>Model\<close>

record MetricExploration =
  me_metric :: TargetMetric
  me_target_value :: f64
  me_baseline_measurements :: "f64 list"
  me_step_measurements :: "(u32 \<times> f64) list"
  me_dead_time_detected :: "u32 option"

definition MetricExploration_new :: "TargetMetric \<Rightarrow> f64 \<Rightarrow> MetricExploration" where
  "MetricExploration_new metric target_value = \<lparr>me_metric = metric, me_target_value = target_value,
     me_baseline_measurements = [], me_step_measurements = [], me_dead_time_detected = None\<rparr>"

definition f64_sum :: "f64 list \<Rightarrow> f64" where
  "f64_sum = foldl (+) (lit 0)"

definition baseline_mean :: "MetricExploration \<Rightarrow> f64" where
  "baseline_mean m =
     (if me_baseline_measurements m = [] then lit 0
      else f64_sum (me_baseline_measurements m) / f64_of_nat (length (me_baseline_measurements m)))"

definition noise_threshold :: "MetricExploration \<Rightarrow> f64" where
  "noise_threshold m = fmax (baseline_mean m * lit 0.05) (lit 1)"

datatype ExplorationPhase =
    Baseline u32
  | StepResponse u32 f64 f64
  | ExplorationComplete
  | ExplorationFailed

record ComputedGains =
  cg_kp :: f64
  cg_ki :: f64
  cg_kd :: f64
  cg_dead_time_ticks :: u32

record ExplorationManager =
  em_phase :: ExplorationPhase
  em_metrics :: "MetricExploration list"
  em_tick_count :: u32
  em_control_interval :: duration
  em_autotune_duration :: duration
  em_initial_rps :: f64

definition ExplorationManager_new ::
  "MetricExploration list \<Rightarrow> f64 \<Rightarrow> duration \<Rightarrow> duration \<Rightarrow> ExplorationManager" where
  "ExplorationManager_new metrics initial_rps autotune_duration control_interval = \<lparr>
     em_phase = Baseline 0, em_metrics = metrics, em_tick_count = 0,
     em_control_interval = control_interval, em_autotune_duration = autotune_duration,
     em_initial_rps = initial_rps\<rparr>"

definition exploration_progress :: "ExplorationManager \<Rightarrow> f64" where
  "exploration_progress em =
     (let total_ticks = (if as_secs_f64 (em_control_interval em) > lit 0
          then f64_to_u32 (as_secs_f64 (em_autotune_duration em) / as_secs_f64 (em_control_interval em))
          else 1)
      in if total_ticks = 0 then lit 1
         else fmin (f64_of_word (em_tick_count em) / f64_of_word total_ticks) (lit 1))"

text \<open>
  \<^verbatim>\<open>as_millis().max(1) as u64\<close>: intervals of \<open>2\<^sup>6\<^sup>4\<close> milliseconds and more, which the cast would
  truncate, are outside the model. The casts to \<^verbatim>\<open>u32\<close> truncate.
\<close>

definition as_millis :: "duration \<Rightarrow> nat" where
  "as_millis d = d div 1000000"

definition baseline_duration_ticks :: "ExplorationManager \<Rightarrow> u32" where
  "baseline_duration_ticks em =
     (let ticks = 500 div max (as_millis (em_control_interval em)) 1 in max (word_of_nat ticks) 3)"

definition step_duration_ticks :: "ExplorationManager \<Rightarrow> u32" where
  "step_duration_ticks em =
     (let total_ms = as_millis (em_autotune_duration em);
          step_ms = max (total_ms - 500) 1000;
          ticks = step_ms div max (as_millis (em_control_interval em)) 1
      in max (word_of_nat ticks) 5)"

text \<open>One metric's share of the baseline and of the step-response loop of \<^verbatim>\<open>tick\<close>.\<close>

definition record_baseline :: "f64 \<Rightarrow> MetricExploration \<Rightarrow> MetricExploration" where
  "record_baseline val m = m\<lparr>me_baseline_measurements := me_baseline_measurements m @ [val]\<rparr>"

definition record_step :: "u32 \<Rightarrow> f64 \<Rightarrow> MetricExploration \<Rightarrow> MetricExploration" where
  "record_step tick_offset val m =
     (let m1 = m\<lparr>me_step_measurements := me_step_measurements m @ [(tick_offset, val)]\<rparr>
      in if me_dead_time_detected m1 = None \<and> \<bar>val - baseline_mean m1\<bar> > noise_threshold m1
         then m1\<lparr>me_dead_time_detected := Some tick_offset\<rparr> else m1)"

definition metric_settled :: "MetricExploration \<Rightarrow> bool" where
  "metric_settled m =
     (length (me_step_measurements m) \<ge> 3 \<and>
      (let recent = map snd (take 3 (rev (me_step_measurements m)));
           spread = foldl fmax f64_neg_infinity recent - foldl fmin f64_infinity recent
       in spread < noise_threshold m))"

definition exploration_manager_tick :: "MetricsSummary \<Rightarrow> ExplorationManager \<Rightarrow> ExplorationManager \<times> f64 option" where
  "exploration_manager_tick summary em0 =
     (let em = em0\<lparr>em_tick_count := em_tick_count em0 + 1\<rparr>;
          value_of = (\<lambda>m. extract_metric (me_metric m) summary)
      in case em_phase em of
           Baseline start_tick \<Rightarrow>
             (let em1 = em\<lparr>em_metrics := map (\<lambda>m. record_baseline (value_of m) m) (em_metrics em)\<rparr>
              in if em_tick_count em1 - start_tick \<ge> baseline_duration_ticks em1
                 then (em1\<lparr>em_phase := StepResponse (em_tick_count em1) (em_initial_rps em1 * lit 0.5) (em_initial_rps em1)\<rparr>,
                       Some (em_initial_rps em1))
                 else (em1, Some (em_initial_rps em1 * lit 0.5)))
         | StepResponse step_tick _ _ \<Rightarrow>
             (let elapsed = em_tick_count em - step_tick;
                  em1 = em\<lparr>em_metrics := map (\<lambda>m. record_step elapsed (value_of m) m) (em_metrics em)\<rparr>
              in if elapsed \<ge> step_duration_ticks em1 \<or> list_all metric_settled (em_metrics em1)
                 then (em1\<lparr>em_phase := ExplorationComplete\<rparr>, None)
                 else (em1, Some (em_initial_rps em1)))
         | ExplorationComplete \<Rightarrow> (em, None)
         | ExplorationFailed \<Rightarrow> (em, None))"

definition CONSERVATIVE_GAINS :: ComputedGains where
  "CONSERVATIVE_GAINS = \<lparr>cg_kp = lit 0.02, cg_ki = lit 0.001, cg_kd = lit 0.01, cg_dead_time_ticks = 3\<rparr>"

definition compute_cohen_coon_gains :: "f64 \<Rightarrow> u32 \<Rightarrow> u32 \<Rightarrow> ComputedGains" where
  "compute_cohen_coon_gains target_value dead_time_ticks time_constant_ticks =
     (let dead = f64_of_word dead_time_ticks;
          r = clamp_to (lit 0.1) (lit 2) (dead / f64_of_word time_constant_ticks);
          typical_error = fmax (target_value * lit 0.5) (lit 1);
          base_kp = (lit 1.5 / typical_error) * (lit 1 + lit 0.5 / r);
          ti_denom = lit 1 - lit 0.39 * r;
          ti = (if \<bar>ti_denom\<bar> > lit 0.01
                then fmax (dead * (lit 2.5 - lit 2 * r) / ti_denom) dead
                else dead * lit 5);
          base_ki = base_kp / ti;
          td_denom = lit 1 - lit 0.81 * r;
          td = (if \<bar>td_denom\<bar> > lit 0.01 then dead * (lit 0.37 - r) / td_denom else lit 0);
          base_kd = (if td > lit 0 then base_kp * td else lit 0)
      in \<lparr>cg_kp = base_kp, cg_ki = base_ki, cg_kd = base_kd, cg_dead_time_ticks = dead_time_ticks\<rparr>)"

text \<open>\<^verbatim>\<open>compute_gains_for\<close> for the metric it indexes; the index itself is checked below.\<close>

definition compute_gains_of :: "ExplorationManager \<Rightarrow> MetricExploration \<Rightarrow> ComputedGains" where
  "compute_gains_of em m =
     (let baseline_value = baseline_mean m;
          base_rate = em_initial_rps em * lit 0.5;
          final_value = (if me_step_measurements m = [] then baseline_value else snd (last (me_step_measurements m)));
          delta_metric = final_value - baseline_value;
          delta_rate = em_initial_rps em - base_rate;
          system_gain = (if \<bar>delta_rate\<bar> > lit 1 then delta_metric / delta_rate else lit 0)
      in if \<bar>system_gain\<bar> < lit (1 / 10 ^ 9) then CONSERVATIVE_GAINS
         else let dead_time_ticks = max (the_or 3 (me_dead_time_detected m)) 1;
                  target_63pct = baseline_value + lit 0.632 * delta_metric;
                  time_constant_ticks = max (the_or (dead_time_ticks * 2)
                    (map_option fst (List.find (\<lambda>(_, v). if delta_metric > lit 0 then v \<ge> target_63pct else v \<le> target_63pct)
                       (me_step_measurements m)))) 1
              in compute_cohen_coon_gains (me_target_value m) dead_time_ticks time_constant_ticks)"

text \<open>\<open>None\<close> is the panic of an index out of range.\<close>

definition compute_gains_for :: "ExplorationManager \<Rightarrow> nat \<Rightarrow> ComputedGains option" where
  "compute_gains_for em metric_idx =
     (if metric_idx < length (em_metrics em) then Some (compute_gains_of em (em_metrics em ! metric_idx)) else None)"

section \<open>Termination of the exploration\<close>

definition exploration_ticks :: "MetricsSummary list \<Rightarrow> ExplorationManager \<Rightarrow> ExplorationManager" where
  "exploration_ticks = fold (\<lambda>summary em. fst (exploration_manager_tick summary em))"

fun exploration_done :: "ExplorationPhase \<Rightarrow> bool" where
  "exploration_done ExplorationComplete \<longleftrightarrow> True"
| "exploration_done ExplorationFailed \<longleftrightarrow> True"
| "exploration_done _ \<longleftrightarrow> False"

lemma tick_done: "exploration_done (em_phase em) \<Longrightarrow> exploration_done (em_phase (fst (exploration_manager_tick s em)))"
  by (cases "em_phase em") (auto simp: exploration_manager_tick_def Let_def)

lemma tick_None: "snd (exploration_manager_tick s em) = None \<longleftrightarrow> exploration_done (em_phase (fst (exploration_manager_tick s em)))"
  by (cases "em_phase em") (auto simp: exploration_manager_tick_def Let_def)

lemma tick_frame [simp]:
  "em_control_interval (fst (exploration_manager_tick s em)) = em_control_interval em"
  "em_autotune_duration (fst (exploration_manager_tick s em)) = em_autotune_duration em"
  "em_initial_rps (fst (exploration_manager_tick s em)) = em_initial_rps em"
  "length (em_metrics (fst (exploration_manager_tick s em))) = length (em_metrics em)"
  "map me_metric (em_metrics (fst (exploration_manager_tick s em))) = map me_metric (em_metrics em)"
  "em_tick_count (fst (exploration_manager_tick s em)) = em_tick_count em + 1"
  by (cases "em_phase em"; simp add: exploration_manager_tick_def Let_def record_baseline_def record_step_def comp_def)+

lemma durations_frame [simp]:
  "baseline_duration_ticks (em\<lparr>em_metrics := ms\<rparr>) = baseline_duration_ticks em"
  "baseline_duration_ticks (em\<lparr>em_tick_count := n\<rparr>) = baseline_duration_ticks em"
  "step_duration_ticks (em\<lparr>em_metrics := ms\<rparr>) = step_duration_ticks em"
  "step_duration_ticks (em\<lparr>em_tick_count := n\<rparr>) = step_duration_ticks em"
  by (simp_all add: baseline_duration_ticks_def step_duration_ticks_def)

lemma tick_durations [simp]:
  "baseline_duration_ticks (fst (exploration_manager_tick s em)) = baseline_duration_ticks em"
  "step_duration_ticks (fst (exploration_manager_tick s em)) = step_duration_ticks em"
  by (simp_all add: baseline_duration_ticks_def step_duration_ticks_def)

lemma tick_step_response:
  assumes "em_phase em = StepResponse t b r" "\<not> exploration_done (em_phase (fst (exploration_manager_tick s em)))"
  shows "em_phase (fst (exploration_manager_tick s em)) = StepResponse t b r"
    "em_tick_count em + 1 - t < step_duration_ticks em"
proof -
  show "em_phase (fst (exploration_manager_tick s em)) = StepResponse t b r"
    using assms by (auto simp: exploration_manager_tick_def Let_def split: if_splits)
  show "em_tick_count em + 1 - t < step_duration_ticks em"
    using assms by (auto simp: exploration_manager_tick_def Let_def not_le split: if_splits)
qed

lemma step_response_done:
  assumes "em_phase em = StepResponse t b r" "unat (em_tick_count em - t) + length ss \<ge> unat (step_duration_ticks em)"
    "unat (em_tick_count em - t) < unat (step_duration_ticks em)"
  shows "exploration_done (em_phase (exploration_ticks ss em))"
  using assms
proof (induction ss arbitrary: em)
  case Nil
  then show ?case by (simp add: exploration_ticks_def)
next
  case (Cons s ss)
  let ?em = "fst (exploration_manager_tick s em)"
  have done_fold: "exploration_done (em_phase e) \<Longrightarrow> exploration_done (em_phase (fold (\<lambda>s e. fst (exploration_manager_tick s e)) ss e))" for e
    by (induction ss arbitrary: e) (auto simp: tick_done)
  show ?case
  proof (cases "exploration_done (em_phase ?em)")
    case True
    then show ?thesis by (simp add: exploration_ticks_def done_fold)
  next
    case False
    note st = tick_step_response[OF Cons.prems(1) False]
    have "unat (em_tick_count em - t) + 1 < 4294967296"
      using Cons.prems(3) unat_u32_less[of "step_duration_ticks em"] by linarith
    then have "unat ((em_tick_count em - t) + 1) = unat (em_tick_count em - t) + 1"
      by (simp add: unat_word_ariths)
    moreover have "em_tick_count em + 1 - t = (em_tick_count em - t) + 1" by simp
    ultimately have "unat (em_tick_count em + 1 - t) = unat (em_tick_count em - t) + 1" by (simp only:)
    then have "exploration_done (em_phase (exploration_ticks ss ?em))"
      using Cons.prems(2) st by (intro Cons.IH) (simp_all add: word_less_nat_alt)
    then show ?thesis by (simp add: exploration_ticks_def)
  qed
qed

lemma durations_pos: "3 \<le> unat (baseline_duration_ticks em)" "5 \<le> unat (step_duration_ticks em)"
proof -
  have "3 \<le> baseline_duration_ticks em" "5 \<le> step_duration_ticks em"
    by (simp_all add: baseline_duration_ticks_def step_duration_ticks_def Let_def)
  then show "3 \<le> unat (baseline_duration_ticks em)" "5 \<le> unat (step_duration_ticks em)"
    by (simp_all add: word_le_nat_alt)
qed

lemma tick_baseline:
  assumes "em_phase em = Baseline t"
  shows "if em_tick_count em + 1 - t \<ge> baseline_duration_ticks em
    then em_phase (fst (exploration_manager_tick s em))
       = StepResponse (em_tick_count em + 1) (em_initial_rps em * lit 0.5) (em_initial_rps em)
    else em_phase (fst (exploration_manager_tick s em)) = Baseline t"
  using assms by (auto simp: exploration_manager_tick_def Let_def)

lemma baseline_done:
  assumes "em_phase em = Baseline 0" "unat (em_tick_count em) < unat (baseline_duration_ticks em)"
    "unat (em_tick_count em) + length ss \<ge> unat (baseline_duration_ticks em) + unat (step_duration_ticks em)"
  shows "exploration_done (em_phase (exploration_ticks ss em))"
  using assms
proof (induction ss arbitrary: em)
  case Nil
  then show ?case using durations_pos(2)[of em] by simp
next
  case (Cons s ss)
  let ?em = "fst (exploration_manager_tick s em)"
  have "unat (em_tick_count em) + 1 < 4294967296"
    using Cons.prems(2) unat_u32_less[of "baseline_duration_ticks em"] by linarith
  then have k: "unat (em_tick_count em + 1) = unat (em_tick_count em) + 1"
    by (simp add: unat_word_ariths)
  show ?case
  proof (cases "em_tick_count em + 1 \<ge> baseline_duration_ticks em")
    case True
    then have "em_phase ?em = StepResponse (em_tick_count em + 1) (em_initial_rps em * lit 0.5) (em_initial_rps em)"
      using tick_baseline[OF Cons.prems(1), of s] by simp
    moreover have "length ss \<ge> unat (step_duration_ticks em)" using Cons.prems(2,3) by simp
    ultimately have "exploration_done (em_phase (exploration_ticks ss ?em))"
      using durations_pos(2)[of em] by (intro step_response_done[OF \<open>em_phase ?em = _\<close>]) (simp_all add: diff_self)
    then show ?thesis by (simp add: exploration_ticks_def)
  next
    case False
    then have "exploration_done (em_phase (exploration_ticks ss ?em))"
      using tick_baseline[OF Cons.prems(1), of s] Cons.prems k
      by (intro Cons.IH) (simp_all add: word_less_nat_alt not_le)
    then show ?thesis by (simp add: exploration_ticks_def)
  qed
qed

lemma exploration_terminates:
  assumes "length ss \<ge> unat (baseline_duration_ticks em) + unat (step_duration_ticks em)"
    "em = ExplorationManager_new metrics rps dur interval"
  shows "exploration_done (em_phase (exploration_ticks ss em))"
  using assms durations_pos(1)[of em]
  by (intro baseline_done) (simp_all add: ExplorationManager_new_def)

text \<open>While it runs, the exploration only ever asks for half the initial rate or the initial rate.\<close>

lemma tick_rate:
  "snd (exploration_manager_tick s em) = Some r \<Longrightarrow> r = em_initial_rps em * lit 0.5 \<or> r = em_initial_rps em"
  by (cases "em_phase em") (auto simp: exploration_manager_tick_def Let_def split: if_splits)

end
