(* ===== verification/Pid_Constraint.thy ===== *)
theory Pid_Constraint
  imports Constraints Smoothing Autotune
begin

text \<open>
  \<^verbatim>\<open>controller/pid_constraint.rs\<close>: the setpoint-tracking constraint. It works in log-rate space, caches
  what it evaluated, and updates its integrator after the arbiter has selected a rate. The two flags
  that only suppress repeated log messages are part of the state, as in the code; \<^verbatim>\<open>debug_assert!\<close> is
  not compiled into release builds and has no counterpart.
\<close>

section \<open>Model\<close>

definition PID_LOG_RATE_MAX :: f64 where
  "PID_LOG_RATE_MAX = lit 700"

definition DEFAULT_TRACKING_GAIN :: f64 where
  "DEFAULT_TRACKING_GAIN = lit 0.5"

definition SATURATION_TOLERANCE :: f64 where
  "SATURATION_TOLERANCE = lit 1.01"

definition MAX_INTEGRAL_LOG_CONTRIBUTION :: f64 where
  "MAX_INTEGRAL_LOG_CONTRIBUTION = lit 5"

definition INTEGRAL_HARD_LIMIT :: f64 where
  "INTEGRAL_HARD_LIMIT = lit 1000"

text \<open>\<^verbatim>\<open>MetricDirection\<close> has the two values of the configuration's \<^verbatim>\<open>SignalDirection\<close>.\<close>

fun MetricDirection_from_metric :: "TargetMetric \<Rightarrow> SignalDirection" where
  "MetricDirection_from_metric TM_ThroughputSend = LowerIsWorse"
| "MetricDirection_from_metric TM_ThroughputRecv = LowerIsWorse"
| "MetricDirection_from_metric _ = HigherIsWorse"

record EvalCache =
  ec_error :: f64
  ec_desired_rate :: f64
  ec_kp :: f64
  ec_ki :: f64
  ec_kd :: f64

record PidConstraintConfig =
  pcfg_id :: string
  pcfg_class :: ConstraintClass
  pcfg_metric :: TargetMetric
  pcfg_direction :: SignalDirection
  pcfg_target :: f64
  pcfg_kp :: f64
  pcfg_ki :: f64
  pcfg_kd :: f64
  pcfg_smoother :: Smoother
  pcfg_use_scheduling :: bool
  pcfg_tracking_gain :: f64

definition PidConstraintConfig_new :: "string \<Rightarrow> TargetMetric \<Rightarrow> f64 \<Rightarrow> PidConstraintConfig" where
  "PidConstraintConfig_new i metric target = \<lparr>
     pcfg_id = i, pcfg_class = OperatingPoint, pcfg_metric = metric,
     pcfg_direction = MetricDirection_from_metric metric, pcfg_target = target,
     pcfg_kp = lit 0, pcfg_ki = lit 0, pcfg_kd = lit 0, pcfg_smoother = Smoother_none,
     pcfg_use_scheduling = False, pcfg_tracking_gain = DEFAULT_TRACKING_GAIN\<rparr>"

record PidConstraint =
  pid_id :: string
  pid_class :: ConstraintClass
  pid_metric :: TargetMetric
  pid_direction :: SignalDirection
  pid_smoother :: Smoother
  pid_target :: f64
  pid_kp :: f64
  pid_ki :: f64
  pid_kd :: f64
  pid_state :: PidState
  pid_use_scheduling :: bool
  pid_tracking_gain :: f64
  pid_samples_seen :: u32
  pid_derivative_valid :: bool
  pid_eval_cache :: "EvalCache option"
  pid_last_severity :: f64
  pid_last_desired_rate :: f64
  pid_overflow_warned :: bool
  pid_nan_warned :: bool
  pid_awaiting_exploration :: bool

definition PidConstraint_from_config :: "PidConstraintConfig \<Rightarrow> PidConstraint" where
  "PidConstraint_from_config cfg = \<lparr>
     pid_id = pcfg_id cfg, pid_class = pcfg_class cfg, pid_metric = pcfg_metric cfg,
     pid_direction = pcfg_direction cfg, pid_smoother = pcfg_smoother cfg, pid_target = pcfg_target cfg,
     pid_kp = pcfg_kp cfg, pid_ki = pcfg_ki cfg, pid_kd = pcfg_kd cfg, pid_state = PidState_default,
     pid_use_scheduling = pcfg_use_scheduling cfg, pid_tracking_gain = pcfg_tracking_gain cfg,
     pid_samples_seen = 0, pid_derivative_valid = False, pid_eval_cache = None,
     pid_last_severity = lit 0, pid_last_desired_rate = lit 0, pid_overflow_warned = False,
     pid_nan_warned = False, pid_awaiting_exploration = False\<rparr>"

definition PidConstraint_new ::
  "string \<Rightarrow> TargetMetric \<Rightarrow> f64 \<Rightarrow> f64 \<Rightarrow> f64 \<Rightarrow> f64 \<Rightarrow> Smoother \<Rightarrow> bool \<Rightarrow> PidConstraint" where
  "PidConstraint_new i metric target kp ki kd smoother use_scheduling =
     PidConstraint_from_config \<lparr>
       pcfg_id = i, pcfg_class = OperatingPoint, pcfg_metric = metric,
       pcfg_direction = MetricDirection_from_metric metric, pcfg_target = target,
       pcfg_kp = kp, pcfg_ki = ki, pcfg_kd = kd, pcfg_smoother = smoother,
       pcfg_use_scheduling = use_scheduling, pcfg_tracking_gain = DEFAULT_TRACKING_GAIN\<rparr>"

definition PidConstraint_auto_tuning :: "string \<Rightarrow> TargetMetric \<Rightarrow> f64 \<Rightarrow> Smoother \<Rightarrow> PidConstraint" where
  "PidConstraint_auto_tuning i metric target smoother =
     (PidConstraint_from_config \<lparr>
       pcfg_id = i, pcfg_class = OperatingPoint, pcfg_metric = metric,
       pcfg_direction = MetricDirection_from_metric metric, pcfg_target = target,
       pcfg_kp = cg_kp CONSERVATIVE_GAINS, pcfg_ki = cg_ki CONSERVATIVE_GAINS,
       pcfg_kd = cg_kd CONSERVATIVE_GAINS, pcfg_smoother = smoother,
       pcfg_use_scheduling = True, pcfg_tracking_gain = DEFAULT_TRACKING_GAIN\<rparr>)
     \<lparr>pid_awaiting_exploration := True\<rparr>"

definition reset_integrator :: "PidConstraint \<Rightarrow> PidConstraint" where
  "reset_integrator c = c\<lparr>pid_state := (pid_state c)\<lparr>ps_integral := lit 0\<rparr>, pid_derivative_valid := False\<rparr>"

definition set_target :: "f64 \<Rightarrow> PidConstraint \<Rightarrow> PidConstraint" where
  "set_target target c = reset_integrator (c\<lparr>pid_target := target\<rparr>)"

definition set_gains :: "f64 \<Rightarrow> f64 \<Rightarrow> f64 \<Rightarrow> PidConstraint \<Rightarrow> PidConstraint" where
  "set_gains kp ki kd c =
     (let eps = lit (1 / 10 ^ 12);
          integral = (if \<bar>pid_ki c\<bar> > eps \<and> \<bar>ki\<bar> > eps then ps_integral (pid_state c) * (pid_ki c / ki)
                      else if \<bar>ki\<bar> \<le> eps then lit 0
                      else ps_integral (pid_state c))
      in c\<lparr>pid_state := (pid_state c)\<lparr>ps_integral := integral\<rparr>, pid_kp := kp, pid_ki := ki, pid_kd := kd\<rparr>)"

definition set_tracking_gain :: "f64 \<Rightarrow> PidConstraint \<Rightarrow> PidConstraint" where
  "set_tracking_gain tg c = c\<lparr>pid_tracking_gain := tg\<rparr>"

definition effective_gains :: "PidConstraint \<Rightarrow> f64 \<Rightarrow> f64 \<times> f64 \<times> f64 \<times> GainMultipliers option" where
  "effective_gains c err =
     (if pid_use_scheduling c then
        (let normalized_error = (if \<bar>pid_target c\<bar> > lit (1 / 10 ^ 9) then err / pid_target c else err);
             mult = gain_schedule normalized_error
         in (pid_kp c * gm_kp_scale mult, pid_ki c * gm_ki_scale mult, pid_kd c * gm_kd_scale mult, Some mult))
      else (pid_kp c, pid_ki c, pid_kd c, None))"

definition integral_max :: "f64 \<Rightarrow> f64" where
  "integral_max ki = (if \<bar>ki\<bar> > lit (1 / 10 ^ 12)
     then fmin (MAX_INTEGRAL_LOG_CONTRIBUTION / \<bar>ki\<bar>) INTEGRAL_HARD_LIMIT
     else INTEGRAL_HARD_LIMIT)"

text \<open>
  \<^verbatim>\<open>clamp_integral\<close>; lemma \<open>clamp_integral_no_panic\<close> below shows that the bounds are always in order.
\<close>

definition clamp_integral :: "f64 \<Rightarrow> PidState \<Rightarrow> PidState" where
  "clamp_integral ki s = s\<lparr>ps_integral := clamp_to (- integral_max ki) (integral_max ki) (ps_integral s)\<rparr>"

definition pid_severity :: "PidConstraint \<Rightarrow> f64 \<Rightarrow> f64" where
  "pid_severity c smoothed =
     (if \<bar>pid_target c\<bar> < lit (1 / 10 ^ 9) then lit 0
      else let raw = (case pid_direction c of
             HigherIsWorse \<Rightarrow> (smoothed - pid_target c) / pid_target c
           | LowerIsWorse \<Rightarrow> (pid_target c - smoothed) / pid_target c)
           in fmax raw (lit 0))"

text \<open>
  The numerical-safety step of \<^verbatim>\<open>evaluate\<close>: a NaN or overflowing log-rate resets the integrator, and the
  derivative is marked valid after a clean step only.
\<close>

definition pid_guard_rate :: "libm \<Rightarrow> f64 \<Rightarrow> f64 \<Rightarrow> PidConstraint \<Rightarrow> PidConstraint \<times> f64" where
  "pid_guard_rate m current_rate u_new c =
     (let (c1, desired_rate) =
            (if is_nan u_new then ((reset_integrator c)\<lparr>pid_nan_warned := True\<rparr>, current_rate)
             else if u_new > PID_LOG_RATE_MAX then
               ((reset_integrator c)\<lparr>pid_overflow_warned := True\<rparr>, libm_exp m PID_LOG_RATE_MAX)
             else (c, libm_exp m u_new))
      in (if \<not> is_nan u_new \<and> u_new \<le> PID_LOG_RATE_MAX then c1\<lparr>pid_derivative_valid := True\<rparr> else c1,
          desired_rate))"

definition pid_evaluate :: "libm \<Rightarrow> PidConstraint \<Rightarrow> EvalContext \<Rightarrow> PidConstraint \<times> ConstraintOutput option" where
  "pid_evaluate m c0 ctx =
     (if pid_awaiting_exploration c0 then (c0, None)
      else let raw = extract_metric (pid_metric c0) (ctx_summary ctx);
               (sm, smoothed) = Smoother_smooth (pid_smoother c0) raw;
               c = c0\<lparr>pid_smoother := sm, pid_samples_seen := sat_incr (pid_samples_seen c0)\<rparr>
           in if unat (pid_samples_seen c) < Smoother_min_samples (pid_smoother c) then (c, None)
              else
                let c1 = c\<lparr>pid_overflow_warned := False, pid_nan_warned := False\<rparr>;
                    err = pid_target c1 - smoothed;
                    severity = pid_severity c1 smoothed;
                    (kp, ki, kd, mult) = effective_gains c1 err;
                    c2 = (if (case mult of Some g \<Rightarrow> gm_reset_integral g | None \<Rightarrow> False)
                          then reset_integrator c1 else c1);
                    derivative = (if pid_derivative_valid c2 then err - ps_last_error (pid_state c2) else lit 0);
                    u_current = libm_ln m (fmax (ctx_current_rate ctx) (lit (1 / 10 ^ 9)));
                    u_new = u_current + kp * err + ki * ps_integral (pid_state c2) + kd * derivative;
                    (c3, desired_rate) = pid_guard_rate m (ctx_current_rate ctx) u_new c2;
                    c4 = c3\<lparr>pid_last_severity := severity, pid_last_desired_rate := desired_rate,
                            pid_eval_cache := Some \<lparr>ec_error = err, ec_desired_rate = desired_rate,
                              ec_kp = kp, ec_ki = ki, ec_kd = kd\<rparr>\<rparr>
                in (c4, Some \<lparr>co_intent = DesireRate desired_rate, co_severity = severity\<rparr>))"

definition pid_post_select :: "libm \<Rightarrow> f64 \<Rightarrow> f64 \<Rightarrow> bool \<Rightarrow> PidConstraint \<Rightarrow> PidConstraint" where
  "pid_post_select m selected_rate current_rate is_binding c = (case pid_eval_cache c of
     None \<Rightarrow> c
   | Some cache \<Rightarrow>
       (let err = ec_error cache;
            ki = ec_ki cache;
            s0 = pid_state c;
            s1 = (if is_binding then
                    (let clamped_down = ec_desired_rate cache > selected_rate * SATURATION_TOLERANCE \<and> err > lit 0;
                         clamped_up = ec_desired_rate cache * SATURATION_TOLERANCE < selected_rate \<and> err < lit 0
                     in if \<not> (clamped_down \<or> clamped_up)
                        then s0\<lparr>ps_integral := ps_integral s0 + err\<rparr> else s0)
                  else pid_back_calculate_log m selected_rate current_rate (ec_kp cache) ki (ec_kd cache)
                         err (pid_tracking_gain c) s0);
            s2 = (clamp_integral ki s1)\<lparr>ps_last_error := err\<rparr>
        in c\<lparr>pid_eval_cache := None, pid_state := s2\<rparr>))"

definition pid_on_rate_override :: "f64 \<Rightarrow> PidConstraint \<Rightarrow> PidConstraint" where
  "pid_on_rate_override new_rate c = c\<lparr>pid_derivative_valid := False, pid_eval_cache := None\<rparr>"

definition pid_on_exploration_complete :: "ExplorationManager \<Rightarrow> PidConstraint \<Rightarrow> PidConstraint" where
  "pid_on_exploration_complete em c =
     (if \<not> pid_awaiting_exploration c then c
      else let gains = (case List.find (\<lambda>me. me_metric me = pid_metric c) (em_metrics em) of
                 Some me \<Rightarrow> (case em_phase em of
                     ExplorationComplete \<Rightarrow> compute_gains_of em me
                   | _ \<Rightarrow> CONSERVATIVE_GAINS)
               | None \<Rightarrow> CONSERVATIVE_GAINS)
           in (set_gains (cg_kp gains) (cg_ki gains) (cg_kd gains) c)\<lparr>pid_awaiting_exploration := False\<rparr>)"

definition pid_constraint_state :: "PidConstraint \<Rightarrow> (string \<times> f64) list" where
  "pid_constraint_state c =
     [(pid_id c @ ''_severity'', pid_last_severity c),
      (pid_id c @ ''_integral'', ps_integral (pid_state c)),
      (pid_id c @ ''_smoothed'', Smoother_current (pid_smoother c)),
      (pid_id c @ ''_target'', pid_target c),
      (pid_id c @ ''_desired_rate'', pid_last_desired_rate c)]"

definition pid_apply_update :: "string \<Rightarrow> params \<Rightarrow> PidConstraint \<Rightarrow> PidConstraint \<times> update_result" where
  "pid_apply_update action ps c =
     (if action = ''set_target'' then
        (case p_f64 ps ''target'' of
           None \<Rightarrow> (c, Inl (MissingField ''target''))
         | Some target \<Rightarrow> (set_target target c,
             Inr [(''ok'', JBool True), (''previous_target'', JF64 (pid_target c)), (''new_target'', JF64 target)]))
      else if action = ''set_gains'' then
        (case p_f64 ps ''kp'' of
           None \<Rightarrow> (c, Inl (MissingField ''kp''))
         | Some kp \<Rightarrow> (case p_f64 ps ''ki'' of
             None \<Rightarrow> (c, Inl (MissingField ''ki''))
           | Some ki \<Rightarrow> (case p_f64 ps ''kd'' of
               None \<Rightarrow> (c, Inl (MissingField ''kd''))
             | Some kd \<Rightarrow> (set_gains kp ki kd c,
                 Inr [(''ok'', JBool True),
                      (''new_gains'', JObj [(''kp'', JF64 kp), (''ki'', JF64 ki), (''kd'', JF64 kd)])]))))
      else if action = ''set_tracking_gain'' then
        (case p_f64 ps ''tracking_gain'' of
           None \<Rightarrow> (c, Inl (MissingField ''tracking_gain''))
         | Some tg \<Rightarrow> (set_tracking_gain tg c,
             Inr [(''ok'', JBool True), (''previous_tracking_gain'', JF64 (pid_tracking_gain c)),
                  (''new_tracking_gain'', JF64 tg)]))
      else if action = ''reset_integrator'' then
        (reset_integrator c, Inr [(''ok'', JBool True), (''action'', JStr ''reset_integrator'')])
      else (c, Inl (InvalidAction action ''pid constraint'')))"

section \<open>Lemmas\<close>

lemma integral_max_range: "lit 0 \<le> integral_max ki \<and> integral_max ki \<le> INTEGRAL_HARD_LIMIT"
proof (cases "\<bar>ki\<bar> > lit (1 / 10 ^ 12)")
  case True
  have "lit 0 \<le> lit (1 / 10 ^ 12)" by (rule lit_mono) simp
  then have "0 < \<bar>ki\<bar>" using True by (simp add: lit_01 fle_flt_trans)
  moreover have "0 \<le> MAX_INTEGRAL_LOG_CONTRIBUTION" by (simp add: MAX_INTEGRAL_LOG_CONTRIBUTION_def f64_eval flip: lit_01)
  ultimately have "is_nan (MAX_INTEGRAL_LOG_CONTRIBUTION / \<bar>ki\<bar>) \<or> 0 \<le> MAX_INTEGRAL_LOG_CONTRIBUTION / \<bar>ki\<bar>"
    by (rule fdiv_nonneg[rotated])
  moreover have "0 \<le> INTEGRAL_HARD_LIMIT" by (simp add: INTEGRAL_HARD_LIMIT_def f64_eval flip: lit_01)
  ultimately show ?thesis using True by (auto simp: integral_max_def lit_01 fmin_def f64_order)
next
  case False
  then show ?thesis by (simp add: integral_max_def INTEGRAL_HARD_LIMIT_def f64_eval)
qed

lemma clamp_integral_no_panic:
  "fclamp (ps_integral s) (- integral_max ki) (integral_max ki) = Some (ps_integral (clamp_integral ki s))"
  using integral_max_range[of ki] by (auto simp: clamp_integral_def fclamp_clamp_to f64_order lit_01)

lemma clamp_integral_bounded:
  assumes "\<not> is_nan (ps_integral s)"
  shows "- integral_max ki \<le> ps_integral (clamp_integral ki s)" "ps_integral (clamp_integral ki s) \<le> integral_max ki"
  using fclamp_bounds[OF clamp_integral_no_panic assms] by simp_all

lemma pid_guard_rate_cases:
  "\<exists>x. snd (pid_guard_rate m rate u c) = rate \<or> \<not> is_nan x \<and> x \<le> PID_LOG_RATE_MAX \<and> snd (pid_guard_rate m rate u c) = libm_exp m x"
proof -
  have "\<not> is_nan PID_LOG_RATE_MAX" "PID_LOG_RATE_MAX \<le> PID_LOG_RATE_MAX" by (simp_all add: PID_LOG_RATE_MAX_def)
  then show ?thesis by (auto simp: pid_guard_rate_def Let_def not_flt)
qed

lemma pid_guard_rate_frame [simp]:
  "pid_id (fst (pid_guard_rate m rate u c)) = pid_id c"
  "pid_class (fst (pid_guard_rate m rate u c)) = pid_class c"
  by (simp_all add: pid_guard_rate_def reset_integrator_def Let_def split_beta)

lemma reset_integrator_frame [simp]:
  "pid_id (reset_integrator c) = pid_id c" "pid_class (reset_integrator c) = pid_class c"
  by (simp_all add: reset_integrator_def)

lemma pid_evaluate_frame [simp]:
  "pid_id (fst (pid_evaluate m c ctx)) = pid_id c"
  "pid_class (fst (pid_evaluate m c ctx)) = pid_class c"
  by (simp_all add: pid_evaluate_def Let_def split_beta)

lemma pid_post_select_frame [simp]:
  "pid_id (pid_post_select m sel cur b c) = pid_id c"
  "pid_class (pid_post_select m sel cur b c) = pid_class c"
  by (simp_all add: pid_post_select_def Let_def split: option.splits)

lemma pid_evaluate_intent:
  assumes "pid_evaluate m c ctx = (c', Some out)"
  shows "\<exists>r x. co_intent out = DesireRate r \<and>
     (r = ctx_current_rate ctx \<or> \<not> is_nan x \<and> x \<le> PID_LOG_RATE_MAX \<and> r = libm_exp m x)"
proof -
  obtain u c2 where "co_intent out = DesireRate (snd (pid_guard_rate m (ctx_current_rate ctx) u c2))"
    using assms by (auto simp: pid_evaluate_def Let_def split_beta split: if_splits)
  then show ?thesis using pid_guard_rate_cases by metis
qed

text \<open>
  After a rate has been selected the integrator is inside the band given by the integral gain, so its
  contribution to the log-rate is bounded whatever the errors were.
\<close>

lemma pid_post_select_cache [simp]: "pid_eval_cache (pid_post_select m sel cur b c) = None"
  by (simp add: pid_post_select_def Let_def split: option.splits)

lemma pid_post_select_integral:
  assumes "pid_eval_cache c = Some cache"
    "\<not> is_nan (ps_integral (pid_state (pid_post_select m sel cur b c)))"
  shows "- integral_max (ec_ki cache) \<le> ps_integral (pid_state (pid_post_select m sel cur b c))
    \<and> ps_integral (pid_state (pid_post_select m sel cur b c)) \<le> integral_max (ec_ki cache)"
proof -
  obtain s where s: "ps_integral (pid_state (pid_post_select m sel cur b c)) = ps_integral (clamp_integral (ec_ki cache) s)"
    using assms(1) by (auto simp: pid_post_select_def Let_def)
  then have "\<not> is_nan (ps_integral s)"
    using assms(2) by (auto simp: clamp_integral_def clamp_to_def)
  then show ?thesis unfolding s by (simp add: clamp_integral_bounded)
qed

end
