(* ===== verification/Dyn_Constraint.thy ===== *)
theory Dyn_Constraint
  imports Threshold Pid_Constraint
begin

text \<open>
  The \<^verbatim>\<open>Constraint\<close> trait of \<^verbatim>\<open>controller/constraint.rs\<close>. A \<^verbatim>\<open>Box<dyn Constraint>\<close> holds one of the two
  implementations, and each method dispatches on it; a method an implementation does not override has
  the trait's default body. The locale \<open>rate_constraint\<close> states what the arbiter relies on of any
  implementation.
\<close>

section \<open>Model\<close>

datatype Constraint = Threshold ThresholdConstraint | Pid PidConstraint

fun Constraint_evaluate :: "libm \<Rightarrow> Constraint \<Rightarrow> EvalContext \<Rightarrow> Constraint \<times> ConstraintOutput option" where
  "Constraint_evaluate m (Threshold c) ctx = map_prod Threshold id (threshold_evaluate c ctx)"
| "Constraint_evaluate m (Pid c) ctx = map_prod Pid id (pid_evaluate m c ctx)"

fun Constraint_post_select :: "libm \<Rightarrow> f64 \<Rightarrow> f64 \<Rightarrow> bool \<Rightarrow> Constraint \<Rightarrow> Constraint" where
  "Constraint_post_select m selected_rate current_rate is_binding (Threshold c) =
     Threshold (threshold_post_select selected_rate current_rate is_binding c)"
| "Constraint_post_select m selected_rate current_rate is_binding (Pid c) =
     Pid (pid_post_select m selected_rate current_rate is_binding c)"

fun Constraint_id :: "Constraint \<Rightarrow> string" where
  "Constraint_id (Threshold c) = th_id c"
| "Constraint_id (Pid c) = pid_id c"

fun Constraint_class :: "Constraint \<Rightarrow> ConstraintClass" where
  "Constraint_class (Threshold c) = th_class c"
| "Constraint_class (Pid c) = pid_class c"

fun Constraint_recovery_estimate_ticks :: "Constraint \<Rightarrow> f64 option" where
  "Constraint_recovery_estimate_ticks (Threshold c) = threshold_recovery_estimate_ticks c"
| "Constraint_recovery_estimate_ticks (Pid c) = None"

fun Constraint_state :: "Constraint \<Rightarrow> (string \<times> f64) list" where
  "Constraint_state (Threshold c) = threshold_constraint_state c"
| "Constraint_state (Pid c) = pid_constraint_state c"

fun Constraint_apply_update :: "string \<Rightarrow> params \<Rightarrow> Constraint \<Rightarrow> Constraint \<times> update_result" where
  "Constraint_apply_update action ps (Threshold c) = map_prod Threshold id (threshold_apply_update action ps c)"
| "Constraint_apply_update action ps (Pid c) = map_prod Pid id (pid_apply_update action ps c)"

fun Constraint_requires_exploration :: "Constraint \<Rightarrow> bool" where
  "Constraint_requires_exploration (Threshold c) = False"
| "Constraint_requires_exploration (Pid c) = pid_awaiting_exploration c"

fun Constraint_on_exploration_complete :: "ExplorationManager \<Rightarrow> Constraint \<Rightarrow> Constraint" where
  "Constraint_on_exploration_complete em (Threshold c) = Threshold c"
| "Constraint_on_exploration_complete em (Pid c) = Pid (pid_on_exploration_complete em c)"

fun Constraint_on_warmup_complete :: "WarmupBaseline \<Rightarrow> Constraint \<Rightarrow> Constraint" where
  "Constraint_on_warmup_complete baseline (Threshold c) = Threshold (threshold_on_warmup_complete baseline c)"
| "Constraint_on_warmup_complete baseline (Pid c) = Pid c"

fun Constraint_on_rate_override :: "f64 \<Rightarrow> Constraint \<Rightarrow> Constraint" where
  "Constraint_on_rate_override new_rate (Threshold c) = Threshold c"
| "Constraint_on_rate_override new_rate (Pid c) = Pid (pid_on_rate_override new_rate c)"

section \<open>The interface the arbiter relies on\<close>

text \<open>
  One control tick of a single constraint: the arbiter evaluates it, selects a rate, and reports it.
\<close>

definition constraint_tick ::
  "('c \<Rightarrow> EvalContext \<Rightarrow> 'c \<times> ConstraintOutput option) \<Rightarrow> (f64 \<Rightarrow> f64 \<Rightarrow> bool \<Rightarrow> 'c \<Rightarrow> 'c) \<Rightarrow>
     EvalContext \<times> f64 \<times> bool \<Rightarrow> 'c \<Rightarrow> 'c" where
  "constraint_tick evaluate post_select t c = (case t of (ctx, sel, b) \<Rightarrow>
     post_select sel (ctx_current_rate ctx) b (fst (evaluate c ctx)))"

text \<open>
  \<open>desire_ok rate r\<close> is what an implementation promises of a rate it asks for when the current rate is
  \<open>rate\<close>. The identity and the class of a constraint never change.
\<close>

locale rate_constraint =
  fixes inv :: "'c \<Rightarrow> bool"
    and identity :: "'c \<Rightarrow> string \<times> ConstraintClass"
    and evaluate :: "'c \<Rightarrow> EvalContext \<Rightarrow> 'c \<times> ConstraintOutput option"
    and post_select :: "f64 \<Rightarrow> f64 \<Rightarrow> bool \<Rightarrow> 'c \<Rightarrow> 'c"
    and desire_ok :: "f64 \<Rightarrow> f64 \<Rightarrow> bool"
  assumes evaluate_inv: "inv c \<Longrightarrow> inv (fst (evaluate c ctx))"
    and evaluate_identity: "identity (fst (evaluate c ctx)) = identity c"
    and post_select_inv: "inv c \<Longrightarrow> inv (post_select sel cur b c)"
    and post_select_identity: "identity (post_select sel cur b c) = identity c"
    and evaluate_hold: "\<lbrakk>inv c; evaluate c ctx = (c', Some out); co_intent out = HoldAt r\<rbrakk>
       \<Longrightarrow> r = ctx_current_rate ctx"
    and evaluate_desire: "\<lbrakk>inv c; evaluate c ctx = (c', Some out); co_intent out = DesireRate r;
        is_finite (ctx_current_rate ctx); 0 \<le> ctx_current_rate ctx\<rbrakk> \<Longrightarrow> desire_ok (ctx_current_rate ctx) r"
begin

lemma constraint_ticks_inv: "inv c \<Longrightarrow> inv (fold (constraint_tick evaluate post_select) ts c)"
  by (induction ts arbitrary: c) (auto simp: constraint_tick_def evaluate_inv post_select_inv)

lemma constraint_ticks_identity: "identity (fold (constraint_tick evaluate post_select) ts c) = identity c"
  by (induction ts arbitrary: c) (auto simp: constraint_tick_def evaluate_identity post_select_identity)

lemma desire_after_ticks:
  assumes "inv c" "evaluate (fold (constraint_tick evaluate post_select) ts c) ctx = (c', Some out)"
    "is_finite (ctx_current_rate ctx)" "0 \<le> ctx_current_rate ctx"
  shows "case co_intent out of NoObjection \<Rightarrow> True | HoldAt r \<Rightarrow> r = ctx_current_rate ctx
    | DesireRate r \<Rightarrow> desire_ok (ctx_current_rate ctx) r"
  using constraint_ticks_inv[OF assms(1), of ts] assms(2-4) evaluate_hold evaluate_desire
  by (auto split: ConstraintIntent.splits)

end

text \<open>A threshold constraint asks for at most the current rate.\<close>

interpretation th: rate_constraint
  "\<lambda>c. schedule_ok (th_backoff c)" "\<lambda>c. (th_id c, th_class c)" threshold_evaluate threshold_post_select
  "\<lambda>rate r. 0 \<le> r \<and> r \<le> rate"
proof unfold_locales
  fix c ctx c' out r
  assume ok: "schedule_ok (th_backoff c)" and e: "threshold_evaluate c ctx = (c', Some out)"
  from threshold_evaluate_gated[of c ctx] e obtain a
    where a: "co_intent out = action_to_intent c a (ctx_current_rate ctx)" by (auto simp: gated_def)
  show "co_intent out = HoldAt r \<Longrightarrow> r = ctx_current_rate ctx"
    using a by (cases a) (auto simp: action_to_intent_def)
  show "\<lbrakk>co_intent out = DesireRate r; is_finite (ctx_current_rate ctx); 0 \<le> ctx_current_rate ctx\<rbrakk>
      \<Longrightarrow> 0 \<le> r \<and> r \<le> ctx_current_rate ctx"
    using action_to_intent_within[OF ok, of "ctx_current_rate ctx" a] a by simp
qed simp_all

text \<open>
  A PID constraint asks for a non-negative rate if the exponential of the platform is not NaN and not
  negative on numbers.
\<close>

definition exp_sane :: "libm \<Rightarrow> bool" where
  "exp_sane m \<longleftrightarrow> (\<forall>x. \<not> is_nan x \<longrightarrow> 0 \<le> libm_exp m x)"

interpretation pidc: rate_constraint
  "\<lambda>_. exp_sane m" "\<lambda>c. (pid_id c, pid_class c)" "pid_evaluate m" "pid_post_select m"
  "\<lambda>rate r. 0 \<le> r" for m
proof unfold_locales
  fix c ctx c' out r
  assume ok: "exp_sane m" and e: "pid_evaluate m c ctx = (c', Some out)"
  note i = pid_evaluate_intent[OF e]
  show "co_intent out = HoldAt r \<Longrightarrow> r = ctx_current_rate ctx" using i by auto
  show "\<lbrakk>co_intent out = DesireRate r; is_finite (ctx_current_rate ctx); 0 \<le> ctx_current_rate ctx\<rbrakk> \<Longrightarrow> 0 \<le> r"
    using i ok by (auto simp: exp_sane_def)
qed simp_all

text \<open>The trait object: the union of the two promises.\<close>

fun constraint_ok :: "libm \<Rightarrow> Constraint \<Rightarrow> bool" where
  "constraint_ok m (Threshold c) \<longleftrightarrow> schedule_ok (th_backoff c)"
| "constraint_ok m (Pid c) \<longleftrightarrow> exp_sane m"

interpretation dync: rate_constraint
  "constraint_ok m" "\<lambda>c. (Constraint_id c, Constraint_class c)" "Constraint_evaluate m" "Constraint_post_select m"
  "\<lambda>rate r. 0 \<le> r" for m
proof unfold_locales
  fix c ctx c' out r
  assume ok: "constraint_ok m c" and e: "Constraint_evaluate m c ctx = (c', Some out)"
  show "co_intent out = HoldAt r \<Longrightarrow> r = ctx_current_rate ctx"
    using ok e th.evaluate_hold pidc.evaluate_hold by (cases c) (auto simp: map_prod_def split: prod.splits)
  show "\<lbrakk>co_intent out = DesireRate r; is_finite (ctx_current_rate ctx); 0 \<le> ctx_current_rate ctx\<rbrakk> \<Longrightarrow> 0 \<le> r"
    using ok e th.evaluate_desire pidc.evaluate_desire by (cases c) (auto simp: map_prod_def split: prod.splits)
next
  fix c sel cur b assume "constraint_ok m c"
  then show "constraint_ok m (Constraint_post_select m sel cur b c)" by (cases c) simp_all
next
  fix c ctx assume "constraint_ok m c"
  then show "constraint_ok m (fst (Constraint_evaluate m c ctx))" by (cases c) simp_all
next
  fix c ctx sel cur b
  show "(Constraint_id (fst (Constraint_evaluate m c ctx)), Constraint_class (fst (Constraint_evaluate m c ctx)))
    = (Constraint_id c, Constraint_class c)" by (cases c) simp_all
  show "(Constraint_id (Constraint_post_select m sel cur b c), Constraint_class (Constraint_post_select m sel cur b c))
    = (Constraint_id c, Constraint_class c)" by (cases c) simp_all
qed

end
