(* ===== verification/Trace.thy ===== *)
theory Trace
  imports Dyn_Constraint
begin

text \<open>
  \<^verbatim>\<open>controller/trace.rs\<close>: the per-tick records of the control plane. The JSON Lines file is the list of
  records handed to its writer; the metrics summary, an opaque JSON blob in the code, is kept as is.
  Failures of the file system do not reach the controller and are not modelled.
\<close>

datatype Participation = Abstained f64 | Participating f64 f64 bool | Inactive

record EvaluationRecord =
  er_id :: string
  er_class :: ConstraintClass
  er_participation :: Participation
  er_state :: "(string \<times> f64) list"

record ArbiterRecord =
  ar_composition_rate :: f64
  ar_binding :: "string option"
  ar_ceiling :: f64
  ar_floor :: f64
  ar_cooldown_active :: bool
  ar_cooldown_remaining :: u32
  ar_backoff_engaged :: bool
  ar_ticks_since_increase :: u32
  ar_failure_rate_ema :: f64
  ar_backoff_count :: u32

record TickRecord =
  tr_tick :: u32
  tr_metrics :: MetricsSummary
  tr_evaluations :: "EvaluationRecord list"
  tr_abstainer_count :: u32
  tr_arbiter :: ArbiterRecord
  tr_previous_rps :: f64
  tr_target_rps :: f64

datatype TraceRecorder = Noop | Jsonl "TickRecord list" u64

definition TraceRecorder_is_enabled :: "TraceRecorder \<Rightarrow> bool" where
  "TraceRecorder_is_enabled r = (case r of Noop \<Rightarrow> False | Jsonl _ _ \<Rightarrow> True)"

fun TraceRecorder_record :: "TickRecord \<Rightarrow> TraceRecorder \<Rightarrow> TraceRecorder" where
  "TraceRecorder_record tick Noop = Noop"
| "TraceRecorder_record tick (Jsonl written ticks_written) = Jsonl (written @ [tick]) (ticks_written + 1)"

text \<open>The participation of a constraint, from its output and the index of the binding one.\<close>

definition participation_of :: "nat option \<Rightarrow> nat \<Rightarrow> ConstraintOutput option \<Rightarrow> Participation" where
  "participation_of binding i out = (case out of
     None \<Rightarrow> Inactive
   | Some o' \<Rightarrow> (case co_intent o' of
       NoObjection \<Rightarrow> Abstained (co_severity o')
     | HoldAt r \<Rightarrow> Participating (co_severity o') r (binding = Some i)
     | DesireRate r \<Rightarrow> Participating (co_severity o') r (binding = Some i)))"

definition evaluation_records ::
  "nat option \<Rightarrow> Constraint list \<Rightarrow> ConstraintOutput option list \<Rightarrow> EvaluationRecord list" where
  "evaluation_records binding cs outs =
     map (\<lambda>(i, c, out). \<lparr>er_id = Constraint_id c, er_class = Constraint_class c,
        er_participation = participation_of binding i out, er_state = Constraint_state c\<rparr>)
       (enumerate 0 (zip cs outs))"

end
