(* ===== verification/Composition.thy ===== *)
theory Composition
  imports Constraints
begin

text \<open>
  \<^verbatim>\<open>controller/composition.rs\<close>: the composition strategy selects one rate among the constraint
  evaluations. \<^verbatim>\<open>MinSelector\<close> is the only implementation; it takes the first evaluation with the least
  desired rate and falls back to the default rate when nobody has an opinion.
\<close>

section \<open>Model\<close>

record ConstraintEval =
  ce_constraint_index :: nat
  ce_desired_rate :: f64
  ce_severity :: f64
  ce_class :: ConstraintClass

record CompositionResult =
  cr_rate :: f64
  cr_binding :: "nat option"

text \<open>
  \<^verbatim>\<open>Iterator::min_by\<close> keeps the earlier element unless the later one compares strictly smaller; the
  comparison treats incomparable (NaN) rates as equal.
\<close>

fun min_by_rate :: "ConstraintEval list \<Rightarrow> ConstraintEval option" where
  "min_by_rate [] = None"
| "min_by_rate (e # es) =
     Some (foldl (\<lambda>best e. if ce_desired_rate e < ce_desired_rate best then e else best) e es)"

datatype CompositionStrategy = MinSelector

definition MinSelector_compose :: "ConstraintEval list \<Rightarrow> nat \<Rightarrow> f64 \<Rightarrow> CompositionResult" where
  "MinSelector_compose evals abstainers default_rate = (case min_by_rate evals of
     Some e \<Rightarrow> \<lparr>cr_rate = ce_desired_rate e, cr_binding = Some (ce_constraint_index e)\<rparr>
   | None \<Rightarrow> \<lparr>cr_rate = default_rate, cr_binding = None\<rparr>)"

fun compose :: "CompositionStrategy \<Rightarrow> ConstraintEval list \<Rightarrow> nat \<Rightarrow> f64 \<Rightarrow> CompositionResult" where
  "compose MinSelector evals abstainers default_rate = MinSelector_compose evals abstainers default_rate"

section \<open>Lemmas\<close>

lemma foldl_min_by:
  fixes e :: ConstraintEval
  assumes "\<forall>x \<in> set (e # es). \<not> is_nan (ce_desired_rate x)"
  shows "let m = foldl (\<lambda>best e. if ce_desired_rate e < ce_desired_rate best then e else best) e es in
     m \<in> set (e # es) \<and> (\<forall>x \<in> set (e # es). ce_desired_rate m \<le> ce_desired_rate x)"
  using assms
proof (induction es arbitrary: e)
  case (Cons a es)
  let ?b = "if ce_desired_rate a < ce_desired_rate e then a else e"
  have "\<forall>x \<in> set (?b # es). \<not> is_nan (ce_desired_rate x)" using Cons.prems by auto
  from Cons.IH[OF this] have *: "let m = foldl (\<lambda>best e. if ce_desired_rate e < ce_desired_rate best then e else best) ?b es in
     m \<in> set (?b # es) \<and> (\<forall>x \<in> set (?b # es). ce_desired_rate m \<le> ce_desired_rate x)" .
  have "ce_desired_rate ?b \<le> ce_desired_rate a" "ce_desired_rate ?b \<le> ce_desired_rate e"
    using Cons.prems by (auto simp: f64_order not_less)
  with * show ?case by (auto simp: Let_def intro: fle_trans split: if_splits)
qed simp

lemma min_by_rate_least:
  assumes "min_by_rate es = Some m" "\<forall>x \<in> set es. \<not> is_nan (ce_desired_rate x)"
  shows "m \<in> set es" "\<forall>x \<in> set es. ce_desired_rate m \<le> ce_desired_rate x"
  using assms foldl_min_by[of "hd es" "tl es"] by (cases es; auto simp: Let_def)+

lemma min_by_rate_in: "min_by_rate es = Some m \<Longrightarrow> m \<in> set es"
proof -
  have "foldl (\<lambda>best e. if ce_desired_rate e < ce_desired_rate best then e else best) e es \<in> set (e # es)"
    for e :: ConstraintEval and es
  proof (induction es arbitrary: e)
    case (Cons a es)
    show ?case using Cons[of "if ce_desired_rate a < ce_desired_rate e then a else e"]
      by (auto split: if_splits)
  qed simp
  then show "min_by_rate es = Some m \<Longrightarrow> m \<in> set es" by (cases es) auto
qed

lemma min_by_rate_None [simp]: "min_by_rate es = None \<longleftrightarrow> es = []"
  by (cases es) auto

text \<open>The binding constraint is always one of the evaluated ones.\<close>

lemma compose_binding:
  assumes "cr_binding (compose s evals n d) = Some i"
  obtains e where "e \<in> set evals" "ce_constraint_index e = i" "cr_rate (compose s evals n d) = ce_desired_rate e"
  using assms min_by_rate_in
  by (cases s) (auto simp: MinSelector_compose_def split: option.splits)

lemma compose_none: "cr_binding (compose s evals n d) = None \<longleftrightarrow> evals = []"
  by (cases s) (auto simp: MinSelector_compose_def split: option.splits)

lemma compose_default: "cr_rate (compose s [] n d) = d"
  by (cases s) (simp add: MinSelector_compose_def)

lemma compose_le:
  assumes "e \<in> set evals" "\<forall>x \<in> set evals. \<not> is_nan (ce_desired_rate x)"
  shows "cr_rate (compose s evals n d) \<le> ce_desired_rate e"
proof -
  obtain m where m: "min_by_rate evals = Some m"
    using assms(1) by (metis min_by_rate_None empty_iff list.set(1) option.exhaust)
  with min_by_rate_least(2)[OF m assms(2)] assms(1) show ?thesis
    by (cases s) (auto simp: MinSelector_compose_def)
qed

lemma compose_not_nan:
  assumes "\<not> is_nan d" "\<forall>x \<in> set evals. \<not> is_nan (ce_desired_rate x)"
  shows "\<not> is_nan (cr_rate (compose s evals n d))"
  using assms min_by_rate_in
  by (cases s) (auto simp: MinSelector_compose_def split: option.splits)

end
