(* ===== verification/Ceiling.thy ===== *)
theory Ceiling
  imports Prelude
begin

text \<open>
  \<^verbatim>\<open>controller/ceiling.rs\<close>: the progressive ceiling, a linear ramp between two rates. The shared clock
  of the code is the argument \<open>now\<close> of the operations that read it.
\<close>

section \<open>Model\<close>

record ProgressiveCeiling =
  pc_start_value :: f64
  pc_end_value :: f64
  pc_ramp_duration :: duration
  pc_start_time :: "instant option"
  pc_last_milestone :: u8

definition ProgressiveCeiling_new :: "f64 \<Rightarrow> f64 \<Rightarrow> duration \<Rightarrow> ProgressiveCeiling" where
  "ProgressiveCeiling_new start_value end_value ramp_duration = \<lparr>
     pc_start_value = start_value, pc_end_value = end_value, pc_ramp_duration = ramp_duration,
     pc_start_time = None, pc_last_milestone = 0\<rparr>"

definition ProgressiveCeiling_started :: "instant \<Rightarrow> f64 \<Rightarrow> f64 \<Rightarrow> duration \<Rightarrow> ProgressiveCeiling" where
  "ProgressiveCeiling_started now start_value end_value ramp_duration = \<lparr>
     pc_start_value = start_value, pc_end_value = end_value, pc_ramp_duration = ramp_duration,
     pc_start_time = Some now, pc_last_milestone = 0\<rparr>"

definition ceiling_start_now :: "instant \<Rightarrow> ProgressiveCeiling \<Rightarrow> ProgressiveCeiling" where
  "ceiling_start_now now c = c\<lparr>pc_start_time := Some now\<rparr>"

definition ceiling_progress :: "instant \<Rightarrow> ProgressiveCeiling \<Rightarrow> f64" where
  "ceiling_progress now c = (case pc_start_time c of
     Some t \<Rightarrow>
       (let secs = as_secs_f64 (pc_ramp_duration c) in
        if secs \<le> lit 0 then lit 1
        else fmin (as_secs_f64 (duration_since now t) / secs) (lit 1))
   | None \<Rightarrow> lit 0)"

definition ceiling_value :: "instant \<Rightarrow> ProgressiveCeiling \<Rightarrow> f64" where
  "ceiling_value now c =
     pc_start_value c + ceiling_progress now c * (pc_end_value c - pc_start_value c)"

definition set_end_value :: "f64 \<Rightarrow> ProgressiveCeiling \<Rightarrow> ProgressiveCeiling" where
  "set_end_value e c = c\<lparr>pc_end_value := e\<rparr>"

definition check_milestone :: "instant \<Rightarrow> ProgressiveCeiling \<Rightarrow> ProgressiveCeiling \<times> u8 option" where
  "check_milestone now c =
     (let pct = word_of_nat (f64_to_nat 255 (ceiling_progress now c * lit 100)) :: u8;
          milestone = (pct div 25) * 25
      in if milestone > pc_last_milestone c
         then (c\<lparr>pc_last_milestone := milestone\<rparr>, Some milestone)
         else (c, None))"

section \<open>Lemmas\<close>

lemma as_secs_f64_nonneg: "0 \<le> as_secs_f64 d"
proof -
  have "0 < lit 1000000000" by (simp add: f64_eval flip: lit_01)
  then have "is_nan (f64_of_nat (d mod 1000000000) / lit 1000000000) \<or> 0 \<le> f64_of_nat (d mod 1000000000) / lit 1000000000"
    by (simp add: fdiv_nonneg)
  moreover have "\<not> is_nan (f64_of_nat (d mod 1000000000) / lit 1000000000)"
    by (rule finite_ops_not_nan) (simp_all add: f64_eval is_finite_of_nat)
  ultimately show ?thesis by (simp add: as_secs_f64_def fadd_nonneg)
qed

text \<open>The progress is a fraction between 0 and 1, whatever the durations are.\<close>

lemma ceiling_progress_bounds: "0 \<le> ceiling_progress now c \<and> ceiling_progress now c \<le> 1"
proof (cases "pc_start_time c")
  case None
  then show ?thesis by (simp add: ceiling_progress_def lit_01 f64_order)
next
  case (Some t)
  define s where "s = as_secs_f64 (pc_ramp_duration c)"
  define e where "e = as_secs_f64 (duration_since now t)"
  have "0 \<le> fmin (e / s) 1 \<and> fmin (e / s) 1 \<le> 1" if "\<not> s \<le> 0"
  proof -
    have "0 < s" using that as_secs_f64_nonneg[of "pc_ramp_duration c"] unfolding s_def f64_order by auto
    moreover have "0 \<le> e" by (simp add: e_def as_secs_f64_nonneg)
    ultimately have "is_nan (e / s) \<or> 0 \<le> e / s" by (rule fdiv_nonneg[rotated])
    then show ?thesis by (auto simp: fmin_def f64_order)
  qed
  then show ?thesis using Some by (simp add: ceiling_progress_def lit_01 s_def e_def Let_def f64_order)
qed

lemma ceiling_value_not_nan:
  assumes "is_finite (pc_start_value c)" "is_finite (pc_end_value c)"
    "0 \<le> pc_start_value c" "0 \<le> pc_end_value c"
  shows "\<not> is_nan (ceiling_value now c)"
  unfolding ceiling_value_def using assms ceiling_progress_bounds[of now c]
  by (intro finite_ops_not_nan fmul_finite fdiff_finite) auto

text \<open>Before the ramp starts the ceiling is its start value, once the duration has passed it is the end value.\<close>

lemma ceiling_value_deferred:
  assumes "pc_start_time c = None" "is_finite (pc_start_value c)" "is_finite (pc_end_value c)"
    "0 \<le> pc_start_value c" "0 \<le> pc_end_value c"
  shows "ceiling_value now c = pc_start_value c"
proof -
  have "is_finite (pc_end_value c - pc_start_value c)" using assms by (simp add: fdiff_finite)
  then have "ceiling_progress now c * (pc_end_value c - pc_start_value c) = 0"
    using assms(1) by (simp add: ceiling_progress_def lit_01 fmul_lit)
  then show ?thesis using assms by (simp add: ceiling_value_def fadd_lit lit_key)
qed

text \<open>The ceiling never moves down while the clock advances, if it ramps upwards.\<close>

lemma sub_second:
  "is_finite (f64_of_nat (d mod 1000000000) / lit 1000000000)"
  "key (f64_of_nat (d mod 1000000000) / lit 1000000000) = key (lit (of_nat (d mod 1000000000) / 1000000000))"
  "0 \<le> key (f64_of_nat (d mod 1000000000) / lit 1000000000)"
  "key (f64_of_nat (d mod 1000000000) / lit 1000000000) \<le> 1"
proof -
  have r: "rep (of_nat (d mod 1000000000))" "rep 1000000000"
    using pos_mod_bound[of "1000000000::nat" d] by (simp_all add: f64_eval f64_of_nat_rep)
  then have eq: "f64_of_nat (d mod 1000000000) / lit 1000000000 = lit (of_nat (d mod 1000000000) / 1000000000)"
    using lit_arith[OF r] by (simp add: f64_of_nat_def)
  have "of_nat (d mod 1000000000) \<le> (1000000000 :: rat)"
    using of_nat_le_iff[of "d mod 1000000000" 1000000000, where ?'a=rat] by simp
  then have "lit 0 \<le> lit (of_nat (d mod 1000000000) / 1000000000)" "lit (of_nat (d mod 1000000000) / 1000000000) \<le> lit 1"
    by (auto intro!: lit_mono)
  then have b: "0 \<le> f64_of_nat (d mod 1000000000) / lit 1000000000" "f64_of_nat (d mod 1000000000) / lit 1000000000 \<le> 1"
    by (simp_all add: eq lit_01)
  then show "0 \<le> key (f64_of_nat (d mod 1000000000) / lit 1000000000)"
    "key (f64_of_nat (d mod 1000000000) / lit 1000000000) \<le> 1" by (simp_all add: fle_iff)
  show "is_finite (f64_of_nat (d mod 1000000000) / lit 1000000000)"
    using b finite_between[of 0 _ 1] by simp
  show "key (f64_of_nat (d mod 1000000000) / lit 1000000000) = key (lit (of_nat (d mod 1000000000) / 1000000000))"
    by (simp add: eq)
qed

lemma as_secs_f64_mono:
  assumes "m \<le> n" "n div 1000000000 \<le> 2 ^ 53" shows "as_secs_f64 m \<le> as_secs_f64 n"
proof -
  let ?x = "\<lambda>d. f64_of_nat (d mod 1000000000) / lit 1000000000"
  have d: "m div 1000000000 \<le> n div 1000000000" using assms(1) by (rule div_le_mono)
  have k: "is_finite (f64_of_nat j)" "key (f64_of_nat j) = of_nat j" if "j \<le> n div 1000000000" for j
    using that assms(2) by (simp_all add: f64_of_nat_def rep_lit f64_of_nat_rep)
  have "of_nat (m div 1000000000) + key (?x m) \<le> of_nat (n div 1000000000) + key (?x n)"
  proof (cases "m div 1000000000 = n div 1000000000")
    case True
    then have "m mod 1000000000 \<le> n mod 1000000000"
      using assms(1) div_mult_mod_eq[of m 1000000000] div_mult_mod_eq[of n 1000000000] by linarith
    then have "key (?x m) \<le> key (?x n)"
      using lit_mono[of "of_nat (m mod 1000000000) / 1000000000" "of_nat (n mod 1000000000) / 1000000000"]
      by (simp add: sub_second(2) fle_iff divide_right_mono)
    then show ?thesis using True by simp
  next
    case False
    then have "Suc (m div 1000000000) \<le> n div 1000000000" using d by linarith
    then have "of_nat (m div 1000000000) + 1 \<le> (of_nat (n div 1000000000) :: rat)"
      by (metis of_nat_Suc of_nat_le_iff add.commute)
    then show ?thesis using sub_second(4)[of m] sub_second(3)[of n] by linarith
  qed
  then show ?thesis
    using k[OF d] k[OF order.refl] sub_second(1)[of m] sub_second(1)[of n]
    by (simp add: as_secs_f64_def fadd_lit lit_mono)
qed

lemma as_secs_f64_finite:
  assumes "d div 1000000000 < 2 ^ 53" shows "is_finite (as_secs_f64 d)"
proof -
  let ?n = "d div 1000000000"
  have k: "is_finite (f64_of_nat ?n)" "key (f64_of_nat ?n) = of_nat ?n"
    using assms by (simp_all add: f64_of_nat_def rep_lit f64_of_nat_rep)
  have "of_nat (Suc ?n) \<le> (of_nat (2 ^ 53) :: rat)" using assms by (simp only: of_nat_le_iff)
  then have "\<bar>of_nat ?n + key (f64_of_nat (d mod 1000000000) / lit 1000000000)\<bar> \<le> 9007199254740992"
    using sub_second(3,4)[of d] by simp
  moreover have "rep 9007199254740992" by (simp add: f64_eval)
  ultimately show ?thesis
    using finite_lit_le[of "lit 9007199254740992"] k sub_second(1)[of d]
    by (simp add: as_secs_f64_def fadd_lit rep_lit)
qed

lemma ceiling_progress_mono:
  assumes "now \<le> now'" "pc_start_time c = Some t" "duration_since now' t div 1000000000 < 2 ^ 53"
    "pc_ramp_duration c div 1000000000 < 2 ^ 53"
  shows "ceiling_progress now c \<le> ceiling_progress now' c"
proof -
  define s where "s = as_secs_f64 (pc_ramp_duration c)"
  define e where "e = as_secs_f64 (duration_since now t)"
  define e' where "e' = as_secs_f64 (duration_since now' t)"
  have m: "duration_since now t \<le> duration_since now' t" using assms(1) by (rule duration_since_mono)
  have "e \<le> e'" using m assms(3) by (simp add: e_def e'_def as_secs_f64_mono)
  moreover have fin: "is_finite e" "is_finite e'" "is_finite s"
    using div_le_mono[OF m, of 1000000000] assms(3,4) by (simp_all add: e_def e'_def s_def as_secs_f64_finite)
  ultimately have "fmin (e / s) 1 \<le> fmin (e' / s) 1" if "0 < s"
    using that by (simp add: fmin_mono fdiv_mono)
  moreover have "\<not> s \<le> 0 \<Longrightarrow> 0 < s"
    using as_secs_f64_nonneg[of "pc_ramp_duration c"] by (auto simp: s_def f64_order)
  ultimately show ?thesis using assms(2)
    by (simp add: ceiling_progress_def lit_01 Let_def flip: s_def e_def e'_def)
qed

lemma ceiling_value_mono:
  assumes "ceiling_progress now c \<le> ceiling_progress now' c" "pc_start_value c \<le> pc_end_value c"
    "is_finite (pc_start_value c)" "is_finite (pc_end_value c)" "0 \<le> pc_start_value c"
  shows "ceiling_value now c \<le> ceiling_value now' c"
proof -
  let ?d = "pc_end_value c - pc_start_value c"
  have d: "is_finite ?d" using assms fdiff_finite fle_trans by blast
  have "0 \<le> ?d" using assms(2-4) lit_mono[of 0 "key (pc_end_value c) - key (pc_start_value c)"]
    by (simp add: fdiff_lit fle_iff lit_01)
  moreover have p: "is_finite (ceiling_progress n c)" for n
    using ceiling_progress_bounds[of n c] finite_between[of 0 _ 1] by simp
  ultimately have "key (ceiling_progress now c) * key ?d \<le> key (ceiling_progress now' c) * key ?d"
    using assms(1) by (simp add: fle_iff mult_right_mono)
  then have "ceiling_progress now c * ?d \<le> ceiling_progress now' c * ?d"
    using d p by (simp add: fmul_lit lit_mono)
  then have "key (pc_start_value c) + key (ceiling_progress now c * ?d)
      \<le> key (pc_start_value c) + key (ceiling_progress now' c * ?d)" by (simp add: fle_iff)
  then show ?thesis
    using fmul_finite[OF d] ceiling_progress_bounds assms(3)
    by (simp add: ceiling_value_def fadd_lit lit_mono)
qed

lemma milestone_fresh:
  assumes "check_milestone now c = (c', Some m)"
  shows "pc_last_milestone c < m \<and> pc_last_milestone c' = m"
  using assms by (auto simp: check_milestone_def Let_def split: if_splits)

end
