(* ===== verification/Arbiter.thy ===== *)
theory Arbiter
  imports Trace Composition Ceiling
begin

text \<open>
  \<^verbatim>\<open>controller/arbiter.rs\<close>: the rate controller that composes the constraints and applies the policies
  of the control loop, in this order: per-tick rate-of-change limits, progressive ceiling, known-good
  floor (unless the binding constraint is catastrophic) and the absolute bounds. The shared clock is the
  argument \<open>now\<close>; a panic of \<^verbatim>\<open>f64::clamp\<close> is the result \<open>None\<close>. Log messages carry no state.
\<close>

section \<open>Cooldown, known-good floor, increase policy, rate limits\<close>

record CooldownState =
  cd_remaining :: u32
  cd_min_ticks :: u32
  cd_recovery_multiplier :: f64

definition CooldownState_new :: "u32 \<Rightarrow> f64 \<Rightarrow> CooldownState" where
  "CooldownState_new min_ticks recovery_multiplier =
     \<lparr>cd_remaining = 0, cd_min_ticks = min_ticks, cd_recovery_multiplier = recovery_multiplier\<rparr>"

definition cooldown_is_active :: "CooldownState \<Rightarrow> bool" where
  "cooldown_is_active cd \<longleftrightarrow> cd_remaining cd > 0"

definition cooldown_tick :: "CooldownState \<Rightarrow> CooldownState" where
  "cooldown_tick cd = (if cd_remaining cd > 0 then cd\<lparr>cd_remaining := cd_remaining cd - 1\<rparr> else cd)"

definition cooldown_engage :: "Constraint list \<Rightarrow> CooldownState \<Rightarrow> CooldownState" where
  "cooldown_engage triggering cd =
     (let max_estimate = foldl fmax (lit 0) (List.map_filter Constraint_recovery_estimate_ticks triggering);
          cooldown_ticks = (if max_estimate > lit 0
            then max (f64_to_u32 (f64_ceil (max_estimate * cd_recovery_multiplier cd))) (cd_min_ticks cd)
            else cd_min_ticks cd)
      in cd\<lparr>cd_remaining := cooldown_ticks\<rparr>)"

record KnownGoodTracker =
  kg_max_recent_rate :: f64
  kg_max_recent_rate_time :: instant
  kg_floor_fraction :: f64
  kg_window :: duration
  kg_decay_factor :: f64

definition KnownGoodTracker_new :: "f64 \<Rightarrow> duration \<Rightarrow> f64 \<Rightarrow> instant \<Rightarrow> KnownGoodTracker" where
  "KnownGoodTracker_new floor_fraction window initial_rate now = \<lparr>
     kg_max_recent_rate = initial_rate, kg_max_recent_rate_time = now,
     kg_floor_fraction = floor_fraction, kg_window = window, kg_decay_factor = lit 0.95\<rparr>"

definition known_good_update :: "instant \<Rightarrow> f64 \<Rightarrow> KnownGoodTracker \<Rightarrow> KnownGoodTracker" where
  "known_good_update now current_rps kg =
     (if current_rps > kg_max_recent_rate kg
      then kg\<lparr>kg_max_recent_rate := current_rps, kg_max_recent_rate_time := now\<rparr>
      else if duration_since now (kg_max_recent_rate_time kg) > kg_window kg
      then kg\<lparr>kg_max_recent_rate := kg_max_recent_rate kg * kg_decay_factor kg, kg_max_recent_rate_time := now\<rparr>
      else kg)"

definition known_good_floor :: "f64 \<Rightarrow> KnownGoodTracker \<Rightarrow> f64" where
  "known_good_floor min_rps kg = fmax (kg_max_recent_rate kg * kg_floor_fraction kg) min_rps"

record IncreasePolicyConfig =
  ipc_increase_factor :: f64
  ipc_congestion_avoidance :: "CongestionAvoidanceConfig option"

definition CongestionAvoidanceConfig_default :: CongestionAvoidanceConfig where
  "CongestionAvoidanceConfig_default = \<lparr>ca_trigger_threshold = lit 0.85, ca_additive_fraction = lit 0.01,
     ca_failure_rate_alpha = lit 0.3\<rparr>"

definition IncreasePolicyConfig_default :: IncreasePolicyConfig where
  "IncreasePolicyConfig_default = \<lparr>ipc_increase_factor = lit 1.1, ipc_congestion_avoidance = None\<rparr>"

record IncreasePolicy =
  ip_config :: IncreasePolicyConfig
  ip_failure_rate_ema :: f64
  ip_backoff_count :: u32

definition IncreasePolicy_new :: "IncreasePolicyConfig \<Rightarrow> IncreasePolicy" where
  "IncreasePolicy_new config = \<lparr>ip_config = config, ip_failure_rate_ema = lit 0, ip_backoff_count = 0\<rparr>"

definition IncreasePolicy_compute :: "f64 \<Rightarrow> CooldownState \<Rightarrow> IncreasePolicy \<Rightarrow> f64" where
  "IncreasePolicy_compute current_rps cooldown ip =
     (if cooldown_is_active cooldown then current_rps
      else case ipc_congestion_avoidance (ip_config ip) of
          Some ca \<Rightarrow>
            if ip_failure_rate_ema ip > lit 0 \<and> current_rps > ip_failure_rate_ema ip * ca_trigger_threshold ca
            then current_rps + ip_failure_rate_ema ip * ca_additive_fraction ca
            else current_rps * ipc_increase_factor (ip_config ip)
        | None \<Rightarrow> current_rps * ipc_increase_factor (ip_config ip))"

definition IncreasePolicy_record_backoff :: "f64 \<Rightarrow> IncreasePolicy \<Rightarrow> IncreasePolicy" where
  "IncreasePolicy_record_backoff current_rps ip =
     (let alpha = the_or (lit 0.3) (map_option ca_failure_rate_alpha (ipc_congestion_avoidance (ip_config ip)))
      in ip\<lparr>ip_failure_rate_ema := (if feq (ip_failure_rate_ema ip) (lit 0) then current_rps
              else alpha * current_rps + (lit 1 - alpha) * ip_failure_rate_ema ip),
            ip_backoff_count := ip_backoff_count ip + 1\<rparr>)"

text \<open>The limits are the two fractions of the configuration.\<close>

type_synonym RateChangeLimits = RateChangeLimitsConfig

definition RateChangeLimits_clamp :: "RateChangeLimits \<Rightarrow> f64 \<Rightarrow> f64 \<Rightarrow> f64 option" where
  "RateChangeLimits_clamp l desired current =
     (let max_up = current * (lit 1 + rcl_max_increase_pct l);
          max_down = current * (lit 1 - rcl_max_decrease_pct l)
      in fclamp desired max_down max_up)"

section \<open>State and configuration\<close>

datatype ArbiterPhase =
    Exploration ExplorationManager
  | Warmup f64 duration instant "f64 list"
  | Active

definition EXPLORATION_ABORT_THRESHOLD :: f64 where
  "EXPLORATION_ABORT_THRESHOLD = lit 0.85"

record ArbiterConfig =
  abc_constraints :: "Constraint list"
  abc_initial_rps :: f64
  abc_min_rps :: f64
  abc_max_rps :: f64
  abc_test_duration :: duration
  abc_strategy :: CompositionStrategy
  abc_increase :: IncreasePolicyConfig
  abc_rate_change_limits :: RateChangeLimits
  abc_backoff_detection_threshold :: f64
  abc_cooldown_min_ticks :: u32
  abc_cooldown_recovery_multiplier :: f64
  abc_known_good_floor_fraction :: f64
  abc_known_good_window :: duration
  abc_warmup :: "(f64 \<times> duration) option"
  abc_exploration_manager :: "ExplorationManager option"
  abc_trace_path :: "string option"

definition ArbiterConfig_new :: "Constraint list \<Rightarrow> f64 \<Rightarrow> f64 \<Rightarrow> f64 \<Rightarrow> duration \<Rightarrow> ArbiterConfig" where
  "ArbiterConfig_new constraints initial_rps min_rps max_rps test_duration = \<lparr>
     abc_constraints = constraints, abc_initial_rps = initial_rps, abc_min_rps = min_rps,
     abc_max_rps = max_rps, abc_test_duration = test_duration, abc_strategy = MinSelector,
     abc_increase = IncreasePolicyConfig_default, abc_rate_change_limits = RateChangeLimitsConfig_default,
     abc_backoff_detection_threshold = lit 0.98, abc_cooldown_min_ticks = 2,
     abc_cooldown_recovery_multiplier = lit 1.5, abc_known_good_floor_fraction = lit 0.8,
     abc_known_good_window = secs 60, abc_warmup = None, abc_exploration_manager = None,
     abc_trace_path = None\<rparr>"

record Arbiter =
  ab_constraints :: "Constraint list"
  ab_strategy :: CompositionStrategy
  ab_current_rps :: f64
  ab_min_rps :: f64
  ab_max_rps :: f64
  ab_phase :: ArbiterPhase
  ab_ceiling :: ProgressiveCeiling
  ab_cooldown :: CooldownState
  ab_known_good :: KnownGoodTracker
  ab_increase :: IncreasePolicy
  ab_rate_change_limits :: RateChangeLimits
  ab_backoff_detection_threshold :: f64
  ab_ticks_since_increase :: u32
  ab_ramping_ticks :: u32
  ab_log_every_n_ticks :: u32
  ab_last_binding :: "string option"
  ab_warmup_config :: "(f64 \<times> duration) option"
  ab_initial_rps :: f64
  ab_trace_recorder :: TraceRecorder

text \<open>
  \<^verbatim>\<open>Arbiter::new\<close>. Whether the trace file can be created is up to the file system: \<open>trace_ok\<close>.
\<close>

definition Arbiter_new :: "bool \<Rightarrow> instant \<Rightarrow> ArbiterConfig \<Rightarrow> Arbiter" where
  "Arbiter_new trace_ok now config =
     (let warmup_config = abc_warmup config;
          phase = (case abc_exploration_manager config of
              Some manager \<Rightarrow> Exploration manager
            | None \<Rightarrow> (case warmup_config of
                Some (rps, dur) \<Rightarrow> Warmup rps dur now []
              | None \<Rightarrow> Active));
          current_rps = (case phase of
              Exploration mgr \<Rightarrow> em_initial_rps mgr * lit 0.5
            | Warmup warmup_rps _ _ _ \<Rightarrow> warmup_rps
            | Active \<Rightarrow> abc_initial_rps config);
          ceiling = (if phase = Active
              then ProgressiveCeiling_started now (abc_initial_rps config) (abc_max_rps config) (abc_test_duration config div 2)
              else ProgressiveCeiling_new (abc_initial_rps config) (abc_max_rps config) (abc_test_duration config div 2))
      in \<lparr>ab_constraints = abc_constraints config, ab_strategy = abc_strategy config,
          ab_current_rps = current_rps, ab_min_rps = abc_min_rps config, ab_max_rps = abc_max_rps config,
          ab_phase = phase, ab_ceiling = ceiling,
          ab_cooldown = CooldownState_new (abc_cooldown_min_ticks config) (abc_cooldown_recovery_multiplier config),
          ab_known_good = KnownGoodTracker_new (abc_known_good_floor_fraction config)
            (abc_known_good_window config) current_rps now,
          ab_increase = IncreasePolicy_new (abc_increase config),
          ab_rate_change_limits = abc_rate_change_limits config,
          ab_backoff_detection_threshold = abc_backoff_detection_threshold config,
          ab_ticks_since_increase = 0, ab_ramping_ticks = 0, ab_log_every_n_ticks = 10,
          ab_last_binding = None, ab_warmup_config = warmup_config, ab_initial_rps = abc_initial_rps config,
          ab_trace_recorder = (case abc_trace_path config of
              Some path \<Rightarrow> if trace_ok then Jsonl [] 0 else Noop
            | None \<Rightarrow> Noop)\<rparr>)"

section \<open>Ticks\<close>

text \<open>
  Steps 3 and 4 of \<^verbatim>\<open>active_tick\<close>: the evaluations with a rate opinion, with the index of their
  constraint, and the number of abstainers.
\<close>

definition constraint_evals :: "Constraint list \<Rightarrow> ConstraintOutput option list \<Rightarrow> ConstraintEval list" where
  "constraint_evals cs outs = List.map_filter (\<lambda>(i, c, out).
     case out of
       None \<Rightarrow> None
     | Some o' \<Rightarrow> (case co_intent o' of
         NoObjection \<Rightarrow> None
       | HoldAt rate \<Rightarrow> Some \<lparr>ce_constraint_index = i, ce_desired_rate = rate, ce_severity = co_severity o',
                              ce_class = Constraint_class c\<rparr>
       | DesireRate rate \<Rightarrow> Some \<lparr>ce_constraint_index = i, ce_desired_rate = rate, ce_severity = co_severity o',
                              ce_class = Constraint_class c\<rparr>))
     (enumerate 0 (zip cs outs))"

definition abstainer_count :: "ConstraintOutput option list \<Rightarrow> nat" where
  "abstainer_count outs = length (filter (\<lambda>out. case out of None \<Rightarrow> False | Some o' \<Rightarrow> co_intent o' = NoObjection) outs)"

text \<open>
  Step 5: rate limits, ceiling, floor, absolute bounds. The floor is computed from the tracker after its
  update.
\<close>

definition apply_policies :: "Arbiter \<Rightarrow> f64 \<Rightarrow> f64 \<Rightarrow> ConstraintClass option \<Rightarrow> f64 \<Rightarrow> f64 option" where
  "apply_policies ab ceil flr binding_class desired = do {
     rate1 \<leftarrow> RateChangeLimits_clamp (ab_rate_change_limits ab) desired (ab_current_rps ab);
     let rate2 = fmin rate1 ceil;
     let rate3 = (if binding_class \<noteq> Some Catastrophic then fmax rate2 flr else rate2);
     fclamp rate3 (ab_min_rps ab) (ab_max_rps ab)
   }"

definition active_tick :: "libm \<Rightarrow> instant \<Rightarrow> MetricsSummary \<Rightarrow> Arbiter \<Rightarrow> (Arbiter \<times> RateDecision) option" where
  "active_tick m now summary ab =
     (let current = ab_current_rps ab;
          ticks = ab_ramping_ticks ab + 1;
          increase_rate = IncreasePolicy_compute current (ab_cooldown ab) (ab_increase ab);
          ctx = \<lparr>ctx_summary = summary, ctx_current_rate = current,
                 ctx_ticks_since_increase = ab_ticks_since_increase ab,
                 ctx_min_rps = ab_min_rps ab, ctx_max_rps = ab_max_rps ab\<rparr>;
          evaluated = map (\<lambda>c. Constraint_evaluate m c ctx) (ab_constraints ab);
          cs1 = map fst evaluated;
          outs = map snd evaluated;
          evals = constraint_evals cs1 outs;
          result = compose (ab_strategy ab) evals (abstainer_count outs) increase_rate;
          binding = cr_binding result;
          last_binding = map_option (\<lambda>i. Constraint_id (cs1 ! i)) binding;
          backoff = (binding \<noteq> None \<and> cr_rate result < current * ab_backoff_detection_threshold ab);
          ceiling = ceiling_value now (ab_ceiling ab);
          ceiling' = fst (check_milestone now (ab_ceiling ab));
          known_good = known_good_update now current (ab_known_good ab);
          floor = known_good_floor (ab_min_rps ab) known_good;
          binding_class = map_option (\<lambda>i. Constraint_class (cs1 ! i)) binding
      in case apply_policies ab ceiling floor binding_class (cr_rate result) of
           None \<Rightarrow> None
         | Some rate \<Rightarrow>
             let cs2 = map (\<lambda>(i, c). Constraint_post_select m rate current (binding = Some i) c) (enumerate 0 cs1);
                 triggering = map (\<lambda>e. cs2 ! ce_constraint_index e)
                   (filter (\<lambda>e. ce_desired_rate e < current * ab_backoff_detection_threshold ab) evals);
                 increase = (if backoff then IncreasePolicy_record_backoff current (ab_increase ab) else ab_increase ab);
                 cooldown = (if backoff then cooldown_engage triggering (ab_cooldown ab) else cooldown_tick (ab_cooldown ab));
                 ticks_since_increase = (if rate > current then 0 else sat_incr (ab_ticks_since_increase ab));
                 recorder = (if TraceRecorder_is_enabled (ab_trace_recorder ab)
                   then TraceRecorder_record \<lparr>
                     tr_tick = ticks, tr_metrics = summary, tr_evaluations = evaluation_records binding cs2 outs,
                     tr_abstainer_count = word_of_nat (abstainer_count outs),
                     tr_arbiter = \<lparr>ar_composition_rate = cr_rate result, ar_binding = last_binding,
                       ar_ceiling = ceiling, ar_floor = floor, ar_cooldown_active = cooldown_is_active cooldown,
                       ar_cooldown_remaining = cd_remaining cooldown, ar_backoff_engaged = backoff,
                       ar_ticks_since_increase = ticks_since_increase,
                       ar_failure_rate_ema = ip_failure_rate_ema increase,
                       ar_backoff_count = ip_backoff_count increase\<rparr>,
                     tr_previous_rps = current, tr_target_rps = rate\<rparr> (ab_trace_recorder ab)
                   else ab_trace_recorder ab)
             in Some (ab\<lparr>ab_constraints := cs2, ab_current_rps := rate, ab_ceiling := ceiling',
                         ab_cooldown := cooldown, ab_known_good := known_good, ab_increase := increase,
                         ab_ticks_since_increase := ticks_since_increase, ab_ramping_ticks := ticks,
                         ab_last_binding := last_binding, ab_trace_recorder := recorder\<rparr>,
                      \<lparr>target_rps = rate\<rparr>))"

text \<open>\<^verbatim>\<open>warmup_tick\<close>; \<open>None\<close> in the last line is the \<^verbatim>\<open>unreachable!\<close> of another phase.\<close>

definition warmup_tick :: "libm \<Rightarrow> instant \<Rightarrow> MetricsSummary \<Rightarrow> Arbiter \<Rightarrow> (Arbiter \<times> RateDecision) option" where
  "warmup_tick m now summary ab = (case ab_phase ab of
     Warmup warmup_rps warmup_duration start p99_samples \<Rightarrow>
       (let p99_ms = f64_of_word (ms_latency_p99_ns summary) / lit 1000000;
            samples = (if ms_total_requests summary > 0 \<and> p99_ms > lit 0 then p99_samples @ [p99_ms] else p99_samples)
        in if duration_since now start \<ge> warmup_duration \<and> length samples \<ge> 3
           then let sorted = f64_sort samples;
                    n = length sorted;
                    baseline = \<lparr>wb_baseline_p99_ms = sorted ! (n div 2), wb_sample_count = n\<rparr>;
                    ab1 = ab\<lparr>ab_constraints := map (Constraint_on_warmup_complete baseline) (ab_constraints ab),
                             ab_ceiling := ceiling_start_now now (ab_ceiling ab),
                             ab_known_good := KnownGoodTracker_new (kg_floor_fraction (ab_known_good ab))
                               (kg_window (ab_known_good ab)) warmup_rps now,
                             ab_phase := Active\<rparr>
                in active_tick m now summary ab1
           else Some (ab\<lparr>ab_phase := Warmup warmup_rps warmup_duration start samples\<rparr>, \<lparr>target_rps = warmup_rps\<rparr>))
   | _ \<Rightarrow> None)"

definition transition_post_exploration :: "instant \<Rightarrow> Arbiter \<Rightarrow> Arbiter" where
  "transition_post_exploration now ab = (case ab_warmup_config ab of
     Some (rps, dur) \<Rightarrow> ab\<lparr>ab_warmup_config := None, ab_current_rps := rps, ab_phase := Warmup rps dur now []\<rparr>
   | None \<Rightarrow> ab\<lparr>ab_current_rps := ab_initial_rps ab, ab_ceiling := ceiling_start_now now (ab_ceiling ab)\<rparr>)"

definition finish_exploration :: "instant \<Rightarrow> Arbiter \<Rightarrow> Arbiter" where
  "finish_exploration now ab = (case ab_phase ab of
     Exploration manager \<Rightarrow>
       transition_post_exploration now (ab\<lparr>ab_phase := Active,
         ab_constraints := map (Constraint_on_exploration_complete manager) (ab_constraints ab)\<rparr>)
   | _ \<Rightarrow> ab\<lparr>ab_phase := Active\<rparr>)"

text \<open>The loop of \<^verbatim>\<open>exploration_tick\<close> over the constraints: only catastrophic ones are evaluated.\<close>

fun exploration_scan :: "libm \<Rightarrow> EvalContext \<Rightarrow> Constraint list \<Rightarrow> f64 \<Rightarrow> bool \<Rightarrow> Constraint list \<times> f64 \<times> bool" where
  "exploration_scan m ctx [] safe_rate should_abort = ([], safe_rate, should_abort)"
| "exploration_scan m ctx (c # cs) safe_rate should_abort =
     (if Constraint_requires_exploration c \<or> Constraint_class c \<noteq> Catastrophic
      then map_prod ((#) c) id (exploration_scan m ctx cs safe_rate should_abort)
      else let (c', out) = Constraint_evaluate m c ctx;
               abort = (case out of
                 None \<Rightarrow> False
               | Some o' \<Rightarrow> (case co_intent o' of
                   NoObjection \<Rightarrow> False
                 | HoldAt _ \<Rightarrow> co_severity o' \<ge> lit 1
                 | DesireRate d \<Rightarrow> d < safe_rate * EXPLORATION_ABORT_THRESHOLD));
               safe_rate' = (case out of
                 Some o' \<Rightarrow> (case co_intent o' of
                     DesireRate d \<Rightarrow> if abort then fmin safe_rate d else safe_rate
                   | _ \<Rightarrow> safe_rate)
               | None \<Rightarrow> safe_rate)
           in map_prod ((#) c') id (exploration_scan m ctx cs safe_rate' (should_abort \<or> abort)))"

definition exploration_tick :: "libm \<Rightarrow> instant \<Rightarrow> MetricsSummary \<Rightarrow> Arbiter \<Rightarrow> (Arbiter \<times> RateDecision) option" where
  "exploration_tick m now summary ab = (case ab_phase ab of
     Exploration manager \<Rightarrow>
       (let (manager', tick_result) = exploration_manager_tick summary manager;
            ab1 = ab\<lparr>ab_phase := Exploration manager'\<rparr>
        in case tick_result of
             Some rate \<Rightarrow>
               (let ctx = \<lparr>ctx_summary = summary, ctx_current_rate = ab_current_rps ab1,
                      ctx_ticks_since_increase = 0, ctx_min_rps = ab_min_rps ab1, ctx_max_rps = ab_max_rps ab1\<rparr>;
                    (cs, safe_rate, should_abort) = exploration_scan m ctx (ab_constraints ab1) rate False
                in case fclamp safe_rate (ab_min_rps ab1) (ab_max_rps ab1) of
                     None \<Rightarrow> None
                   | Some clamped \<Rightarrow>
                       (let ab2 = ab1\<lparr>ab_constraints := cs, ab_current_rps := clamped\<rparr>;
                            ab3 = (if should_abort then finish_exploration now ab2 else ab2)
                        in Some (ab3, \<lparr>target_rps = ab_current_rps ab3\<rparr>)))
           | None \<Rightarrow>
               (let ab2 = finish_exploration now ab1
                in case ab_phase ab2 of
                     Warmup _ _ _ _ \<Rightarrow> warmup_tick m now summary ab2
                   | Active \<Rightarrow> active_tick m now summary ab2
                   | Exploration _ \<Rightarrow> None))
   | _ \<Rightarrow> None)"

section \<open>The \<^verbatim>\<open>RateController\<close> implementation\<close>

definition Arbiter_update :: "libm \<Rightarrow> instant \<Rightarrow> MetricsSummary \<Rightarrow> Arbiter \<Rightarrow> (Arbiter \<times> RateDecision) option" where
  "Arbiter_update m now summary ab = (case ab_phase ab of
     Exploration _ \<Rightarrow> exploration_tick m now summary ab
   | Warmup _ _ _ _ \<Rightarrow> warmup_tick m now summary ab
   | Active \<Rightarrow> active_tick m now summary ab)"

definition notify_rate_override :: "Arbiter \<Rightarrow> Arbiter" where
  "notify_rate_override ab =
     ab\<lparr>ab_constraints := map (Constraint_on_rate_override (ab_current_rps ab)) (ab_constraints ab)\<rparr>"

definition Arbiter_set_rate :: "instant \<Rightarrow> f64 \<Rightarrow> Arbiter \<Rightarrow> Arbiter option" where
  "Arbiter_set_rate now rps ab = (case fclamp rps (ab_min_rps ab) (ab_max_rps ab) of
     None \<Rightarrow> None
   | Some rate \<Rightarrow>
       (let ab1 = ab\<lparr>ab_current_rps := rate\<rparr>;
            ab2 = (if \<bar>rate - ab_current_rps ab\<bar> > f64_epsilon then notify_rate_override ab1 else ab1)
        in Some (case ab_phase ab2 of Exploration _ \<Rightarrow> finish_exploration now ab2 | _ \<Rightarrow> ab2)))"

definition Arbiter_set_max_rps :: "f64 \<Rightarrow> Arbiter \<Rightarrow> Arbiter" where
  "Arbiter_set_max_rps max_rps ab =
     (let new_max = fmax max_rps (ab_min_rps ab)
      in ab\<lparr>ab_max_rps := new_max, ab_ceiling := set_end_value new_max (ab_ceiling ab)\<rparr>)"

definition Arbiter_controller_state :: "instant \<Rightarrow> Arbiter \<Rightarrow> (string \<times> f64) list" where
  "Arbiter_controller_state now ab = (case ab_phase ab of
     Exploration manager \<Rightarrow> [(''netanvil_arbiter_exploration_progress'', exploration_progress manager)]
   | Warmup _ _ _ _ \<Rightarrow> []
   | Active \<Rightarrow>
      [(''netanvil_arbiter_ceiling'', ceiling_value now (ab_ceiling ab)),
       (''netanvil_arbiter_floor'', known_good_floor (ab_min_rps ab) (ab_known_good ab)),
       (''netanvil_arbiter_in_cooldown'', if cooldown_is_active (ab_cooldown ab) then lit 1 else lit 0),
       (''netanvil_arbiter_cooldown_remaining'', f64_of_word (cd_remaining (ab_cooldown ab))),
       (''netanvil_arbiter_failure_rate'', ip_failure_rate_ema (ab_increase ab)),
       (''netanvil_arbiter_backoff_count'', f64_of_word (ip_backoff_count (ab_increase ab))),
       (''netanvil_arbiter_ticks_since_increase'', f64_of_word (ab_ticks_since_increase ab))])"

definition Arbiter_controller_info :: "Arbiter \<Rightarrow> ControllerInfo" where
  "Arbiter_controller_info ab = \<lparr>
     ci_controller_type = CT_Arbiter, ci_current_rps = ab_current_rps ab,
     ci_editable_actions = [''set_max_rps'', ''set_min_rps''],
     ci_params = JObj [
       (''phase'', JStr (case ab_phase ab of Exploration _ \<Rightarrow> ''exploration'' | Warmup _ _ _ _ \<Rightarrow> ''warmup'' | Active \<Rightarrow> ''active'')),
       (''constraints'', JArr (map (JStr \<circ> Constraint_id) (ab_constraints ab))),
       (''ramping_ticks'', JU64 (ucast (ab_ramping_ticks ab))),
       (''in_cooldown'', JBool (cooldown_is_active (ab_cooldown ab))),
       (''cooldown_remaining'', JU64 (ucast (cd_remaining (ab_cooldown ab))))]\<rparr>"

definition Arbiter_apply_update :: "string \<Rightarrow> params \<Rightarrow> Arbiter \<Rightarrow> Arbiter \<times> update_result" where
  "Arbiter_apply_update action ps ab =
     (if action = ''set_max_rps'' then
        (case p_f64 ps ''max_rps'' of
           None \<Rightarrow> (ab, Inl (MissingField ''max_rps''))
         | Some mx \<Rightarrow>
             (let ab1 = Arbiter_set_max_rps mx ab
              in (ab1, Inr [(''ok'', JBool True), (''previous_max_rps'', JF64 (ab_max_rps ab)),
                            (''new_max_rps'', JF64 (ab_max_rps ab1))])))
      else if action = ''set_min_rps'' then
        (case p_f64 ps ''min_rps'' of
           None \<Rightarrow> (ab, Inl (MissingField ''min_rps''))
         | Some mn \<Rightarrow>
             (ab\<lparr>ab_min_rps := mn\<rparr>, Inr [(''ok'', JBool True), (''previous_min_rps'', JF64 (ab_min_rps ab)),
                                         (''new_min_rps'', JF64 mn)]))
      else case strip_prefix ''constraint.'' action of
          None \<Rightarrow> (ab, Inl (InvalidAction action ''arbiter''))
        | Some rest \<Rightarrow> (case split_once CHR ''.'' rest of
            None \<Rightarrow> (ab, Inl (InvalidAction action ''constraint.{id}.{action}''))
          | Some (i, constraint_action) \<Rightarrow>
              (case update_first (\<lambda>c. Constraint_id c = i) (Constraint_apply_update constraint_action ps) (ab_constraints ab) of
                 None \<Rightarrow> (ab, Inl (ConstraintNotFound i))
               | Some (cs, r) \<Rightarrow> (ab\<lparr>ab_constraints := cs\<rparr>, r))))"

end
