(* ===== verification/Arbiter_Safety.thy ===== *)
theory Arbiter_Safety
  imports Arbiter
begin

text \<open>
  Safety of the arbiter: with ordered finite bounds no tick panics, every rate of the active phase is
  inside the bounds, and each policy (rate limits, floor, cooldown) guarantees its bound. The step
  relation at the end adds the external commands, and the invariant holds in every reachable state.
\<close>

section \<open>The policies applied to a selected rate\<close>

definition limits_ok :: "RateChangeLimits \<Rightarrow> bool" where
  "limits_ok l \<longleftrightarrow> 0 \<le> rcl_max_increase_pct l \<and> is_finite (rcl_max_increase_pct l) \<and> is_finite (1 + rcl_max_increase_pct l)
     \<and> 0 \<le> rcl_max_decrease_pct l \<and> is_finite (rcl_max_decrease_pct l)"

definition rate_ok :: "f64 \<Rightarrow> bool" where
  "rate_ok r \<longleftrightarrow> is_finite r \<and> 0 \<le> r"

lemma rate_ok_between: "min_r \<le> r \<Longrightarrow> r \<le> max_r \<Longrightarrow> rate_ok min_r \<Longrightarrow> rate_ok max_r \<Longrightarrow> rate_ok r"
  unfolding rate_ok_def by (meson finite_between fle_trans)

lemma limits_bracket:
  assumes "limits_ok l" "rate_ok cur"
  shows "cur * (lit 1 - rcl_max_decrease_pct l) \<le> cur" "cur \<le> cur * (lit 1 + rcl_max_increase_pct l)"
proof -
  have f: "is_finite (1 - rcl_max_decrease_pct l)" "is_finite (1 + rcl_max_increase_pct l)"
    using assms fdiff_finite[of 1] by (simp_all add: limits_ok_def fle_iff)
  have "1 - rcl_max_decrease_pct l \<le> 1" "1 \<le> 1 + rcl_max_increase_pct l"
    using assms(1) lit_mono[of "1 - key (rcl_max_decrease_pct l)" 1] lit_mono[of 1 "1 + key (rcl_max_increase_pct l)"]
    by (simp_all add: limits_ok_def fdiff_lit fadd_lit lit_01 fle_iff)
  then show "cur * (lit 1 - rcl_max_decrease_pct l) \<le> cur" "cur \<le> cur * (lit 1 + rcl_max_increase_pct l)"
    using f assms(2) by (simp_all add: fmul_le_self fmul_ge_self lit_01 rate_ok_def)
qed

lemma RateChangeLimits_clamp_Some:
  assumes "limits_ok l" "rate_ok cur"
  obtains r where "RateChangeLimits_clamp l desired cur = Some r"
    "\<not> is_nan desired \<Longrightarrow> cur * (lit 1 - rcl_max_decrease_pct l) \<le> r \<and> r \<le> cur * (lit 1 + rcl_max_increase_pct l)"
    "is_nan desired \<Longrightarrow> r = desired"
    "desired \<le> cur \<Longrightarrow> r \<le> cur"
    "\<not> is_nan desired \<Longrightarrow> r \<le> fmax desired (cur * (lit 1 - rcl_max_decrease_pct l))"
proof -
  note b = limits_bracket[OF assms]
  have "cur * (lit 1 - rcl_max_decrease_pct l) \<le> cur * (lit 1 + rcl_max_increase_pct l)"
    using b by (rule fle_trans)
  then obtain r where r: "RateChangeLimits_clamp l desired cur = Some r"
    using fclamp_Some unfolding RateChangeLimits_clamp_def Let_def by blast
  moreover have "desired \<le> cur \<Longrightarrow> r \<le> cur"
    using r b by (auto simp: RateChangeLimits_clamp_def Let_def fclamp_clamp_to clamp_to_def f64_order split: if_splits)
  moreover have "\<not> is_nan desired \<Longrightarrow> r \<le> fmax desired (cur * (lit 1 - rcl_max_decrease_pct l))"
    using r b by (auto simp: RateChangeLimits_clamp_def Let_def fclamp_clamp_to clamp_to_def fmax_def f64_order split: if_splits)
  ultimately show ?thesis using that fclamp_bounds fclamp_nan
    by (metis (no_types, lifting) RateChangeLimits_clamp_def)
qed

lemma apply_policies_bounds:
  assumes "limits_ok (ab_rate_change_limits ab)" "rate_ok (ab_current_rps ab)"
    "ab_min_rps ab \<le> ab_max_rps ab" "\<not> is_nan ceil"
  obtains r where "apply_policies ab ceil flr bc desired = Some r" "ab_min_rps ab \<le> r" "r \<le> ab_max_rps ab"
proof -
  obtain r1 where r1: "RateChangeLimits_clamp (ab_rate_change_limits ab) desired (ab_current_rps ab) = Some r1"
    using RateChangeLimits_clamp_Some[OF assms(1,2)] by metis
  let ?r3 = "if bc \<noteq> Some Catastrophic then fmax (fmin r1 ceil) flr else fmin r1 ceil"
  have "\<not> is_nan ?r3" using assms(4) by (simp add: fmax_nan fmin_nan)
  moreover obtain r where "fclamp ?r3 (ab_min_rps ab) (ab_max_rps ab) = Some r"
    using fclamp_Some[OF assms(3)] by blast
  ultimately show ?thesis using that[of r] fclamp_bounds r1 by (simp add: apply_policies_def)
qed

text \<open>What each policy guarantees of the rate that comes out.\<close>

lemma apply_policies_le:
  assumes "limits_ok (ab_rate_change_limits ab)" "rate_ok (ab_current_rps ab)"
    "ab_min_rps ab \<le> ab_max_rps ab" "\<not> is_nan ceil" "\<not> is_nan flr" "\<not> is_nan desired"
    "apply_policies ab ceil flr bc desired = Some r"
  shows "bc = Some Catastrophic \<Longrightarrow>
      r \<le> fmax (fmax desired (ab_current_rps ab * (lit 1 - rcl_max_decrease_pct (ab_rate_change_limits ab)))) (ab_min_rps ab)"
    "r \<le> fmax (fmax (ab_current_rps ab * (lit 1 + rcl_max_increase_pct (ab_rate_change_limits ab))) flr) (ab_min_rps ab)"
    "desired \<le> ab_current_rps ab \<Longrightarrow> r \<le> fmax (fmax (ab_current_rps ab) flr) (ab_min_rps ab)"
    "bc \<noteq> Some Catastrophic \<Longrightarrow> fmin flr (ab_max_rps ab) \<le> r"
    "r \<le> fmax (fmax ceil flr) (ab_min_rps ab)"
proof -
  obtain r1 where r1: "RateChangeLimits_clamp (ab_rate_change_limits ab) desired (ab_current_rps ab) = Some r1"
    "ab_current_rps ab * (lit 1 - rcl_max_decrease_pct (ab_rate_change_limits ab)) \<le> r1"
    "r1 \<le> ab_current_rps ab * (lit 1 + rcl_max_increase_pct (ab_rate_change_limits ab))"
    "desired \<le> ab_current_rps ab \<Longrightarrow> r1 \<le> ab_current_rps ab"
    "r1 \<le> fmax desired (ab_current_rps ab * (lit 1 - rcl_max_decrease_pct (ab_rate_change_limits ab)))"
    using RateChangeLimits_clamp_Some[OF assms(1,2), of desired] assms(6) by metis
  have r: "fclamp (if bc \<noteq> Some Catastrophic then fmax (fmin r1 ceil) flr else fmin r1 ceil) (ab_min_rps ab) (ab_max_rps ab) = Some r"
    using assms(7) r1(1) by (simp add: apply_policies_def Let_def)
  note d = r r1(2-) assms(3-6)
  show "bc = Some Catastrophic \<Longrightarrow>
      r \<le> fmax (fmax desired (ab_current_rps ab * (lit 1 - rcl_max_decrease_pct (ab_rate_change_limits ab)))) (ab_min_rps ab)"
    using d by (auto simp: fclamp_clamp_to clamp_to_def fmin_def fmax_def f64_order split: if_splits)
  show "r \<le> fmax (fmax (ab_current_rps ab * (lit 1 + rcl_max_increase_pct (ab_rate_change_limits ab))) flr) (ab_min_rps ab)"
    using d by (auto simp: fclamp_clamp_to clamp_to_def fmin_def fmax_def f64_order split: if_splits)
  show "desired \<le> ab_current_rps ab \<Longrightarrow> r \<le> fmax (fmax (ab_current_rps ab) flr) (ab_min_rps ab)"
    using d by (auto simp: fclamp_clamp_to clamp_to_def fmin_def fmax_def f64_order split: if_splits)
  show "bc \<noteq> Some Catastrophic \<Longrightarrow> fmin flr (ab_max_rps ab) \<le> r"
    using d by (auto simp: fclamp_clamp_to clamp_to_def fmin_def fmax_def f64_order split: if_splits)
  show "r \<le> fmax (fmax ceil flr) (ab_min_rps ab)"
    using d by (auto simp: fclamp_clamp_to clamp_to_def fmin_def fmax_def f64_order split: if_splits)
qed

section \<open>Ticks of the active phase\<close>

definition arbiter_ok :: "Arbiter \<Rightarrow> bool" where
  "arbiter_ok ab \<longleftrightarrow>
     rate_ok (ab_min_rps ab) \<and> rate_ok (ab_max_rps ab) \<and> ab_min_rps ab \<le> ab_max_rps ab
     \<and> rate_ok (ab_current_rps ab) \<and> rate_ok (ab_initial_rps ab)
     \<and> limits_ok (ab_rate_change_limits ab)
     \<and> rate_ok (pc_start_value (ab_ceiling ab)) \<and> rate_ok (pc_end_value (ab_ceiling ab))
     \<and> (\<forall>rps dur. ab_warmup_config ab = Some (rps, dur) \<longrightarrow> rate_ok rps)
     \<and> (case ab_phase ab of
          Exploration em \<Rightarrow> rate_ok (em_initial_rps em)
        | Warmup rps _ _ _ \<Rightarrow> rate_ok rps
        | Active \<Rightarrow> True)"

text \<open>The evaluation context and the composition of one active tick.\<close>

definition tick_context :: "MetricsSummary \<Rightarrow> Arbiter \<Rightarrow> EvalContext" where
  "tick_context summary ab = \<lparr>ctx_summary = summary, ctx_current_rate = ab_current_rps ab,
     ctx_ticks_since_increase = ab_ticks_since_increase ab,
     ctx_min_rps = ab_min_rps ab, ctx_max_rps = ab_max_rps ab\<rparr>"

definition tick_evals :: "libm \<Rightarrow> MetricsSummary \<Rightarrow> Arbiter \<Rightarrow> ConstraintEval list" where
  "tick_evals m summary ab =
     (let evaluated = map (\<lambda>c. Constraint_evaluate m c (tick_context summary ab)) (ab_constraints ab)
      in constraint_evals (map fst evaluated) (map snd evaluated))"

definition tick_result :: "libm \<Rightarrow> MetricsSummary \<Rightarrow> Arbiter \<Rightarrow> CompositionResult" where
  "tick_result m summary ab =
     compose (ab_strategy ab) (tick_evals m summary ab)
       (abstainer_count (map (\<lambda>c. snd (Constraint_evaluate m c (tick_context summary ab))) (ab_constraints ab)))
       (IncreasePolicy_compute (ab_current_rps ab) (ab_cooldown ab) (ab_increase ab))"

definition tick_floor :: "instant \<Rightarrow> Arbiter \<Rightarrow> f64" where
  "tick_floor now ab = known_good_floor (ab_min_rps ab) (known_good_update now (ab_current_rps ab) (ab_known_good ab))"

definition tick_binding_class :: "libm \<Rightarrow> MetricsSummary \<Rightarrow> Arbiter \<Rightarrow> ConstraintClass option" where
  "tick_binding_class m summary ab =
     map_option (\<lambda>i. Constraint_class (ab_constraints ab ! i)) (cr_binding (tick_result m summary ab))"

definition tick_backoff :: "libm \<Rightarrow> MetricsSummary \<Rightarrow> Arbiter \<Rightarrow> bool" where
  "tick_backoff m summary ab \<longleftrightarrow> cr_binding (tick_result m summary ab) \<noteq> None
     \<and> cr_rate (tick_result m summary ab) < ab_current_rps ab * ab_backoff_detection_threshold ab"

lemma Constraint_class_evaluate [simp]: "Constraint_class (fst (Constraint_evaluate m c ctx)) = Constraint_class c"
  using dync.evaluate_identity[of m c ctx] by simp

lemma Constraint_id_evaluate [simp]: "Constraint_id (fst (Constraint_evaluate m c ctx)) = Constraint_id c"
  using dync.evaluate_identity[of m c ctx] by simp

lemma constraint_evals_index: "e \<in> set (constraint_evals cs outs) \<Longrightarrow> ce_constraint_index e < length cs"
  by (auto simp: constraint_evals_def List.map_filter_def in_set_enumerate_eq
      split: option.splits ConstraintIntent.splits)

lemma tick_binding_index:
  assumes "cr_binding (tick_result m summary ab) = Some i" shows "i < length (ab_constraints ab)"
proof -
  obtain e where "e \<in> set (tick_evals m summary ab)" "ce_constraint_index e = i"
    using assms compose_binding unfolding tick_result_def by metis
  then show ?thesis using constraint_evals_index by (fastforce simp: tick_evals_def Let_def)
qed

text \<open>One active tick, seen from outside.\<close>

lemma tick_result_fold:
  "compose (ab_strategy ab) (constraint_evals
       (map fst (map (\<lambda>c. Constraint_evaluate m c (tick_context summary ab)) (ab_constraints ab)))
       (map snd (map (\<lambda>c. Constraint_evaluate m c (tick_context summary ab)) (ab_constraints ab))))
     (abstainer_count (map snd (map (\<lambda>c. Constraint_evaluate m c (tick_context summary ab)) (ab_constraints ab))))
     (IncreasePolicy_compute (ab_current_rps ab) (ab_cooldown ab) (ab_increase ab)) = tick_result m summary ab"
  by (simp add: tick_result_def tick_evals_def Let_def comp_def)

lemma tick_binding_class_fold:
  "map_option (\<lambda>i. Constraint_class (map fst (map (\<lambda>c. Constraint_evaluate m c (tick_context summary ab)) (ab_constraints ab)) ! i))
     (cr_binding (tick_result m summary ab)) = tick_binding_class m summary ab"
  using tick_binding_index[of m summary ab]
  by (cases "cr_binding (tick_result m summary ab)") (simp_all add: tick_binding_class_def)

lemma active_tick_None:
  "active_tick m now summary ab = None \<longleftrightarrow>
   apply_policies ab (ceiling_value now (ab_ceiling ab)) (tick_floor now ab)
     (tick_binding_class m summary ab) (cr_rate (tick_result m summary ab)) = None"
  unfolding active_tick_def Let_def tick_context_def[symmetric] tick_result_fold tick_binding_class_fold tick_floor_def[symmetric]
  by (simp split: option.split)

lemma active_tick_Some:
  assumes "active_tick m now summary ab = Some (ab', d)"
  shows "apply_policies ab (ceiling_value now (ab_ceiling ab)) (tick_floor now ab)
     (tick_binding_class m summary ab) (cr_rate (tick_result m summary ab)) = Some (target_rps d)"
    "ab_current_rps ab' = target_rps d"
    "ab_cooldown ab' = (if tick_backoff m summary ab
       then cooldown_engage (map (\<lambda>e. ab_constraints ab' ! ce_constraint_index e)
         (filter (\<lambda>e. ce_desired_rate e < ab_current_rps ab * ab_backoff_detection_threshold ab) (tick_evals m summary ab)))
         (ab_cooldown ab)
       else cooldown_tick (ab_cooldown ab))"
    "ab_known_good ab' = known_good_update now (ab_current_rps ab) (ab_known_good ab)"
  using assms
  unfolding active_tick_def Let_def tick_context_def[symmetric] tick_result_fold tick_binding_class_fold tick_floor_def[symmetric]
  by (auto simp: tick_backoff_def tick_evals_def Let_def split: option.splits)

lemma active_tick_frame:
  assumes "active_tick m now summary ab = Some (ab', d)"
  shows "ab_min_rps ab' = ab_min_rps ab" "ab_max_rps ab' = ab_max_rps ab" "ab_phase ab' = ab_phase ab"
    "ab_rate_change_limits ab' = ab_rate_change_limits ab" "ab_initial_rps ab' = ab_initial_rps ab"
    "ab_warmup_config ab' = ab_warmup_config ab"
    "ab_ceiling ab' = fst (check_milestone now (ab_ceiling ab))"
    "length (ab_constraints ab') = length (ab_constraints ab)"
  using assms unfolding active_tick_def Let_def by (auto split: option.splits)

lemma check_milestone_frame [simp]:
  "pc_start_value (fst (check_milestone now c)) = pc_start_value c"
  "pc_end_value (fst (check_milestone now c)) = pc_end_value c"
  "pc_start_time (fst (check_milestone now c)) = pc_start_time c"
  by (simp_all add: check_milestone_def Let_def)

lemma arbiter_ok_ceiling: "arbiter_ok ab \<Longrightarrow> \<not> is_nan (ceiling_value now (ab_ceiling ab))"
  by (rule ceiling_value_not_nan) (simp_all add: arbiter_ok_def rate_ok_def)

lemma active_tick_safe:
  assumes ok: "arbiter_ok ab"
  obtains ab' d where "active_tick m now summary ab = Some (ab', d)" "arbiter_ok ab'"
    "ab_min_rps ab \<le> target_rps d" "target_rps d \<le> ab_max_rps ab"
proof -
  from ok have pre: "limits_ok (ab_rate_change_limits ab)" "rate_ok (ab_current_rps ab)" "ab_min_rps ab \<le> ab_max_rps ab"
    by (simp_all add: arbiter_ok_def)
  obtain r where r: "apply_policies ab (ceiling_value now (ab_ceiling ab)) (tick_floor now ab)
      (tick_binding_class m summary ab) (cr_rate (tick_result m summary ab)) = Some r"
    "ab_min_rps ab \<le> r" "r \<le> ab_max_rps ab"
    using apply_policies_bounds[OF pre arbiter_ok_ceiling[OF ok, of now]] by metis
  then obtain ab' d where t: "active_tick m now summary ab = Some (ab', d)"
    using active_tick_None[of m now summary ab] by (cases "active_tick m now summary ab") auto
  have "target_rps d = r" using active_tick_Some(1)[OF t] r(1) by simp
  moreover from this have "arbiter_ok ab'"
    using ok r(2,3) active_tick_Some(2)[OF t] active_tick_frame[OF t] rate_ok_between[OF r(2,3)]
    by (simp add: arbiter_ok_def)
  ultimately show ?thesis using that[OF t] r(2,3) by simp
qed

section \<open>Ticks of the other phases\<close>

lemma warmup_tick_safe:
  assumes ok: "arbiter_ok ab" and ph: "ab_phase ab = Warmup rps dur start samples"
  obtains ab' d where "warmup_tick m now summary ab = Some (ab', d)" "arbiter_ok ab'" "rate_ok (target_rps d)"
    "ab_phase ab' = Active \<Longrightarrow> ab_min_rps ab \<le> target_rps d \<and> target_rps d \<le> ab_max_rps ab"
    "ab_phase ab' \<noteq> Active \<Longrightarrow> target_rps d = rps"
proof -
  let ?p99 = "f64_of_word (ms_latency_p99_ns summary) / lit 1000000"
  define ss where "ss = (if ms_total_requests summary > 0 \<and> ?p99 > lit 0 then samples @ [?p99] else samples)"
  show ?thesis
  proof (cases "duration_since now start \<ge> dur \<and> length ss \<ge> 3")
    case True
    define b where "b = \<lparr>wb_baseline_p99_ms = f64_sort ss ! (length (f64_sort ss) div 2), wb_sample_count = length (f64_sort ss)\<rparr>"
    define ab1 where "ab1 = ab\<lparr>ab_constraints := map (Constraint_on_warmup_complete b) (ab_constraints ab),
        ab_ceiling := ceiling_start_now now (ab_ceiling ab),
        ab_known_good := KnownGoodTracker_new (kg_floor_fraction (ab_known_good ab)) (kg_window (ab_known_good ab)) rps now,
        ab_phase := Active\<rparr>"
    have ok1: "arbiter_ok ab1" using ok by (simp add: arbiter_ok_def ab1_def ceiling_start_now_def)
    have t: "warmup_tick m now summary ab = active_tick m now summary ab1"
      using True ph by (simp add: warmup_tick_def Let_def ab1_def b_def ss_def)
    obtain ab' d where a: "active_tick m now summary ab1 = Some (ab', d)" "arbiter_ok ab'"
      "ab_min_rps ab1 \<le> target_rps d" "target_rps d \<le> ab_max_rps ab1"
      using active_tick_safe[OF ok1] by metis
    have "ab_phase ab' = Active" using active_tick_frame(3)[OF a(1)] by (simp add: ab1_def)
    moreover have "rate_ok (target_rps d)"
      using a(3,4) ok1 by (auto simp: arbiter_ok_def intro: rate_ok_between)
    ultimately show ?thesis using that[of ab' d] t a by (simp add: ab1_def)
  next
    case False
    define ab' where "ab' = ab\<lparr>ab_phase := Warmup rps dur start ss\<rparr>"
    have t: "warmup_tick m now summary ab = Some (ab', \<lparr>target_rps = rps\<rparr>)"
      using False ph by (auto simp: warmup_tick_def Let_def ab'_def ss_def)
    moreover have "arbiter_ok ab'" using ok ph by (simp add: arbiter_ok_def ab'_def)
    moreover have "rate_ok rps" using ok ph by (simp add: arbiter_ok_def)
    ultimately show ?thesis using that[OF t] by (simp add: ab'_def)
  qed
qed

lemma finish_exploration_ok:
  assumes "arbiter_ok ab" "ab_phase ab = Exploration em"
  shows "arbiter_ok (finish_exploration now ab)"
    "ab_phase (finish_exploration now ab) = Active \<or> (\<exists>rps dur. ab_phase (finish_exploration now ab) = Warmup rps dur now [])"
    "ab_current_rps (finish_exploration now ab) = (case ab_warmup_config ab of Some (rps, _) \<Rightarrow> rps | None \<Rightarrow> ab_initial_rps ab)"
  using assms
  by (auto simp: arbiter_ok_def finish_exploration_def transition_post_exploration_def ceiling_start_now_def
      split: option.splits)

lemma exploration_scan_rate:
  "exploration_scan m ctx cs r ab = (cs', r', ab') \<Longrightarrow> \<not> is_nan r \<Longrightarrow> \<not> is_nan r' \<and> r' \<le> r"
proof (induction cs arbitrary: r ab cs' r' ab')
  case (Cons c cs)
  show ?case
  proof (cases "Constraint_requires_exploration c \<or> Constraint_class c \<noteq> Catastrophic")
    case True
    then show ?thesis using Cons by (auto simp: map_prod_def split: prod.splits)
  next
    case False
    obtain c1 out where e: "Constraint_evaluate m c ctx = (c1, out)" by force
    obtain r1 ab1 cs1 where s: "exploration_scan m ctx cs r1 ab1 = (cs1, r', ab')" "r1 = r \<or> (\<exists>d. r1 = fmin r d)"
      using False e Cons.prems(1)
      by (auto simp: map_prod_def Let_def split: prod.splits option.splits ConstraintIntent.splits if_splits)
    have "\<not> is_nan r1 \<and> r1 \<le> r" using s(2) Cons.prems(2) by (auto simp: fmin_nan fmin_le)
    then show ?thesis using Cons.IH[OF s(1)] fle_trans by blast
  qed
qed simp

lemma exploration_tick_safe:
  assumes ok: "arbiter_ok ab" and ph: "ab_phase ab = Exploration em"
  obtains ab' d where "exploration_tick m now summary ab = Some (ab', d)" "arbiter_ok ab'" "rate_ok (target_rps d)"
proof -
  obtain em' tr where em: "exploration_manager_tick summary em = (em', tr)" by force
  have irps: "em_initial_rps em' = em_initial_rps em" using tick_frame(3)[of summary em] em by simp
  define ab1 where "ab1 = ab\<lparr>ab_phase := Exploration em'\<rparr>"
  have ok1: "arbiter_ok ab1" using ok ph irps by (simp add: arbiter_ok_def ab1_def)
  show ?thesis
  proof (cases tr)
    case (Some rate)
    then have "rate = em_initial_rps em * lit 0.5 \<or> rate = em_initial_rps em" using tick_rate[of summary em] em by simp
    moreover have "rate_ok (em_initial_rps em)" using ok ph by (simp add: arbiter_ok_def)
    moreover have "is_finite (lit 0.5)" by (simp add: f64_eval)
    ultimately have nan: "\<not> is_nan rate"
      using finite_ops_not_nan(3)[of "em_initial_rps em" "lit 0.5"] by (auto simp: rate_ok_def finite_not_nan)
    define ctx where "ctx = \<lparr>ctx_summary = summary, ctx_current_rate = ab_current_rps ab1,
      ctx_ticks_since_increase = 0, ctx_min_rps = ab_min_rps ab1, ctx_max_rps = ab_max_rps ab1\<rparr>"
    obtain cs safe abort where sc: "exploration_scan m ctx (ab_constraints ab1) rate False = (cs, safe, abort)" by (metis prod_cases3)
    have safe: "\<not> is_nan safe" using exploration_scan_rate[OF sc nan] by simp
    have le: "ab_min_rps ab1 \<le> ab_max_rps ab1" using ok1 by (simp add: arbiter_ok_def)
    then obtain r where r: "fclamp safe (ab_min_rps ab1) (ab_max_rps ab1) = Some r" using fclamp_Some by blast
    have rok: "rate_ok r" using fclamp_bounds[OF r safe] ok1 rate_ok_between by (auto simp: arbiter_ok_def)
    define ab2 where "ab2 = ab1\<lparr>ab_constraints := cs, ab_current_rps := r\<rparr>"
    have ok2: "arbiter_ok ab2" using ok1 rok by (simp add: arbiter_ok_def ab2_def)
    have ph2: "ab_phase ab2 = Exploration em'" by (simp add: ab2_def ab1_def)
    define ab3 where "ab3 = (if abort then finish_exploration now ab2 else ab2)"
    have "arbiter_ok ab3" using ok2 finish_exploration_ok(1)[OF ok2 ph2] by (simp add: ab3_def)
    then show ?thesis using that[of ab3 "\<lparr>target_rps = ab_current_rps ab3\<rparr>"] Some em ph sc r
      by (auto simp: exploration_tick_def Let_def ab1_def[symmetric] ctx_def[symmetric] ab2_def[symmetric] ab3_def[symmetric] arbiter_ok_def)
  next
    case None
    note f = finish_exploration_ok[OF ok1, of em' now]
    have ph1: "ab_phase ab1 = Exploration em'" by (simp add: ab1_def)
    define ab2 where "ab2 = finish_exploration now ab1"
    have ok2: "arbiter_ok ab2" using f(1) ph1 by (simp add: ab2_def)
    have e: "exploration_tick m now summary ab = (case ab_phase ab2 of
        Warmup _ _ _ _ \<Rightarrow> warmup_tick m now summary ab2 | Active \<Rightarrow> active_tick m now summary ab2 | Exploration _ \<Rightarrow> None)"
      using None em ph by (simp add: exploration_tick_def Let_def ab1_def[symmetric] ab2_def[symmetric])
    from f(2) ph1 consider "ab_phase ab2 = Active" | rps dur where "ab_phase ab2 = Warmup rps dur now []"
      by (auto simp: ab2_def)
    then show ?thesis
    proof cases
      case 1
      then show ?thesis using that active_tick_safe[OF ok2, of m now summary] e ok2 rate_ok_between
        by (simp add: arbiter_ok_def) (metis)
    next
      case 2
      then show ?thesis using that warmup_tick_safe[OF ok2 2, of m now summary] e by simp metis
    qed
  qed
qed

section \<open>Every reachable state\<close>

text \<open>
  The calls the coordinator makes on a controller: a control tick, the external rate override, and the
  runtime updates of the API. An update to a new minimum is admissible when it is a number between zero
  and the maximum, an update to a new maximum when it is a finite number; the code checks neither.
\<close>

lemma Arbiter_update_safe:
  assumes "arbiter_ok ab"
  obtains ab' d where "Arbiter_update m now summary ab = Some (ab', d)" "arbiter_ok ab'" "rate_ok (target_rps d)"
    "ab_phase ab = Active \<Longrightarrow> ab_min_rps ab \<le> target_rps d \<and> target_rps d \<le> ab_max_rps ab"
proof (cases "ab_phase ab")
  case (Exploration em)
  then show ?thesis using that exploration_tick_safe[OF assms Exploration, of m now summary]
    by (simp add: Arbiter_update_def) metis
next
  case (Warmup rps dur start samples)
  then show ?thesis using that warmup_tick_safe[OF assms Warmup, of m now summary]
    by (simp add: Arbiter_update_def) metis
next
  case Active
  then show ?thesis using that active_tick_safe[OF assms, of m now summary] assms rate_ok_between
    by (simp add: Arbiter_update_def arbiter_ok_def) metis
qed

lemma Arbiter_set_rate_safe:
  assumes "arbiter_ok ab" "\<not> is_nan rps"
  obtains ab' where "Arbiter_set_rate now rps ab = Some ab'" "arbiter_ok ab'"
proof -
  obtain r where r: "fclamp rps (ab_min_rps ab) (ab_max_rps ab) = Some r"
    using fclamp_Some[of "ab_min_rps ab" "ab_max_rps ab" rps] assms(1) by (auto simp: arbiter_ok_def)
  have "rate_ok r" using fclamp_bounds[OF r assms(2)] assms(1) rate_ok_between by (auto simp: arbiter_ok_def)
  then have ok1: "arbiter_ok (ab\<lparr>ab_current_rps := r\<rparr>)" "arbiter_ok (notify_rate_override (ab\<lparr>ab_current_rps := r\<rparr>))"
    using assms(1) by (simp_all add: arbiter_ok_def notify_rate_override_def)
  define ab2 where "ab2 = (if \<bar>r - ab_current_rps ab\<bar> > f64_epsilon then notify_rate_override (ab\<lparr>ab_current_rps := r\<rparr>) else ab\<lparr>ab_current_rps := r\<rparr>)"
  have "arbiter_ok ab2" using ok1 by (simp add: ab2_def)
  then have "arbiter_ok (case ab_phase ab2 of Exploration _ \<Rightarrow> finish_exploration now ab2 | _ \<Rightarrow> ab2)"
    using finish_exploration_ok(1) by (auto split: ArbiterPhase.split)
  moreover have "Arbiter_set_rate now rps ab = Some (case ab_phase ab2 of Exploration _ \<Rightarrow> finish_exploration now ab2 | _ \<Rightarrow> ab2)"
    unfolding Arbiter_set_rate_def Let_def ab2_def r by simp
  ultimately show ?thesis using that by blast
qed

inductive arbiter_step :: "libm \<Rightarrow> Arbiter \<Rightarrow> Arbiter \<Rightarrow> bool" for m where
  tick: "Arbiter_update m now summary ab = Some (ab', d) \<Longrightarrow> arbiter_step m ab ab'"
| override: "\<lbrakk>Arbiter_set_rate now rps ab = Some ab'; \<not> is_nan rps\<rbrakk> \<Longrightarrow> arbiter_step m ab ab'"
| set_max: "\<lbrakk>Arbiter_apply_update ''set_max_rps'' ps ab = (ab', r); \<And>v. p_f64 ps ''max_rps'' = Some v \<Longrightarrow> is_finite v\<rbrakk>
    \<Longrightarrow> arbiter_step m ab ab'"
| set_min: "\<lbrakk>Arbiter_apply_update ''set_min_rps'' ps ab = (ab', r);
      \<And>v. p_f64 ps ''min_rps'' = Some v \<Longrightarrow> 0 \<le> v \<and> v \<le> ab_max_rps ab\<rbrakk> \<Longrightarrow> arbiter_step m ab ab'"
| constraint: "Arbiter_apply_update (''constraint.'' @ action) ps ab = (ab', r) \<Longrightarrow> arbiter_step m ab ab'"

lemma apply_update_set_max_ok:
  assumes "arbiter_ok ab" "Arbiter_apply_update ''set_max_rps'' ps ab = (ab', r)"
    "\<And>v. p_f64 ps ''max_rps'' = Some v \<Longrightarrow> is_finite v"
  shows "arbiter_ok ab'"
proof (cases "p_f64 ps ''max_rps''")
  case None
  then show ?thesis using assms(1,2) by (auto simp: Arbiter_apply_update_def)
next
  case (Some v)
  have fin: "is_finite v" "is_finite (ab_min_rps ab)" "0 \<le> ab_min_rps ab" using assms(1,3) Some by (auto simp: arbiter_ok_def rate_ok_def)
  then have "is_finite (fmax v (ab_min_rps ab))" "ab_min_rps ab \<le> fmax v (ab_min_rps ab)"
    by (simp_all add: fmax_finite fmax_ge finite_not_nan)
  then have "rate_ok (fmax v (ab_min_rps ab))" "ab_min_rps ab \<le> fmax v (ab_min_rps ab)"
    using fin(3) fle_trans by (auto simp: rate_ok_def)
  then show ?thesis using assms(1,2) Some
    by (auto simp: Arbiter_apply_update_def Arbiter_set_max_rps_def Let_def set_end_value_def arbiter_ok_def)
qed

lemma apply_update_set_min_ok:
  assumes "arbiter_ok ab" "Arbiter_apply_update ''set_min_rps'' ps ab = (ab', r)"
    "\<And>v. p_f64 ps ''min_rps'' = Some v \<Longrightarrow> 0 \<le> v \<and> v \<le> ab_max_rps ab"
  shows "arbiter_ok ab'"
proof (cases "p_f64 ps ''min_rps''")
  case None
  then show ?thesis using assms(1,2) by (auto simp: Arbiter_apply_update_def)
next
  case (Some v)
  have v: "0 \<le> v" "v \<le> ab_max_rps ab" using assms(3) Some by auto
  then have "rate_ok v" using assms(1) finite_between[of 0 v "ab_max_rps ab"] by (auto simp: arbiter_ok_def rate_ok_def)
  then show ?thesis using assms(1,2) Some v by (auto simp: Arbiter_apply_update_def arbiter_ok_def)
qed

lemma apply_update_constraint_ok:
  assumes "arbiter_ok ab" "Arbiter_apply_update (''constraint.'' @ action) ps ab = (ab', r)"
  shows "arbiter_ok ab'"
proof -
  have "ab' = ab \<or> (\<exists>cs. ab' = ab\<lparr>ab_constraints := cs\<rparr>)"
    using assms(2) by (auto simp: Arbiter_apply_update_def split: option.splits prod.splits)
  then show ?thesis using assms(1) by (auto simp: arbiter_ok_def)
qed

lemma arbiter_step_ok: "arbiter_step m ab ab' \<Longrightarrow> arbiter_ok ab \<Longrightarrow> arbiter_ok ab'"
proof (induction rule: arbiter_step.induct)
  case (tick now summary ab ab' d)
  then show ?case using Arbiter_update_safe[of ab m now summary] by (metis Pair_inject option.inject)
next
  case (override now rps ab ab')
  then show ?case using Arbiter_set_rate_safe[of ab rps now] by (metis option.inject)
qed (blast intro: apply_update_set_max_ok apply_update_set_min_ok apply_update_constraint_ok)+

lemma arbiter_reachable_ok: "(arbiter_step m)\<^sup>*\<^sup>* ab ab' \<Longrightarrow> arbiter_ok ab \<Longrightarrow> arbiter_ok ab'"
  by (induction rule: rtranclp_induct) (auto dest: arbiter_step_ok)

section \<open>Intents of an active tick\<close>

lemma constraint_evals_desire:
  assumes "e \<in> set (constraint_evals cs outs)"
  obtains i out where "i < length outs" "outs ! i = Some out"
    "co_intent out = HoldAt (ce_desired_rate e) \<or> co_intent out = DesireRate (ce_desired_rate e)"
  using assms
  by (auto simp: constraint_evals_def List.map_filter_def in_set_enumerate_eq
      split: option.splits ConstraintIntent.splits)

lemma tick_evals_desire:
  assumes "e \<in> set (tick_evals m summary ab)"
  obtains c c' out where "c \<in> set (ab_constraints ab)"
    "Constraint_evaluate m c (tick_context summary ab) = (c', Some out)"
    "co_intent out = HoldAt (ce_desired_rate e) \<or> co_intent out = DesireRate (ce_desired_rate e)"
proof -
  obtain i out where i: "i < length (ab_constraints ab)"
    "snd (Constraint_evaluate m (ab_constraints ab ! i) (tick_context summary ab)) = Some out"
    "co_intent out = HoldAt (ce_desired_rate e) \<or> co_intent out = DesireRate (ce_desired_rate e)"
    using assms constraint_evals_desire unfolding tick_evals_def Let_def
    by (smt (verit) length_map nth_map)
  then show ?thesis using that[of "ab_constraints ab ! i"] by (metis nth_mem prod.collapse)
qed

text \<open>Arbiters whose constraints are all of the threshold kind, with proper backoff factors.\<close>

fun threshold_constraint :: "Constraint \<Rightarrow> bool" where
  "threshold_constraint (Threshold c) \<longleftrightarrow> schedule_ok (th_backoff c)"
| "threshold_constraint (Pid c) \<longleftrightarrow> False"

lemma threshold_tick_evals:
  assumes "\<forall>c \<in> set (ab_constraints ab). threshold_constraint c" "rate_ok (ab_current_rps ab)"
    "e \<in> set (tick_evals m summary ab)"
  shows "0 \<le> ce_desired_rate e \<and> ce_desired_rate e \<le> ab_current_rps ab"
proof -
  obtain c c' out where c: "c \<in> set (ab_constraints ab)"
    "Constraint_evaluate m c (tick_context summary ab) = (c', Some out)"
    "co_intent out = HoldAt (ce_desired_rate e) \<or> co_intent out = DesireRate (ce_desired_rate e)"
    using tick_evals_desire[OF assms(3)] by metis
  obtain t where t: "c = Threshold t" "schedule_ok (th_backoff t)" using assms(1) c(1) by (cases c) auto
  have ctx: "ctx_current_rate (tick_context summary ab) = ab_current_rps ab" by (simp add: tick_context_def)
  obtain t' where ev: "threshold_evaluate t (tick_context summary ab) = (t', Some out)"
    using c(2) t(1) by (auto simp: map_prod_def split: prod.splits)
  show ?thesis using c(3) th.evaluate_hold[OF t(2) ev] th.evaluate_desire[OF t(2) ev] assms(2)
    by (auto simp: ctx rate_ok_def finite_not_nan)
qed

lemma threshold_tick_result:
  assumes "\<forall>c \<in> set (ab_constraints ab). threshold_constraint c" "rate_ok (ab_current_rps ab)"
  shows "tick_evals m summary ab \<noteq> [] \<Longrightarrow> cr_rate (tick_result m summary ab) \<le> ab_current_rps ab"
    "cooldown_is_active (ab_cooldown ab) \<Longrightarrow> cr_rate (tick_result m summary ab) \<le> ab_current_rps ab"
proof -
  show *: "cr_rate (tick_result m summary ab) \<le> ab_current_rps ab" if ne: "tick_evals m summary ab \<noteq> []"
  proof -
    obtain e where "e \<in> set (tick_evals m summary ab)" using ne by (cases "tick_evals m summary ab") auto
    moreover have "\<forall>x \<in> set (tick_evals m summary ab). \<not> is_nan (ce_desired_rate x)"
      using threshold_tick_evals[OF assms] fle_not_nan by blast
    ultimately have "cr_rate (tick_result m summary ab) \<le> ce_desired_rate e"
      unfolding tick_result_def by (rule compose_le)
    then show ?thesis using threshold_tick_evals[OF assms \<open>e \<in> _\<close>] fle_trans by blast
  qed
  assume cd: "cooldown_is_active (ab_cooldown ab)"
  have "\<not> is_nan (ab_current_rps ab)" using assms(2) by (simp add: rate_ok_def finite_not_nan)
  then show "cr_rate (tick_result m summary ab) \<le> ab_current_rps ab"
    using * cd by (cases "tick_evals m summary ab = []")
      (simp_all add: tick_result_def compose_default IncreasePolicy_compute_def)
qed

lemma tick_floor_not_nan: "arbiter_ok ab \<Longrightarrow> \<not> is_nan (tick_floor now ab)"
  by (simp add: tick_floor_def known_good_floor_def fmax_nan arbiter_ok_def rate_ok_def finite_not_nan)

lemma active_tick_policies:
  assumes ok: "arbiter_ok ab" and t: "active_tick m now summary ab = Some (ab', d)"
    and n: "\<not> is_nan (cr_rate (tick_result m summary ab))"
  shows "tick_binding_class m summary ab = Some Catastrophic \<Longrightarrow>
      target_rps d \<le> fmax (fmax (cr_rate (tick_result m summary ab))
        (ab_current_rps ab * (lit 1 - rcl_max_decrease_pct (ab_rate_change_limits ab)))) (ab_min_rps ab)"
    "target_rps d \<le> fmax (fmax (ab_current_rps ab * (lit 1 + rcl_max_increase_pct (ab_rate_change_limits ab))) (tick_floor now ab)) (ab_min_rps ab)"
    "cr_rate (tick_result m summary ab) \<le> ab_current_rps ab \<Longrightarrow>
      target_rps d \<le> fmax (fmax (ab_current_rps ab) (tick_floor now ab)) (ab_min_rps ab)"
    "tick_binding_class m summary ab \<noteq> Some Catastrophic \<Longrightarrow> fmin (tick_floor now ab) (ab_max_rps ab) \<le> target_rps d"
    "target_rps d \<le> fmax (fmax (ceiling_value now (ab_ceiling ab)) (tick_floor now ab)) (ab_min_rps ab)"
proof -
  from ok have pre: "limits_ok (ab_rate_change_limits ab)" "rate_ok (ab_current_rps ab)" "ab_min_rps ab \<le> ab_max_rps ab"
    by (simp_all add: arbiter_ok_def)
  note p = apply_policies_le[OF pre arbiter_ok_ceiling[OF ok] tick_floor_not_nan[OF ok] n active_tick_Some(1)[OF t]]
  show "tick_binding_class m summary ab = Some Catastrophic \<Longrightarrow>
      target_rps d \<le> fmax (fmax (cr_rate (tick_result m summary ab))
        (ab_current_rps ab * (lit 1 - rcl_max_decrease_pct (ab_rate_change_limits ab)))) (ab_min_rps ab)"
    "target_rps d \<le> fmax (fmax (ab_current_rps ab * (lit 1 + rcl_max_increase_pct (ab_rate_change_limits ab))) (tick_floor now ab)) (ab_min_rps ab)"
    "cr_rate (tick_result m summary ab) \<le> ab_current_rps ab \<Longrightarrow>
      target_rps d \<le> fmax (fmax (ab_current_rps ab) (tick_floor now ab)) (ab_min_rps ab)"
    "tick_binding_class m summary ab \<noteq> Some Catastrophic \<Longrightarrow> fmin (tick_floor now ab) (ab_max_rps ab) \<le> target_rps d"
    "target_rps d \<le> fmax (fmax (ceiling_value now (ab_ceiling ab)) (tick_floor now ab)) (ab_min_rps ab)"
    by (rule p; assumption)+
qed

lemma cooldown_engage_min: "cd_min_ticks cd \<le> cd_remaining (cooldown_engage cs cd)"
  by (simp add: cooldown_engage_def Let_def)

text \<open>A default configuration is well-formed.\<close>

lemma limits_ok_default [simp]: "limits_ok RateChangeLimitsConfig_default"
proof -
  have l: "lit 0 \<le> lit 0.2" "lit 0.2 \<le> lit 1" by (auto intro!: lit_mono)
  then have f: "is_finite (lit 0.2)" using finite_between[of "lit 0" "lit 0.2" "lit 1"] by (simp add: lit_01)
  have "\<bar>1 + key (lit 0.2)\<bar> \<le> \<bar>key (lit 2)\<bar>" using l by (simp add: fle_iff lit_01 f64_eval)
  then have "is_finite (1 + lit 0.2)" using f finite_lit_le[of "lit 2"] by (simp add: fadd_lit f64_eval)
  then show ?thesis using l f by (simp add: limits_ok_def RateChangeLimitsConfig_default_def lit_01 f64_eval)
qed

section \<open>Properties\<close>

text \<open>Concrete values for the witnesses: an arbiter with one timeout constraint, and a stand-in for the mathematical library.\<close>

definition demo_libm :: libm where
  "demo_libm = \<lparr>libm_ln = (\<lambda>x. x), libm_exp = (\<lambda>x. fmax x 0)\<rparr>"

definition demo_arbiter :: Arbiter where
  "demo_arbiter = Arbiter_new False 0
     (ArbiterConfig_new [Threshold (ThresholdConstraint_timeout (lit 5))] (lit 100) (lit 10) (lit 1000) (secs 60))"

lemma demo_arbiter_fields [simp]:
  "ab_phase demo_arbiter = Active" "ab_current_rps demo_arbiter = lit 100" "ab_min_rps demo_arbiter = lit 10"
  "ab_max_rps demo_arbiter = lit 1000" "ab_initial_rps demo_arbiter = lit 100" "ab_warmup_config demo_arbiter = None"
  "ab_constraints demo_arbiter = [Threshold (ThresholdConstraint_timeout (lit 5))]"
  "ab_rate_change_limits demo_arbiter = RateChangeLimitsConfig_default"
  "pc_start_value (ab_ceiling demo_arbiter) = lit 100" "pc_end_value (ab_ceiling demo_arbiter) = lit 1000"
  "cd_remaining (ab_cooldown demo_arbiter) = 0" "cd_min_ticks (ab_cooldown demo_arbiter) = 2"
  by (simp_all add: demo_arbiter_def Arbiter_new_def ArbiterConfig_new_def Let_def ProgressiveCeiling_started_def CooldownState_new_def)

lemma demo_arbiter_ok: "arbiter_ok demo_arbiter"
  by (simp add: arbiter_ok_def rate_ok_def f64_eval flip: lit_01)

text \<open>
  C1. From a well-formed arbiter, after any sequence of control ticks, rate overrides and admissible
  runtime updates, the next tick of the active phase does not panic, and the rate it returns lies
  between the configured minimum and maximum, whatever the constraints, the metrics, the clock and the
  mathematical library do.
\<close>

theorem arbiter_reachable_tick_in_bounds:
  assumes "arbiter_ok ab" "(arbiter_step m)\<^sup>*\<^sup>* ab ab'" "ab_phase ab' = Active"
  shows "\<exists>ab'' d. Arbiter_update m now summary ab' = Some (ab'', d) \<and> arbiter_ok ab''
    \<and> ab_min_rps ab' \<le> target_rps d \<and> target_rps d \<le> ab_max_rps ab' \<and> ab_current_rps ab'' = target_rps d"
proof -
  have ok: "arbiter_ok ab'" using arbiter_reachable_ok assms(1,2) by blast
  from active_tick_safe[OF this, of m now summary] obtain ab'' d
    where "active_tick m now summary ab' = Some (ab'', d)" "arbiter_ok ab''"
      "ab_min_rps ab' \<le> target_rps d" "target_rps d \<le> ab_max_rps ab'" .
  then show ?thesis using active_tick_Some(2) assms(3) by (auto simp: Arbiter_update_def)
qed

theorem arbiter_reachable_tick_in_bounds_witness:
  "\<exists>ab'' d. Arbiter_update demo_libm 5 MetricsSummary_default demo_arbiter = Some (ab'', d) \<and> arbiter_ok ab''
    \<and> lit 10 \<le> target_rps d \<and> target_rps d \<le> lit 1000 \<and> ab_current_rps ab'' = target_rps d"
  using arbiter_reachable_tick_in_bounds[OF demo_arbiter_ok rtranclp.rtrancl_refl] by simp

text \<open>
  C19. A tick whose composed rate is a number raises the rate by at most the configured fraction, unless the
  known-good floor (or the minimum) is higher; and it lowers the rate below the floor only when a
  catastrophic constraint binds, in which case the floor is bypassed and only the maximal decrease and
  the minimum hold the rate up.
\<close>

theorem active_tick_rate_limits:
  assumes "arbiter_ok ab" "active_tick m now summary ab = Some (ab', d)"
    "\<not> is_nan (cr_rate (tick_result m summary ab))"
  shows "target_rps d \<le> fmax (fmax (ab_current_rps ab * (lit 1 + rcl_max_increase_pct (ab_rate_change_limits ab)))
        (tick_floor now ab)) (ab_min_rps ab)
    \<and> (if tick_binding_class m summary ab = Some Catastrophic
       then target_rps d \<le> fmax (fmax (cr_rate (tick_result m summary ab))
              (ab_current_rps ab * (lit 1 - rcl_max_decrease_pct (ab_rate_change_limits ab)))) (ab_min_rps ab)
       else fmin (tick_floor now ab) (ab_max_rps ab) \<le> target_rps d)"
  using active_tick_policies(1,2,4)[OF assms] by simp

lemma demo_tick_result: "\<not> is_nan (cr_rate (tick_result demo_libm MetricsSummary_default demo_arbiter))"
proof -
  have "\<not> is_nan (lit 100 * lit 1.1)"
    using lit_mono[of 1 "1.1"] lit_mono[of "1.1" 2] finite_between[of "lit 1" "lit 1.1" "lit 2"]
    by (intro finite_ops_not_nan) (simp_all add: f64_eval)
  moreover have "tick_evals demo_libm MetricsSummary_default demo_arbiter = []"
    by (simp add: tick_evals_def constraint_evals_def List.map_filter_def ThresholdConstraint_timeout_def
        ThresholdConstraint_new_def timeout_defaults_def threshold_evaluate_def threshold_missing_def
        tick_context_def MetricsSummary_default_def)
  ultimately show ?thesis
    by (simp add: tick_result_def compose_default IncreasePolicy_compute_def cooldown_is_active_def
        demo_arbiter_def Arbiter_new_def ArbiterConfig_new_def Let_def CooldownState_new_def IncreasePolicy_new_def
        IncreasePolicyConfig_default_def MinSelector_compose_def)
qed

theorem active_tick_rate_limits_witness:
  "\<exists>ab' d. active_tick demo_libm 0 MetricsSummary_default demo_arbiter = Some (ab', d)
    \<and> target_rps d \<le> fmax (fmax (lit 100 * (lit 1 + rcl_max_increase_pct RateChangeLimitsConfig_default))
        (tick_floor 0 demo_arbiter)) (lit 10)"
  using active_tick_safe[OF demo_arbiter_ok, of demo_libm 0 MetricsSummary_default]
    active_tick_rate_limits[OF demo_arbiter_ok _ demo_tick_result]
  by simp metis

text \<open>
  C20. While a cooldown is active, an arbiter whose constraints are all threshold constraints does not
  raise the rate above the current one, except that the known-good floor or the minimum may lift it.
\<close>

theorem cooldown_suppresses_increase:
  assumes "arbiter_ok ab" "cooldown_is_active (ab_cooldown ab)" "\<forall>c \<in> set (ab_constraints ab). threshold_constraint c"
    "active_tick m now summary ab = Some (ab', d)"
  shows "target_rps d \<le> fmax (fmax (ab_current_rps ab) (tick_floor now ab)) (ab_min_rps ab)"
proof -
  have "rate_ok (ab_current_rps ab)" using assms(1) by (simp add: arbiter_ok_def)
  from threshold_tick_result(2)[OF assms(3) this assms(2)]
  have le: "cr_rate (tick_result m summary ab) \<le> ab_current_rps ab" .
  then show ?thesis using active_tick_policies(3)[OF assms(1,4)] fle_not_nan(1) by blast
qed

definition demo_cooling :: Arbiter where
  "demo_cooling = demo_arbiter\<lparr>ab_cooldown := \<lparr>cd_remaining = 3, cd_min_ticks = 2, cd_recovery_multiplier = lit 1.5\<rparr>,
     ab_current_rps := lit 500,
     ab_known_good := \<lparr>kg_max_recent_rate = lit 800, kg_max_recent_rate_time = 0, kg_floor_fraction = lit 0.75,
       kg_window = secs 60, kg_decay_factor = lit 0.95\<rparr>\<rparr>"

lemma demo_cooling_ok: "arbiter_ok demo_cooling" "cooldown_is_active (ab_cooldown demo_cooling)"
  "ab_min_rps demo_cooling = lit 10" "ab_current_rps demo_cooling = lit 500" "ab_max_rps demo_cooling = lit 1000"
  "ab_constraints demo_cooling = [Threshold (ThresholdConstraint_timeout (lit 5))]"
  "tick_floor 0 demo_cooling = lit 600"
  using demo_arbiter_ok
  by (simp_all add: demo_cooling_def arbiter_ok_def rate_ok_def cooldown_is_active_def f64_eval tick_floor_def
      known_good_update_def known_good_floor_def fmax_def duration_since_def secs_def flip: lit_01)

lemma demo_timeout_threshold: "threshold_constraint (Threshold (ThresholdConstraint_timeout p))"
  by (simp add: ThresholdConstraint_timeout_def ThresholdConstraint_new_def timeout_defaults_def)

theorem cooldown_suppresses_increase_witness:
  "\<exists>ab' d. active_tick demo_libm 0 MetricsSummary_default demo_cooling = Some (ab', d) \<and> target_rps d \<le> lit 600"
proof -
  obtain ab' d where t: "active_tick demo_libm 0 MetricsSummary_default demo_cooling = Some (ab', d)"
    using active_tick_safe[OF demo_cooling_ok(1)] by metis
  have "target_rps d \<le> fmax (fmax (lit 500) (lit 600)) (lit 10)"
    using cooldown_suppresses_increase[OF demo_cooling_ok(1,2) _ t] demo_timeout_threshold
    by (simp add: demo_cooling_ok)
  then show ?thesis using t by (simp add: fmax_def f64_eval)
qed

text \<open>
  The floor is stronger than both the cooldown and the per-tick increase limit: with no constraint
  objecting, a rate below the known-good floor (after a catastrophic backoff bypassed it, say) is lifted
  to the floor in a single tick.
\<close>

theorem floor_overrides_cooldown_and_limit:
  assumes "arbiter_ok ab" "active_tick m now summary ab = Some (ab', d)" "tick_evals m summary ab = []"
    "cooldown_is_active (ab_cooldown ab)" "tick_floor now ab \<le> ab_max_rps ab"
    "ab_current_rps ab * (lit 1 + rcl_max_increase_pct (ab_rate_change_limits ab)) < tick_floor now ab"
  shows "ab_current_rps ab < target_rps d
    \<and> ab_current_rps ab * (lit 1 + rcl_max_increase_pct (ab_rate_change_limits ab)) < target_rps d"
proof -
  have cur: "rate_ok (ab_current_rps ab)" "limits_ok (ab_rate_change_limits ab)" using assms(1) by (simp_all add: arbiter_ok_def)
  have r: "cr_rate (tick_result m summary ab) = ab_current_rps ab"
    "cr_binding (tick_result m summary ab) = None"
    using assms(3,4) by (simp_all add: tick_result_def compose_default compose_none IncreasePolicy_compute_def)
  then have "tick_binding_class m summary ab \<noteq> Some Catastrophic" by (simp add: tick_binding_class_def)
  moreover have "\<not> is_nan (cr_rate (tick_result m summary ab))" using cur r by (simp add: rate_ok_def finite_not_nan)
  ultimately have "fmin (tick_floor now ab) (ab_max_rps ab) \<le> target_rps d"
    using active_tick_policies(4)[OF assms(1,2)] by blast
  moreover have "fmin (tick_floor now ab) (ab_max_rps ab) = tick_floor now ab"
    using assms(5) by (auto simp: fmin_def f64_order)
  ultimately have "ab_current_rps ab * (lit 1 + rcl_max_increase_pct (ab_rate_change_limits ab)) < target_rps d"
    using assms(6) flt_fle_trans by simp
  then show ?thesis using limits_bracket(2)[OF cur(2,1)] fle_flt_trans by blast
qed

definition demo_floor :: Arbiter where
  "demo_floor = demo_cooling\<lparr>ab_current_rps := lit 400,
     ab_rate_change_limits := \<lparr>rcl_max_increase_pct = lit 0.25, rcl_max_decrease_pct = lit 0.5\<rparr>\<rparr>"

lemma demo_floor_ok: "arbiter_ok demo_floor" "cooldown_is_active (ab_cooldown demo_floor)"
  "ab_current_rps demo_floor = lit 400" "tick_floor 0 demo_floor = lit 600" "ab_max_rps demo_floor = lit 1000"
  "rcl_max_increase_pct (ab_rate_change_limits demo_floor) = lit 0.25"
  using demo_cooling_ok
  by (simp_all add: demo_floor_def arbiter_ok_def rate_ok_def limits_ok_def cooldown_is_active_def f64_eval tick_floor_def
      known_good_update_def known_good_floor_def fmax_def demo_cooling_def flip: lit_01)

lemma demo_floor_evals: "tick_evals demo_libm MetricsSummary_default demo_floor = []"
  by (simp add: tick_evals_def constraint_evals_def List.map_filter_def ThresholdConstraint_timeout_def
      ThresholdConstraint_new_def timeout_defaults_def threshold_evaluate_def threshold_missing_def
      tick_context_def MetricsSummary_default_def demo_floor_def demo_cooling_def)

theorem floor_overrides_cooldown_and_limit_witness:
  "\<exists>ab' d. active_tick demo_libm 0 MetricsSummary_default demo_floor = Some (ab', d)
    \<and> lit 400 < target_rps d \<and> lit 500 < target_rps d"
proof -
  obtain ab' d where t: "active_tick demo_libm 0 MetricsSummary_default demo_floor = Some (ab', d)"
    using active_tick_safe[OF demo_floor_ok(1)] by metis
  then show ?thesis
    using floor_overrides_cooldown_and_limit[OF demo_floor_ok(1) t demo_floor_evals demo_floor_ok(2)]
    by (simp add: demo_floor_ok f64_eval)
qed

text \<open>
  A backoff driven by a constraint starts a cooldown of at least the configured number of ticks, and
  any other tick of the active phase shortens a running cooldown by exactly one.
\<close>

theorem backoff_engages_cooldown:
  assumes "active_tick m now summary ab = Some (ab', d)"
  shows "if tick_backoff m summary ab
    then cd_min_ticks (ab_cooldown ab) \<le> cd_remaining (ab_cooldown ab')
    else unat (cd_remaining (ab_cooldown ab')) = unat (cd_remaining (ab_cooldown ab)) - 1"
  using active_tick_Some(3)[OF assms] cooldown_engage_min
  by (auto simp: cooldown_tick_def word_gt_0 unat_minus_one)

theorem backoff_engages_cooldown_witness:
  "\<exists>ab' d. active_tick demo_libm 0 MetricsSummary_default demo_floor = Some (ab', d)
    \<and> unat (cd_remaining (ab_cooldown ab')) = 2"
proof -
  obtain ab' d where t: "active_tick demo_libm 0 MetricsSummary_default demo_floor = Some (ab', d)"
    using active_tick_safe[OF demo_floor_ok(1)] by metis
  have "\<not> tick_backoff demo_libm MetricsSummary_default demo_floor"
    by (simp add: tick_backoff_def tick_result_def compose_none demo_floor_evals)
  then show ?thesis using backoff_engages_cooldown[OF t] t by (simp add: demo_floor_def demo_cooling_def)
qed

definition exploration_context :: "MetricsSummary \<Rightarrow> Arbiter \<Rightarrow> EvalContext" where
  "exploration_context summary ab = \<lparr>ctx_summary = summary, ctx_current_rate = ab_current_rps ab,
     ctx_ticks_since_increase = 0, ctx_min_rps = ab_min_rps ab, ctx_max_rps = ab_max_rps ab\<rparr>"

text \<open>
  The safe rate chosen when a catastrophic constraint aborts an exploration never takes effect: the
  decision of that tick is the warmup rate, or the initial rate if no warmup is configured.
\<close>

theorem exploration_abort_ignores_safe_rate:
  assumes "ab_phase ab = Exploration em" "exploration_manager_tick summary em = (em', Some rate)"
    "exploration_scan m (exploration_context summary ab) (ab_constraints ab) rate False = (cs, safe, True)"
    "exploration_tick m now summary ab = Some (ab', d)"
  shows "target_rps d = (case ab_warmup_config ab of Some (rps, _) \<Rightarrow> rps | None \<Rightarrow> ab_initial_rps ab)"
  using assms
  by (auto simp: exploration_tick_def exploration_context_def Let_def finish_exploration_def
      transition_post_exploration_def split: option.splits)

definition demo_timeouts :: MetricsSummary where
  "demo_timeouts = MetricsSummary_default\<lparr>ms_total_requests := 1, ms_timeout_count := 1\<rparr>"

definition demo_catastrophic :: Constraint where
  "demo_catastrophic = Threshold ((ThresholdConstraint_timeout (lit 5))\<lparr>th_threshold := lit 0.25, th_severity_mapping := Graduated\<rparr>)"

definition demo_exploring :: Arbiter where
  "demo_exploring = Arbiter_new False 0 ((ArbiterConfig_new [demo_catastrophic] (lit 200) (lit 10) (lit 1000) (secs 60))
     \<lparr>abc_exploration_manager := Some (ExplorationManager_new [] (lit 200) (secs 3) (secs 1))\<rparr>)"

lemma demo_catastrophic_evaluate:
  "ctx_summary ctx = demo_timeouts \<Longrightarrow> \<exists>c'. Constraint_evaluate m demo_catastrophic ctx
     = (c', Some \<lparr>co_intent = DesireRate (ctx_current_rate ctx * lit 0.5), co_severity = lit 4\<rparr>)"
  by (simp add: demo_catastrophic_def ThresholdConstraint_timeout_def ThresholdConstraint_new_def timeout_defaults_def
      threshold_evaluate_def threshold_missing_def demo_timeouts_def MetricsSummary_default_def f64_of_word_def f64_of_nat_def
      Smoother_ema_def threshold_severity_def f64_eval Let_def threshold_gate_def graduated_action_def update_streak_def
      ConstraintState_new_def apply_persistence_def is_backoff_def SEVERITY_BYPASS_PERSISTENCE_def action_to_intent_def
      backoff_factor_def BackoffSchedule_default_def)

theorem exploration_abort_ignores_safe_rate_witness:
  "\<exists>em' cs ab' d. exploration_manager_tick demo_timeouts (ExplorationManager_new [] (lit 200) (secs 3) (secs 1)) = (em', Some (lit 100))
    \<and> exploration_scan demo_libm (exploration_context demo_timeouts demo_exploring) [demo_catastrophic] (lit 100) False = (cs, lit 50, True)
    \<and> exploration_tick demo_libm 0 demo_timeouts demo_exploring = Some (ab', d) \<and> target_rps d = lit 200"
proof -
  have st: "ab_phase demo_exploring = Exploration (ExplorationManager_new [] (lit 200) (secs 3) (secs 1))"
    "ab_constraints demo_exploring = [demo_catastrophic]" "ab_warmup_config demo_exploring = None"
    "ab_initial_rps demo_exploring = lit 200" "ab_current_rps demo_exploring = lit 100"
    by (simp_all add: demo_exploring_def Arbiter_new_def ArbiterConfig_new_def Let_def ExplorationManager_new_def f64_eval)
  have ok: "arbiter_ok demo_exploring"
    by (simp add: demo_exploring_def Arbiter_new_def ArbiterConfig_new_def Let_def ExplorationManager_new_def f64_eval
        arbiter_ok_def rate_ok_def ProgressiveCeiling_new_def flip: lit_01)
  obtain em' where em: "exploration_manager_tick demo_timeouts (ExplorationManager_new [] (lit 200) (secs 3) (secs 1)) = (em', Some (lit 100))"
    by (simp add: exploration_manager_tick_def ExplorationManager_new_def baseline_duration_ticks_def as_millis_def secs_def
        Let_def f64_eval word_le_nat_alt)
  have "lit 100 * lit 0.75 \<le> lit 100 * lit 0.85"
    by (intro fmul_mono) (simp_all add: f64_eval)
  then have "lit 50 < lit 100 * EXPLORATION_ABORT_THRESHOLD"
    unfolding EXPLORATION_ABORT_THRESHOLD_def
    by (rule flt_fle_trans[rotated]) (simp add: f64_eval)
  moreover obtain c' where "Constraint_evaluate demo_libm demo_catastrophic (exploration_context demo_timeouts demo_exploring)
      = (c', Some \<lparr>co_intent = DesireRate (lit 100 * lit 0.5), co_severity = lit 4\<rparr>)"
    using demo_catastrophic_evaluate[of "exploration_context demo_timeouts demo_exploring" demo_libm] st(5)
    by (auto simp: exploration_context_def)
  moreover have "Constraint_class demo_catastrophic = Catastrophic" "\<not> Constraint_requires_exploration demo_catastrophic"
    by (simp_all add: demo_catastrophic_def ThresholdConstraint_timeout_def ThresholdConstraint_new_def timeout_defaults_def)
  ultimately have sc: "exploration_scan demo_libm (exploration_context demo_timeouts demo_exploring) [demo_catastrophic] (lit 100) False = ([c'], lit 50, True)"
    by (simp add: f64_eval fmin_def)
  obtain ab' d where t: "exploration_tick demo_libm 0 demo_timeouts demo_exploring = Some (ab', d)"
    using exploration_tick_safe[OF ok st(1)] by metis
  then have "target_rps d = lit 200"
    using exploration_abort_ignores_safe_rate[OF st(1) em _ t] sc st by simp
  then show ?thesis using em sc t by blast
qed

text \<open>
  A rate set by an operator during exploration is lost as well: the override aborts the exploration,
  and the arbiter continues with the warmup or initial rate, not with the rate that was asked for.
\<close>

theorem set_rate_during_exploration_lost:
  assumes "ab_phase ab = Exploration em" "Arbiter_set_rate now rps ab = Some ab'"
  shows "ab_current_rps ab' = (case ab_warmup_config ab of Some (r, _) \<Rightarrow> r | None \<Rightarrow> ab_initial_rps ab)"
  using assms
  by (auto simp: Arbiter_set_rate_def Let_def finish_exploration_def transition_post_exploration_def notify_rate_override_def
      split: option.splits if_splits)

theorem set_rate_during_exploration_lost_witness:
  "\<exists>em ab'. ab_phase demo_exploring = Exploration em \<and> Arbiter_set_rate 0 (lit 50) demo_exploring = Some ab' \<and> ab_current_rps ab' = lit 200"
proof -
  have st: "ab_phase demo_exploring = Exploration (ExplorationManager_new [] (lit 200) (secs 3) (secs 1))"
    "ab_warmup_config demo_exploring = None" "ab_initial_rps demo_exploring = lit 200"
    by (simp_all add: demo_exploring_def Arbiter_new_def ArbiterConfig_new_def Let_def)
  have "arbiter_ok demo_exploring"
    by (simp add: demo_exploring_def Arbiter_new_def ArbiterConfig_new_def Let_def ExplorationManager_new_def f64_eval
        arbiter_ok_def rate_ok_def ProgressiveCeiling_new_def flip: lit_01)
  then obtain ab' where "Arbiter_set_rate 0 (lit 50) demo_exploring = Some ab'"
    by (rule Arbiter_set_rate_safe[where rps = "lit 50"]) simp_all
  then show ?thesis using set_rate_during_exploration_lost[OF st(1)] st by auto
qed

text \<open>
  C21. The runtime update of the minimum rate is not validated: after it has been set above the maximum
  (or to NaN), every tick of the active phase and every rate override panics.
\<close>

theorem set_min_rps_unchecked_panics:
  assumes "ab_phase ab = Active" "p_f64 ps ''min_rps'' = Some mn" "\<not> mn \<le> ab_max_rps ab"
    "Arbiter_apply_update ''set_min_rps'' ps ab = (ab', r)"
  shows "Arbiter_update m now summary ab' = None \<and> Arbiter_set_rate now rps ab' = None \<and> r \<noteq> Inl e"
proof -
  have ab': "ab' = ab\<lparr>ab_min_rps := mn\<rparr>" "r \<noteq> Inl e" using assms(2,4) by (auto simp: Arbiter_apply_update_def)
  then have bad: "\<not> ab_min_rps ab' \<le> ab_max_rps ab'" using assms(3) by simp
  have "apply_policies ab' c f b x = None" for c f b x
    unfolding apply_policies_def Let_def using bad by (auto simp: fclamp_None_iff bind_eq_None_conv)
  then have "active_tick m now summary ab' = None" by (simp add: active_tick_None)
  moreover have "ab_phase ab' = Active" using ab'(1) assms(1) by simp
  ultimately show ?thesis using bad ab'(2) by (simp add: Arbiter_update_def Arbiter_set_rate_def fclamp_None_iff[THEN iffD2])
qed

theorem set_min_rps_unchecked_panics_witness:
  "\<exists>ab' r. Arbiter_apply_update ''set_min_rps'' (empty_params\<lparr>p_f64 := (\<lambda>_. Some (lit 2000))\<rparr>) demo_arbiter = (ab', r)
    \<and> Arbiter_update demo_libm 0 MetricsSummary_default ab' = None"
proof -
  obtain ab' r where u: "Arbiter_apply_update ''set_min_rps'' (empty_params\<lparr>p_f64 := (\<lambda>_. Some (lit 2000))\<rparr>) demo_arbiter = (ab', r)"
    by force
  have "\<not> lit 2000 \<le> ab_max_rps demo_arbiter" by (simp add: f64_eval)
  from set_min_rps_unchecked_panics[OF _ _ this u] u show ?thesis by simp
qed

text \<open>
  C22. An exploration finishes: after as many control ticks as the baseline and the step phase last at
  most, the exploration manager has left the measuring phases, whatever the metrics were.
\<close>

theorem exploration_finishes:
  assumes "length ss \<ge> unat (baseline_duration_ticks (ExplorationManager_new metrics rps dur interval))
     + unat (step_duration_ticks (ExplorationManager_new metrics rps dur interval))"
  shows "exploration_done (em_phase (exploration_ticks ss (ExplorationManager_new metrics rps dur interval)))"
  using exploration_terminates[OF assms refl] .

theorem exploration_finishes_witness:
  "exploration_done (em_phase (exploration_ticks (replicate 8 demo_timeouts)
     (ExplorationManager_new [MetricExploration_new TM_LatencyP99 (lit 50)] (lit 200) (secs 3) (secs 1))))"
  by (rule exploration_finishes) (simp add: baseline_duration_ticks_def step_duration_ticks_def ExplorationManager_new_def
      as_millis_def secs_def word_le_nat_alt)

end
