(* ===== verification/Controllers.thy ===== *)
theory Controllers
  imports Arbiter_Safety
begin

text \<open>
  The two open-loop controllers (\<^verbatim>\<open>static_rate.rs\<close>, \<^verbatim>\<open>step_rate.rs\<close>) and the trait object
  \<^verbatim>\<open>Box<dyn RateController>\<close> (\<^verbatim>\<open>traits.rs\<close>) over the three implementations. The locale
  \<open>rate_controller\<close> is the contract the coordinator relies on: ticks and overrides never panic and the
  rates are finite and non-negative.
\<close>

section \<open>\<^verbatim>\<open>StaticRateController\<close>\<close>

record StaticRateController =
  sc_rps :: f64

definition StaticRateController_new :: "f64 \<Rightarrow> StaticRateController" where
  "StaticRateController_new rps = \<lparr>sc_rps = rps\<rparr>"

definition static_update :: "StaticRateController \<Rightarrow> StaticRateController \<times> RateDecision" where
  "static_update c = (c, \<lparr>target_rps = sc_rps c\<rparr>)"

definition static_set_rate :: "f64 \<Rightarrow> StaticRateController \<Rightarrow> StaticRateController" where
  "static_set_rate rps c = c\<lparr>sc_rps := rps\<rparr>"

definition static_controller_info :: "StaticRateController \<Rightarrow> ControllerInfo" where
  "static_controller_info c = \<lparr>
     ci_controller_type = CT_Static, ci_current_rps = sc_rps c,
     ci_editable_actions = [''set_rate'', ''set_max_rps''],
     ci_params = JObj [(''rps'', JF64 (sc_rps c))]\<rparr>"

definition static_apply_update :: "string \<Rightarrow> params \<Rightarrow> StaticRateController \<Rightarrow> StaticRateController \<times> update_result" where
  "static_apply_update action ps c =
     (if action = ''set_rate'' then
        (case p_f64 ps ''rps'' of
           None \<Rightarrow> (c, Inl (MissingField ''rps''))
         | Some rps \<Rightarrow> (let c' = static_set_rate rps c
             in (c', Inr [(''ok'', JBool True), (''previous_rps'', JF64 (sc_rps c)), (''new_rps'', JF64 (sc_rps c'))])))
      else if action = ''set_max_rps'' then
        (case p_f64 ps ''max_rps'' of
           None \<Rightarrow> (c, Inl (MissingField ''max_rps''))
         | Some mx \<Rightarrow> (c, Inr [(''ok'', JBool True), (''new_max_rps'', JF64 mx)]))
      else (c, Inl (InvalidAction action ''static'')))"

section \<open>\<^verbatim>\<open>StepRateController\<close>\<close>

record StepRateController =
  sr_steps :: "(duration \<times> f64) list"
  sr_current_rps :: f64
  sr_start_time :: instant

text \<open>\<^verbatim>\<open>with_start_time_and_clock\<close>; \<open>None\<close> is the failed assertion on an empty schedule.\<close>

definition StepRateController_new :: "(duration \<times> f64) list \<Rightarrow> instant \<Rightarrow> StepRateController option" where
  "StepRateController_new steps start_time = (case steps of
     [] \<Rightarrow> None
   | (_, initial_rps) # _ \<Rightarrow> Some \<lparr>sr_steps = steps, sr_current_rps = initial_rps, sr_start_time = start_time\<rparr>)"

definition jump_to_step :: "instant \<Rightarrow> nat \<Rightarrow> StepRateController \<Rightarrow> StepRateController \<times> (UpdateError + f64)" where
  "jump_to_step now index c =
     (if index \<ge> length (sr_steps c) then (c, Inl (StepOutOfRange index (length (sr_steps c))))
      else let (offset, rps) = sr_steps c ! index
           in (c\<lparr>sr_current_rps := rps, sr_start_time := now - int offset\<rparr>, Inr rps))"

text \<open>The loops of \<^verbatim>\<open>current_step_index\<close> and \<^verbatim>\<open>update_from_time\<close>; both break at the first later offset.\<close>

fun step_index_loop :: "duration \<Rightarrow> (duration \<times> f64) list \<Rightarrow> nat \<Rightarrow> nat \<Rightarrow> nat" where
  "step_index_loop elapsed [] i idx = idx"
| "step_index_loop elapsed ((offset, _) # steps) i idx =
     (if elapsed \<ge> offset then step_index_loop elapsed steps (i + 1) i else idx)"

definition current_step_index :: "instant \<Rightarrow> StepRateController \<Rightarrow> nat" where
  "current_step_index now c = step_index_loop (duration_since now (sr_start_time c)) (sr_steps c) 0 0"

fun step_rate_loop :: "duration \<Rightarrow> (duration \<times> f64) list \<Rightarrow> f64 \<Rightarrow> f64" where
  "step_rate_loop elapsed [] rps = rps"
| "step_rate_loop elapsed ((offset, step_rps) # steps) rps =
     (if elapsed \<ge> offset then step_rate_loop elapsed steps step_rps else rps)"

definition update_from_time :: "instant \<Rightarrow> StepRateController \<Rightarrow> StepRateController option" where
  "update_from_time now c = (case sr_steps c of
     [] \<Rightarrow> None
   | (_, rps) # _ \<Rightarrow> Some (c\<lparr>sr_current_rps := step_rate_loop (duration_since now (sr_start_time c)) (sr_steps c) rps\<rparr>))"

definition step_update :: "instant \<Rightarrow> StepRateController \<Rightarrow> (StepRateController \<times> RateDecision) option" where
  "step_update now c = (case update_from_time now c of
     None \<Rightarrow> None
   | Some c' \<Rightarrow> Some (c', \<lparr>target_rps = sr_current_rps c'\<rparr>))"

definition step_set_rate :: "f64 \<Rightarrow> StepRateController \<Rightarrow> StepRateController" where
  "step_set_rate rps c = c\<lparr>sr_current_rps := rps\<rparr>"

definition step_controller_info :: "instant \<Rightarrow> StepRateController \<Rightarrow> ControllerInfo" where
  "step_controller_info now c = \<lparr>
     ci_controller_type = CT_Step, ci_current_rps = sr_current_rps c,
     ci_editable_actions = [''jump_to_step'', ''set_step_rps'', ''set_max_rps''],
     ci_params = JObj [
       (''current_step_index'', JU64 (of_nat (current_step_index now c))),
       (''steps'', JArr (map (\<lambda>(offset, rps). JObj [(''offset_secs'', JF64 (as_secs_f64 offset)), (''rps'', JF64 rps)])
          (sr_steps c)))]\<rparr>"

definition step_apply_update :: "instant \<Rightarrow> string \<Rightarrow> params \<Rightarrow> StepRateController \<Rightarrow> StepRateController \<times> update_result" where
  "step_apply_update now action ps c =
     (if action = ''jump_to_step'' then
        (case p_u64 ps ''step_index'' of
           None \<Rightarrow> (c, Inl (MissingField ''step_index''))
         | Some index \<Rightarrow> (case jump_to_step now (unat index) c of
             (c', Inl e) \<Rightarrow> (c', Inl e)
           | (c', Inr rps) \<Rightarrow> (c', Inr [(''ok'', JBool True), (''step_index'', JU64 index), (''step_rps'', JF64 rps)])))
      else if action = ''set_step_rps'' then
        (case p_f64 ps ''rps'' of
           None \<Rightarrow> (c, Inl (MissingField ''rps''))
         | Some rps \<Rightarrow> (step_set_rate rps c,
             Inr [(''ok'', JBool True), (''note'', JStr ''overrides current step until next time boundary'')]))
      else if action = ''set_max_rps'' then
        (case p_f64 ps ''max_rps'' of
           None \<Rightarrow> (c, Inl (MissingField ''max_rps''))
         | Some mx \<Rightarrow> (c, Inr [(''ok'', JBool True), (''new_max_rps'', JF64 mx)]))
      else (c, Inl (InvalidAction action ''step'')))"

section \<open>\<^verbatim>\<open>Box<dyn RateController>\<close>\<close>

datatype RateController = StaticRate StaticRateController | StepRate StepRateController | ArbiterRate Arbiter

fun RateController_update :: "libm \<Rightarrow> instant \<Rightarrow> MetricsSummary \<Rightarrow> RateController \<Rightarrow> (RateController \<times> RateDecision) option" where
  "RateController_update m now summary (StaticRate c) = Some (map_prod StaticRate id (static_update c))"
| "RateController_update m now summary (StepRate c) = map_option (map_prod StepRate id) (step_update now c)"
| "RateController_update m now summary (ArbiterRate c) = map_option (map_prod ArbiterRate id) (Arbiter_update m now summary c)"

fun RateController_current_rate :: "RateController \<Rightarrow> f64" where
  "RateController_current_rate (StaticRate c) = sc_rps c"
| "RateController_current_rate (StepRate c) = sr_current_rps c"
| "RateController_current_rate (ArbiterRate c) = ab_current_rps c"

fun RateController_set_rate :: "instant \<Rightarrow> f64 \<Rightarrow> RateController \<Rightarrow> RateController option" where
  "RateController_set_rate now rps (StaticRate c) = Some (StaticRate (static_set_rate rps c))"
| "RateController_set_rate now rps (StepRate c) = Some (StepRate (step_set_rate rps c))"
| "RateController_set_rate now rps (ArbiterRate c) = map_option ArbiterRate (Arbiter_set_rate now rps c)"

text \<open>\<^verbatim>\<open>set_max_rps\<close> and \<^verbatim>\<open>controller_state\<close> have empty defaults that only the arbiter overrides.\<close>

fun RateController_set_max_rps :: "f64 \<Rightarrow> RateController \<Rightarrow> RateController" where
  "RateController_set_max_rps max_rps (ArbiterRate c) = ArbiterRate (Arbiter_set_max_rps max_rps c)"
| "RateController_set_max_rps max_rps c = c"

fun RateController_controller_state :: "instant \<Rightarrow> RateController \<Rightarrow> (string \<times> f64) list" where
  "RateController_controller_state now (ArbiterRate c) = Arbiter_controller_state now c"
| "RateController_controller_state now c = []"

fun RateController_controller_info :: "instant \<Rightarrow> RateController \<Rightarrow> ControllerInfo" where
  "RateController_controller_info now (StaticRate c) = static_controller_info c"
| "RateController_controller_info now (StepRate c) = step_controller_info now c"
| "RateController_controller_info now (ArbiterRate c) = Arbiter_controller_info c"

fun RateController_last_binding :: "RateController \<Rightarrow> string option" where
  "RateController_last_binding (ArbiterRate c) = ab_last_binding c"
| "RateController_last_binding c = None"

fun RateController_apply_update :: "instant \<Rightarrow> string \<Rightarrow> params \<Rightarrow> RateController \<Rightarrow> RateController \<times> update_result" where
  "RateController_apply_update now action ps (StaticRate c) = map_prod StaticRate id (static_apply_update action ps c)"
| "RateController_apply_update now action ps (StepRate c) = map_prod StepRate id (step_apply_update now action ps c)"
| "RateController_apply_update now action ps (ArbiterRate c) = map_prod ArbiterRate id (Arbiter_apply_update action ps c)"


section \<open>The contract of a controller\<close>

text \<open>
  \<open>fine\<close> are the rates an operator may set. The client is a run of ticks and overrides in any order.
\<close>

datatype ControlEvent = TickEvent instant MetricsSummary | SetRateEvent instant f64 | SetMaxEvent f64

fun event_fine :: "ControlEvent \<Rightarrow> bool" where
  "event_fine (TickEvent _ _) \<longleftrightarrow> True"
| "event_fine (SetRateEvent _ rps) \<longleftrightarrow> rate_ok rps"
| "event_fine (SetMaxEvent mx) \<longleftrightarrow> is_finite mx"

fun run_events ::
  "(instant \<Rightarrow> MetricsSummary \<Rightarrow> 'c \<Rightarrow> ('c \<times> RateDecision) option) \<Rightarrow> (instant \<Rightarrow> f64 \<Rightarrow> 'c \<Rightarrow> 'c option) \<Rightarrow>
   (f64 \<Rightarrow> 'c \<Rightarrow> 'c) \<Rightarrow> ControlEvent list \<Rightarrow> 'c \<Rightarrow> ('c \<times> f64 list) option" where
  "run_events update set_rate set_max [] c = Some (c, [])"
| "run_events update set_rate set_max (TickEvent now summary # es) c = (case update now summary c of
     None \<Rightarrow> None
   | Some (c', d) \<Rightarrow> map_option (map_prod id ((#) (target_rps d))) (run_events update set_rate set_max es c'))"
| "run_events update set_rate set_max (SetRateEvent now rps # es) c = (case set_rate now rps c of
     None \<Rightarrow> None
   | Some c' \<Rightarrow> run_events update set_rate set_max es c')"
| "run_events update set_rate set_max (SetMaxEvent mx # es) c = run_events update set_rate set_max es (set_max mx c)"

locale rate_controller =
  fixes inv :: "'c \<Rightarrow> bool"
    and update :: "instant \<Rightarrow> MetricsSummary \<Rightarrow> 'c \<Rightarrow> ('c \<times> RateDecision) option"
    and set_rate :: "instant \<Rightarrow> f64 \<Rightarrow> 'c \<Rightarrow> 'c option"
    and set_max_rps :: "f64 \<Rightarrow> 'c \<Rightarrow> 'c"
  assumes update_total: "inv c \<Longrightarrow> \<exists>c' d. update now summary c = Some (c', d) \<and> inv c' \<and> rate_ok (target_rps d)"
    and set_rate_total: "\<lbrakk>inv c; rate_ok rps\<rbrakk> \<Longrightarrow> \<exists>c'. set_rate now rps c = Some c' \<and> inv c'"
    and set_max_rps_inv: "\<lbrakk>inv c; is_finite mx\<rbrakk> \<Longrightarrow> inv (set_max_rps mx c)"
begin

lemma run_total: "\<lbrakk>inv c; \<forall>e \<in> set es. event_fine e\<rbrakk> \<Longrightarrow>
    \<exists>c' rates. run_events update set_rate set_max_rps es c = Some (c', rates) \<and> inv c' \<and> (\<forall>r \<in> set rates. rate_ok r)"
proof (induction es arbitrary: c)
  case (Cons e es)
  show ?case
  proof (cases e)
    case (TickEvent now summary)
    obtain c' d where "update now summary c = Some (c', d)" "inv c'" "rate_ok (target_rps d)"
      using update_total[OF Cons.prems(1)] by blast
    then show ?thesis using Cons.IH[of c'] Cons.prems(2) TickEvent by auto
  next
    case (SetRateEvent now rps)
    obtain c' where "set_rate now rps c = Some c'" "inv c'"
      using set_rate_total[OF Cons.prems(1), of rps now] Cons.prems(2) SetRateEvent by auto
    then show ?thesis using Cons.IH[of c'] Cons.prems(2) SetRateEvent by auto
  next
    case (SetMaxEvent mx)
    then show ?thesis using Cons.IH[of "set_max_rps mx c"] set_max_rps_inv Cons.prems by auto
  qed
qed simp

end

definition step_ok :: "StepRateController \<Rightarrow> bool" where
  "step_ok c \<longleftrightarrow> sr_steps c \<noteq> [] \<and> (\<forall>(_, rps) \<in> set (sr_steps c). rate_ok rps)"

lemma step_rate_loop_ok: "\<lbrakk>\<forall>(_, r) \<in> set steps. rate_ok r; rate_ok rps\<rbrakk> \<Longrightarrow> rate_ok (step_rate_loop e steps rps)"
  by (induction e steps rps rule: step_rate_loop.induct) auto

interpretation static_rate: rate_controller "\<lambda>c. rate_ok (sc_rps c)" "\<lambda>_ _ c. Some (static_update c)"
  "\<lambda>_ rps c. Some (static_set_rate rps c)" "\<lambda>_ c. c"
  by unfold_locales (simp_all add: static_update_def static_set_rate_def)

interpretation step_rate: rate_controller step_ok "\<lambda>now _ c. step_update now c"
  "\<lambda>_ rps c. Some (step_set_rate rps c)" "\<lambda>_ c. c"
proof unfold_locales
  fix c now assume "step_ok c"
  then obtain off rps steps where c: "sr_steps c = (off, rps) # steps" "\<forall>(_, r) \<in> set (sr_steps c). rate_ok r"
    by (cases "sr_steps c") (auto simp: step_ok_def)
  then have "rate_ok (step_rate_loop (duration_since now (sr_start_time c)) (sr_steps c) rps)"
    by (intro step_rate_loop_ok) auto
  then show "\<exists>c' d. step_update now c = Some (c', d) \<and> step_ok c' \<and> rate_ok (target_rps d)"
    using c by (simp add: step_ok_def step_update_def update_from_time_def)
qed (simp_all add: step_ok_def step_set_rate_def)

lemma Arbiter_set_max_ok: "\<lbrakk>arbiter_ok c; is_finite mx\<rbrakk> \<Longrightarrow> arbiter_ok (Arbiter_set_max_rps mx c)"
  using apply_update_set_max_ok[of c "\<lparr>p_f64 = \<lambda>_. Some mx, p_u64 = \<lambda>_. None\<rparr>" "Arbiter_set_max_rps mx c"]
  by (simp add: Arbiter_apply_update_def Let_def)

interpretation arbiter_rate: rate_controller arbiter_ok "Arbiter_update m" Arbiter_set_rate Arbiter_set_max_rps for m
proof unfold_locales
  fix c now summary assume "arbiter_ok c"
  from Arbiter_update_safe[OF this, of m now summary]
  show "\<exists>c' d. Arbiter_update m now summary c = Some (c', d) \<and> arbiter_ok c' \<and> rate_ok (target_rps d)" by metis
next
  fix c :: Arbiter and rps now assume "arbiter_ok c" "rate_ok rps"
  then show "\<exists>c'. Arbiter_set_rate now rps c = Some c' \<and> arbiter_ok c'"
    using Arbiter_set_rate_safe[of c rps now] by (metis finite_not_nan rate_ok_def)
qed (rule Arbiter_set_max_ok)

fun controller_ok :: "RateController \<Rightarrow> bool" where
  "controller_ok (StaticRate c) \<longleftrightarrow> rate_ok (sc_rps c)"
| "controller_ok (StepRate c) \<longleftrightarrow> step_ok c"
| "controller_ok (ArbiterRate c) \<longleftrightarrow> arbiter_ok c"

interpretation dyn_rate: rate_controller controller_ok "RateController_update m" RateController_set_rate RateController_set_max_rps for m
proof unfold_locales
  fix c now summary assume "controller_ok c"
  then show "\<exists>c' d. RateController_update m now summary c = Some (c', d) \<and> controller_ok c' \<and> rate_ok (target_rps d)"
    using static_rate.update_total step_rate.update_total arbiter_rate.update_total[of _ m now summary]
    by (cases c) fastforce+
next
  fix c rps now assume "controller_ok c" "rate_ok rps"
  then show "\<exists>c'. RateController_set_rate now rps c = Some c' \<and> controller_ok c'"
    using static_rate.set_rate_total step_rate.set_rate_total arbiter_rate.set_rate_total[of _ rps now]
    by (cases c) fastforce+
next
  fix c mx assume "controller_ok c" "is_finite mx"
  then show "controller_ok (RateController_set_max_rps mx c)" by (cases c) (simp_all add: Arbiter_set_max_ok)
qed

section \<open>The schedule of the step controller\<close>

text \<open>The reference: the last step that has begun.\<close>

definition scheduled_rate :: "(duration \<times> f64) list \<Rightarrow> duration \<Rightarrow> f64" where
  "scheduled_rate steps elapsed =
     (case filter (\<lambda>(offset, _). offset \<le> elapsed) steps of [] \<Rightarrow> snd (hd steps) | s # ss \<Rightarrow> snd (last (s # ss)))"

lemma step_rate_loop_scheduled:
  "sorted (map fst steps) \<Longrightarrow> step_rate_loop elapsed steps rps =
     (case filter (\<lambda>(offset, _). offset \<le> elapsed) steps of [] \<Rightarrow> rps | s # ss \<Rightarrow> snd (last (s # ss)))"
proof (induction elapsed steps rps rule: step_rate_loop.induct)
  case (2 elapsed offset step_rps steps rps)
  then have "\<not> offset \<le> elapsed \<Longrightarrow> filter (\<lambda>(offset, _). offset \<le> elapsed) steps = []"
    by (auto simp: filter_empty_conv)
  then show ?case using 2 by (auto split: list.splits)
qed simp

lemma step_update_scheduled:
  assumes "sr_steps c \<noteq> []" "sorted (map fst (sr_steps c))"
  shows "step_update now c = (let r = scheduled_rate (sr_steps c) (duration_since now (sr_start_time c))
    in Some (c\<lparr>sr_current_rps := r\<rparr>, \<lparr>target_rps = r\<rparr>))"
proof -
  obtain off rps steps where c: "sr_steps c = (off, rps) # steps" using assms(1) by (cases "sr_steps c") auto
  show ?thesis
    unfolding step_update_def update_from_time_def scheduled_rate_def step_rate_loop_scheduled[OF assms(2)] Let_def
    by (simp add: c split: list.split)
qed

lemma filter_ascending:
  fixes steps :: "(duration \<times> f64) list"
  assumes "sorted_wrt (<) (map fst steps)" "i < length steps" "fst (steps ! i) \<le> e"
    "i + 1 < length steps \<longrightarrow> e < fst (steps ! (i + 1))"
  shows "filter (\<lambda>(offset, _). offset \<le> e) steps = take (i + 1) steps"
proof -
  have "\<forall>x \<in> set (take (i + 1) steps). fst x \<le> e"
  proof
    fix x assume "x \<in> set (take (i + 1) steps)"
    then obtain j where j: "j \<le> i" "x = steps ! j" using assms(2) by (auto simp: in_set_conv_nth less_Suc_eq_le)
    then have "fst (steps ! j) \<le> fst (steps ! i)"
      using assms(1,2) by (cases "j = i") (auto simp: sorted_wrt_iff_nth_less intro: less_imp_le_nat)
    then show "fst x \<le> e" using j assms(3) by simp
  qed
  moreover have "\<forall>x \<in> set (drop (i + 1) steps). \<not> fst x \<le> e"
  proof
    fix x assume "x \<in> set (drop (i + 1) steps)"
    then obtain k where k: "k < length steps - (i + 1)" "x = steps ! (i + 1 + k)"
      by (auto simp: in_set_conv_nth)
    define j where "j = i + 1 + k"
    have j: "i + 1 \<le> j" "j < length steps" "x = steps ! j" using k by (simp_all add: j_def)
    have "fst (steps ! (i + 1)) \<le> fst (steps ! j)"
      using assms(1) j by (cases "j = i + 1") (auto simp: sorted_wrt_iff_nth_less intro: less_imp_le_nat)
    then show "\<not> fst x \<le> e" using j assms(4) by auto
  qed
  ultimately show ?thesis
    using append_take_drop_id[of "i + 1" steps, symmetric] filter_append
    by (metis (no_types, lifting) append.right_neutral case_prod_unfold filter_False filter_True)
qed

lemma scheduled_rate_at:
  assumes "sorted_wrt (<) (map fst steps)" "i < length steps" "fst (steps ! i) \<le> e"
    "i + 1 < length steps \<longrightarrow> e < fst (steps ! (i + 1))"
  shows "scheduled_rate steps e = snd (steps ! i)"
proof -
  have "filter (\<lambda>(offset, _). offset \<le> e) steps = take i steps @ [steps ! i]"
    using filter_ascending[OF assms] assms(2) by (simp add: take_Suc_conv_app_nth)
  then show ?thesis by (simp add: scheduled_rate_def split: list.split) (metis last_snoc last_ConsL last_ConsR list.distinct(1))
qed

section \<open>Properties\<close>

text \<open>
  C24. With a non-empty schedule in ascending order of offsets, a tick of the step controller sets the rate
  of the last step whose offset has been reached, and the rate of the first step before any has.
\<close>

theorem step_update_follows_schedule:
  assumes "sr_steps c \<noteq> []" "sorted (map fst (sr_steps c))"
  shows "step_update now c = (let r = scheduled_rate (sr_steps c) (duration_since now (sr_start_time c))
    in Some (c\<lparr>sr_current_rps := r\<rparr>, \<lparr>target_rps = r\<rparr>))"
  by (rule step_update_scheduled[OF assms])

theorem step_update_follows_schedule_witness:
  "step_update 25 \<lparr>sr_steps = [(0, lit 1), (10, lit 2), (20, lit 3), (30, lit 4)], sr_current_rps = lit 1, sr_start_time = 0\<rparr> =
    Some (\<lparr>sr_steps = [(0, lit 1), (10, lit 2), (20, lit 3), (30, lit 4)], sr_current_rps = lit 3, sr_start_time = 0\<rparr>,
      \<lparr>target_rps = lit 3\<rparr>)"
  using step_update_follows_schedule[of "\<lparr>sr_steps = [(0, lit 1), (10, lit 2), (20, lit 3), (30, lit 4)],
    sr_current_rps = lit 1, sr_start_time = 0\<rparr>" 25]
  by (simp add: scheduled_rate_def duration_since_def Let_def)

text \<open>
  Jumping to a step plays it for its full length: with strictly ascending offsets every tick from the
  jump until the offset of the next step (measured from the offset of this one) has passed returns the
  rate of the step; the last step never ends.
\<close>

theorem jump_plays_full_step:
  assumes "sorted_wrt (<) (map fst (sr_steps c))" "i < length (sr_steps c)" "t \<le> now"
    "i + 1 < length (sr_steps c) \<longrightarrow> now < t + int (fst (sr_steps c ! (i + 1))) - int (fst (sr_steps c ! i))"
  shows "\<exists>c' c''. jump_to_step t i c = (c', Inr (snd (sr_steps c ! i)))
    \<and> step_update now c' = Some (c'', \<lparr>target_rps = snd (sr_steps c ! i)\<rparr>)"
proof -
  define c' where "c' = c\<lparr>sr_current_rps := snd (sr_steps c ! i), sr_start_time := t - int (fst (sr_steps c ! i))\<rparr>"
  have j: "jump_to_step t i c = (c', Inr (snd (sr_steps c ! i)))"
    using assms(2) by (simp add: jump_to_step_def c'_def split_beta Let_def)
  define e where "e = duration_since now (sr_start_time c')"
  have e: "fst (sr_steps c ! i) \<le> e" "i + 1 < length (sr_steps c) \<longrightarrow> e < fst (sr_steps c ! (i + 1))"
    using assms(3,4) by (auto simp: e_def duration_since_def c'_def)
  have s: "sr_steps c' \<noteq> []" "sorted (map fst (sr_steps c'))"
    using assms(1,2) by (auto simp: c'_def strict_sorted_imp_sorted)
  have "scheduled_rate (sr_steps c) e = snd (sr_steps c ! i)" by (rule scheduled_rate_at[OF assms(1,2) e])
  then show ?thesis using j step_update_scheduled[OF s, of now] by (auto simp: Let_def e_def c'_def)
qed


theorem jump_plays_full_step_witness:
  "\<exists>c' c''. jump_to_step 100 1 \<lparr>sr_steps = [(0, lit 1), (10, lit 2), (20, lit 3)], sr_current_rps = lit 1, sr_start_time = 0\<rparr>
      = (c', Inr (lit 2))
    \<and> step_update 109 c' = Some (c'', \<lparr>target_rps = lit 2\<rparr>)"
  using jump_plays_full_step[of "\<lparr>sr_steps = [(0, lit 1), (10, lit 2), (20, lit 3)], sr_current_rps = lit 1, sr_start_time = 0\<rparr>" 1 100 109]
  by simp

text \<open>
  The rate that \<^verbatim>\<open>set_step_rps\<close> reports to hold "until next time boundary" is discarded by the very
  next tick: a tick after the update returns exactly what it would have returned without it.
\<close>

theorem set_step_rps_lost_at_next_tick:
  "step_update now (fst (step_apply_update t ''set_step_rps'' ps c)) = step_update now c"
  by (cases "p_f64 ps ''rps''")
    (simp_all add: step_apply_update_def step_set_rate_def step_update_def update_from_time_def split: list.split)

end
