(* ===== verification/Builder.thy ===== *)
theory Builder
  imports Controllers
begin

text \<open>
  Building a controller from its configuration (\<^verbatim>\<open>builder.rs\<close>, and the builder methods of
  \<^verbatim>\<open>ArbiterConfig\<close>). A configuration the code refuses by \<^verbatim>\<open>panic!\<close>, \<^verbatim>\<open>assert!\<close> or \<^verbatim>\<open>unreachable!\<close> is a
  value of \<open>BuildError\<close>.
\<close>

section \<open>Builder methods of \<^verbatim>\<open>ArbiterConfig\<close>\<close>

definition with_strategy :: "CompositionStrategy \<Rightarrow> ArbiterConfig \<Rightarrow> ArbiterConfig" where
  "with_strategy strategy c = c\<lparr>abc_strategy := strategy\<rparr>"

definition with_increase_policy :: "IncreasePolicyConfig \<Rightarrow> ArbiterConfig \<Rightarrow> ArbiterConfig" where
  "with_increase_policy increase c = c\<lparr>abc_increase := increase\<rparr>"

definition with_rate_change_limits :: "RateChangeLimits \<Rightarrow> ArbiterConfig \<Rightarrow> ArbiterConfig" where
  "with_rate_change_limits limits c = c\<lparr>abc_rate_change_limits := limits\<rparr>"

definition with_backoff_detection_threshold :: "f64 \<Rightarrow> ArbiterConfig \<Rightarrow> ArbiterConfig" where
  "with_backoff_detection_threshold threshold c = c\<lparr>abc_backoff_detection_threshold := threshold\<rparr>"

definition with_cooldown :: "u32 \<Rightarrow> f64 \<Rightarrow> ArbiterConfig \<Rightarrow> ArbiterConfig" where
  "with_cooldown min_ticks recovery_multiplier c =
     c\<lparr>abc_cooldown_min_ticks := min_ticks, abc_cooldown_recovery_multiplier := recovery_multiplier\<rparr>"

definition with_known_good_floor :: "f64 \<Rightarrow> duration \<Rightarrow> ArbiterConfig \<Rightarrow> ArbiterConfig" where
  "with_known_good_floor fraction window c =
     c\<lparr>abc_known_good_floor_fraction := fraction, abc_known_good_window := window\<rparr>"

definition with_warmup :: "f64 \<Rightarrow> duration \<Rightarrow> ArbiterConfig \<Rightarrow> ArbiterConfig" where
  "with_warmup rps dur c = c\<lparr>abc_warmup := Some (rps, dur)\<rparr>"

definition with_exploration :: "ExplorationManager \<Rightarrow> ArbiterConfig \<Rightarrow> ArbiterConfig" where
  "with_exploration manager c = c\<lparr>abc_exploration_manager := Some manager\<rparr>"

definition with_trace_path :: "string \<Rightarrow> ArbiterConfig \<Rightarrow> ArbiterConfig" where
  "with_trace_path path c = c\<lparr>abc_trace_path := Some path\<rparr>"

lemmas with_defs = with_strategy_def with_increase_policy_def with_rate_change_limits_def
  with_backoff_detection_threshold_def with_cooldown_def with_known_good_floor_def with_warmup_def
  with_exploration_def with_trace_path_def

section \<open>Mapping helpers\<close>

datatype BuildError =
    NoSteps
  | BaselineWithoutWarmup string
  | ThresholdOnThroughput InternalMetric
  | SetpointNotMeaningful string InternalMetric
  | UnreachableTarget InternalMetric

fun map_metric_ref_to_extractor :: "MetricRef \<Rightarrow> BuildError + MetricExtractor" where
  "map_metric_ref_to_extractor (MR_Internal IM_LatencyP50) = Inr LatencyP50Ms"
| "map_metric_ref_to_extractor (MR_Internal IM_LatencyP90) = Inr LatencyP90Ms"
| "map_metric_ref_to_extractor (MR_Internal IM_LatencyP99) = Inr LatencyP99Ms"
| "map_metric_ref_to_extractor (MR_Internal IM_ErrorRate) = Inr ErrorRatePct"
| "map_metric_ref_to_extractor (MR_Internal IM_ThroughputSend) = Inl (ThresholdOnThroughput IM_ThroughputSend)"
| "map_metric_ref_to_extractor (MR_Internal IM_ThroughputRecv) = Inl (ThresholdOnThroughput IM_ThroughputRecv)"
| "map_metric_ref_to_extractor (MR_Internal IM_TimeoutFraction) = Inr TimeoutFraction"
| "map_metric_ref_to_extractor (MR_Internal IM_InFlightDropFraction) = Inr InFlightDropFraction"
| "map_metric_ref_to_extractor (MR_External ext) = Inr (External (emr_name ext) (emr_direction ext))"

fun map_metric_ref_to_target :: "MetricRef \<Rightarrow> BuildError + TargetMetric" where
  "map_metric_ref_to_target (MR_Internal IM_LatencyP50) = Inr TM_LatencyP50"
| "map_metric_ref_to_target (MR_Internal IM_LatencyP90) = Inr TM_LatencyP90"
| "map_metric_ref_to_target (MR_Internal IM_LatencyP99) = Inr TM_LatencyP99"
| "map_metric_ref_to_target (MR_Internal IM_ErrorRate) = Inr TM_ErrorRate"
| "map_metric_ref_to_target (MR_Internal IM_ThroughputSend) = Inr TM_ThroughputSend"
| "map_metric_ref_to_target (MR_Internal IM_ThroughputRecv) = Inr TM_ThroughputRecv"
| "map_metric_ref_to_target (MR_Internal IM_TimeoutFraction) = Inl (UnreachableTarget IM_TimeoutFraction)"
| "map_metric_ref_to_target (MR_Internal IM_InFlightDropFraction) = Inl (UnreachableTarget IM_InFlightDropFraction)"
| "map_metric_ref_to_target (MR_External ext) = Inr (TM_External (emr_name ext))"

fun default_smoother_for_metric :: "MetricRef \<Rightarrow> Smoother" where
  "default_smoother_for_metric (MR_Internal IM_LatencyP50) = Smoother_median 3"
| "default_smoother_for_metric (MR_Internal IM_LatencyP90) = Smoother_median 3"
| "default_smoother_for_metric (MR_Internal IM_LatencyP99) = Smoother_median 3"
| "default_smoother_for_metric _ = Smoother_ema (lit 0.3)"

fun map_smoother_config :: "SmootherConfig option \<Rightarrow> MetricRef \<Rightarrow> Smoother" where
  "map_smoother_config (Some SC_None) metric = Smoother_none"
| "map_smoother_config (Some (SC_Ema alpha)) metric = Smoother_ema alpha"
| "map_smoother_config (Some (SC_Median k)) metric = Smoother_median k"
| "map_smoother_config None metric = default_smoother_for_metric metric"

fun map_smoother_config_for_pid :: "SmootherConfig option \<Rightarrow> MetricRef \<Rightarrow> GainsConfig \<Rightarrow> Smoother" where
  "map_smoother_config_for_pid (Some SC_None) metric gains = Smoother_none"
| "map_smoother_config_for_pid (Some (SC_Ema alpha)) metric gains = Smoother_ema alpha"
| "map_smoother_config_for_pid (Some (SC_Median k)) metric gains = Smoother_median k"
| "map_smoother_config_for_pid None metric (GC_Auto _ smoothing) = Smoother_ema smoothing"
| "map_smoother_config_for_pid None metric (GC_Manual _ _ _) = default_smoother_for_metric metric"

definition map_constraint_class :: "ConstraintClassConfig option \<Rightarrow> MetricRef \<Rightarrow> ConstraintClass" where
  "map_constraint_class class_override metric = (case class_override of
     Some CCC_OperatingPoint \<Rightarrow> OperatingPoint
   | Some CCC_Catastrophic \<Rightarrow> Catastrophic
   | None \<Rightarrow> if metric = MR_Internal IM_TimeoutFraction \<or> metric = MR_Internal IM_InFlightDropFraction
            then Catastrophic else OperatingPoint)"

fun map_metric_direction :: "MetricRef \<Rightarrow> SignalDirection" where
  "map_metric_direction (MR_External ext) = emr_direction ext"
| "map_metric_direction (MR_Internal im) =
     (if im = IM_ThroughputSend \<or> im = IM_ThroughputRecv then LowerIsWorse else HigherIsWorse)"

definition map_backoff_config :: "BackoffConfig option \<Rightarrow> BackoffSchedule" where
  "map_backoff_config config = (case config of
     Some bc \<Rightarrow> \<lparr>bs_gentle = bc_gentle bc, bs_moderate = bc_moderate bc, bs_hard = bc_hard bc\<rparr>
   | None \<Rightarrow> BackoffSchedule_default)"

definition map_severity_for_threshold :: "MetricRef \<Rightarrow> f64 \<Rightarrow> SeverityMapping" where
  "map_severity_for_threshold metric threshold =
     (if metric = MR_Internal IM_TimeoutFraction then TimeoutDirect (threshold * lit 100)
      else if metric = MR_Internal IM_InFlightDropFraction then InFlightDirect
      else if metric = MR_Internal IM_ErrorRate then ErrorRateDirect threshold
      else Graduated)"

fun map_external_constraint_config :: "MetricRef \<Rightarrow> ExternalConstraintConfig option" where
  "map_external_constraint_config (MR_External ext) = Some \<lparr>
     ecc_signal_name = emr_name ext, ecc_threshold = lit 0, ecc_direction = emr_direction ext,
     ecc_on_missing = emr_on_missing ext, ecc_stale_after_ticks = emr_stale_after_ticks ext, ecc_persistence = 1\<rparr>"
| "map_external_constraint_config (MR_Internal _) = None"

fun default_recovery_seed :: "ConstraintClass \<Rightarrow> f64" where
  "default_recovery_seed Catastrophic = lit 20"
| "default_recovery_seed OperatingPoint = lit 5"

section \<open>Constraints\<close>

definition build_threshold_constraint :: "ThresholdConstraintConfig \<Rightarrow> bool \<Rightarrow> BuildError + Constraint" where
  "build_threshold_constraint tc has_warmup = (case map_metric_ref_to_extractor (tcc_metric tc) of
     Inl e \<Rightarrow> Inl e
   | Inr metric \<Rightarrow>
       (let class = map_constraint_class (tcc_class_override tc) (tcc_metric tc);
            build = (\<lambda>threshold multiplier floor_ms. Inr (Threshold (ThresholdConstraint_new \<lparr>
              tc_id = tcc_id tc, tc_class = class, tc_metric = metric,
              tc_smoother = map_smoother_config (tcc_smoother tc) (tcc_metric tc), tc_threshold = threshold,
              tc_severity_mapping = map_severity_for_threshold (tcc_metric tc) threshold,
              tc_persistence = tcc_persistence tc, tc_recovery_seed = default_recovery_seed class,
              tc_backoff = map_backoff_config (tcc_backoff tc),
              tc_external = map_external_constraint_config (tcc_metric tc),
              tc_self_caused_cap = tcc_self_caused_cap tc, tc_direction = map_metric_direction (tcc_metric tc),
              tc_baseline_multiplier = multiplier, tc_baseline_floor_ms = floor_ms\<rparr>)))
        in case tcc_threshold_source tc of
             TS_Absolute threshold \<Rightarrow> build threshold None None
           | TS_FromBaseline bm \<Rightarrow>
               if \<not> has_warmup then Inl (BaselineWithoutWarmup (tcc_id tc))
               else build (lit 0) (Some (bm_multiplier bm)) (Some (bm_baseline_floor_ms bm))))"

text \<open>The \<^verbatim>\<open>Setpoint\<close> arm; it also returns the exploration that an auto-tuned constraint asks for.\<close>

definition build_setpoint_constraint :: "SetpointConstraintConfig \<Rightarrow> BuildError + Constraint \<times> MetricExploration list" where
  "build_setpoint_constraint sc =
     (if scc_metric sc = MR_Internal IM_TimeoutFraction then Inl (SetpointNotMeaningful (scc_id sc) IM_TimeoutFraction)
      else if scc_metric sc = MR_Internal IM_InFlightDropFraction
        then Inl (SetpointNotMeaningful (scc_id sc) IM_InFlightDropFraction)
      else case map_metric_ref_to_target (scc_metric sc) of
          Inl e \<Rightarrow> Inl e
        | Inr target_metric \<Rightarrow>
            (let smoother = map_smoother_config_for_pid (scc_smoother sc) (scc_metric sc) (scc_gains sc)
             in case scc_gains sc of
                  GC_Manual kp ki kd \<Rightarrow>
                    Inr (Pid (set_tracking_gain (scc_tracking_gain sc)
                      (PidConstraint_new (scc_id sc) target_metric (scc_target sc) kp ki kd smoother False)), [])
                | GC_Auto _ smoothing \<Rightarrow>
                    Inr (Pid (set_tracking_gain (scc_tracking_gain sc)
                      (PidConstraint_auto_tuning (scc_id sc) target_metric (scc_target sc)
                        (if scc_smoother sc \<noteq> None then smoother else Smoother_ema smoothing))),
                     [MetricExploration_new target_metric (scc_target sc)])))"

fun build_adaptive_constraint :: "ConstraintConfig \<Rightarrow> bool \<Rightarrow> MetricExploration list \<Rightarrow> BuildError + Constraint \<times> MetricExploration list" where
  "build_adaptive_constraint (CC_Threshold tc) has_warmup autos = (case build_threshold_constraint tc has_warmup of
     Inl e \<Rightarrow> Inl e | Inr c \<Rightarrow> Inr (c, autos))"
| "build_adaptive_constraint (CC_Setpoint sc) has_warmup autos = (case build_setpoint_constraint sc of
     Inl e \<Rightarrow> Inl e | Inr (c, new) \<Rightarrow> Inr (c, autos @ new))"

text \<open>The \<^verbatim>\<open>map\<close> over the constraint configurations, which threads the list of explorations.\<close>

fun build_constraints :: "ConstraintConfig list \<Rightarrow> bool \<Rightarrow> MetricExploration list \<Rightarrow> BuildError + Constraint list \<times> MetricExploration list" where
  "build_constraints [] has_warmup autos = Inr ([], autos)"
| "build_constraints (cc # ccs) has_warmup autos = (case build_adaptive_constraint cc has_warmup autos of
     Inl e \<Rightarrow> Inl e
   | Inr (c, autos') \<Rightarrow> (case build_constraints ccs has_warmup autos' of
       Inl e \<Rightarrow> Inl e
     | Inr (cs, autos'') \<Rightarrow> Inr (c # cs, autos'')))"

section \<open>\<^verbatim>\<open>build_rate_controller\<close>\<close>

fun auto_duration :: "ConstraintConfig \<Rightarrow> duration option" where
  "auto_duration (CC_Setpoint sc) = (case scc_gains sc of GC_Auto d _ \<Rightarrow> Some d | _ \<Rightarrow> None)"
| "auto_duration (CC_Threshold _) = None"

definition max_autotune_duration :: "ConstraintConfig list \<Rightarrow> duration" where
  "max_autotune_duration ccs = (case List.map_filter auto_duration ccs of [] \<Rightarrow> secs 3 | d # ds \<Rightarrow> fold max ds d)"

fun map_increase_config :: "IncreaseConfig \<Rightarrow> IncreasePolicyConfig" where
  "map_increase_config (Multiplicative factor congestion_avoidance) =
     \<lparr>ipc_increase_factor = factor, ipc_congestion_avoidance = congestion_avoidance\<rparr>"
| "map_increase_config (Additive increment) = \<lparr>ipc_increase_factor = lit 1, ipc_congestion_avoidance = None\<rparr>"

definition when_some :: "'a option \<Rightarrow> ('a \<Rightarrow> 'c \<Rightarrow> 'c) \<Rightarrow> 'c \<Rightarrow> 'c" where
  "when_some v f c = (case v of None \<Rightarrow> c | Some x \<Rightarrow> f x c)"

definition build_adaptive ::
  "bool \<Rightarrow> AdaptiveConfig \<Rightarrow> duration \<Rightarrow> duration \<Rightarrow> instant \<Rightarrow> string option \<Rightarrow> BuildError + Arbiter" where
  "build_adaptive trace_ok ac control_interval test_duration now trace_path =
     (let initial = initial_rps_of (RC_Adaptive ac)
      in case build_constraints (ac_constraints ac) (ac_warmup ac \<noteq> None) [] of
           Inl e \<Rightarrow> Inl e
         | Inr (constraints, autos) \<Rightarrow>
             (let c0 = ArbiterConfig_new constraints initial (bounds_min_rps (ac_bounds ac)) (bounds_max_rps (ac_bounds ac)) test_duration;
                  c1 = when_some (ac_warmup ac) (\<lambda>w. with_warmup (wc_rps w) (wc_duration w)) c0;
                  c2 = (if autos \<noteq> []
                        then with_exploration (ExplorationManager_new autos initial
                               (max_autotune_duration (ac_constraints ac)) control_interval) c1
                        else c1);
                  c3 = when_some (ac_increase ac) (\<lambda>inc. with_increase_policy (map_increase_config inc)) c2;
                  c4 = when_some (ac_cooldown ac) (\<lambda>cd. with_cooldown (cp_min_ticks cd) (cp_recovery_multiplier cd)) c3;
                  c5 = when_some (ac_floor ac) (\<lambda>fl. with_known_good_floor (fp_fraction fl) (fp_window fl)) c4;
                  c6 = when_some (ac_rate_change_limits ac) with_rate_change_limits c5;
                  c7 = when_some trace_path with_trace_path c6
              in Inr (Arbiter_new trace_ok now c7)))"

definition build_rate_controller ::
  "bool \<Rightarrow> RateConfig \<Rightarrow> duration \<Rightarrow> instant \<Rightarrow> duration \<Rightarrow> instant \<Rightarrow> string option \<Rightarrow> BuildError + RateController" where
  "build_rate_controller trace_ok rate control_interval start_time test_duration now trace_path = (case rate of
     RC_Static rps \<Rightarrow> Inr (StaticRate (StaticRateController_new rps))
   | RC_Step steps \<Rightarrow> (case StepRateController_new steps start_time of
       None \<Rightarrow> Inl NoSteps | Some c \<Rightarrow> Inr (StepRate c))
   | RC_Adaptive ac \<Rightarrow> (case build_adaptive trace_ok ac control_interval test_duration now trace_path of
       Inl e \<Rightarrow> Inl e | Inr c \<Rightarrow> Inr (ArbiterRate c)))"

definition build_arbiter ::
  "bool \<Rightarrow> RateConfig \<Rightarrow> duration \<Rightarrow> instant \<Rightarrow> duration \<Rightarrow> instant \<Rightarrow> string option \<Rightarrow> (BuildError + RateController) option" where
  "build_arbiter trace_ok rate control_interval start_time test_duration now trace_path = (case rate of
     RC_Adaptive _ \<Rightarrow> Some (build_rate_controller trace_ok rate control_interval start_time test_duration now trace_path)
   | _ \<Rightarrow> None)"


section \<open>What is refused, and what a built controller satisfies\<close>

text \<open>The constraint configurations the builder panics on.\<close>

fun refused :: "bool \<Rightarrow> ConstraintConfig \<Rightarrow> bool" where
  "refused has_warmup (CC_Threshold tc) \<longleftrightarrow>
     tcc_metric tc \<in> {MR_Internal IM_ThroughputSend, MR_Internal IM_ThroughputRecv}
     \<or> (\<not> has_warmup \<and> (case tcc_threshold_source tc of TS_FromBaseline _ \<Rightarrow> True | _ \<Rightarrow> False))"
| "refused has_warmup (CC_Setpoint sc) \<longleftrightarrow>
     scc_metric sc \<in> {MR_Internal IM_TimeoutFraction, MR_Internal IM_InFlightDropFraction}"

lemma extractor_refused:
  "(\<exists>e. map_metric_ref_to_extractor mr = Inl e) \<longleftrightarrow> mr \<in> {MR_Internal IM_ThroughputSend, MR_Internal IM_ThroughputRecv}"
  by (cases mr rule: map_metric_ref_to_extractor.cases) simp_all

lemma target_refused:
  "(\<exists>e. map_metric_ref_to_target mr = Inl e) \<longleftrightarrow> mr \<in> {MR_Internal IM_TimeoutFraction, MR_Internal IM_InFlightDropFraction}"
  by (cases mr rule: map_metric_ref_to_target.cases) simp_all

lemma build_adaptive_constraint_refused:
  "(\<exists>e. build_adaptive_constraint cc hw autos = Inl e) \<longleftrightarrow> refused hw cc"
proof (cases cc)
  case (CC_Threshold tc)
  show ?thesis
  proof (cases "map_metric_ref_to_extractor (tcc_metric tc)")
    case (Inl e)
    then show ?thesis using CC_Threshold extractor_refused[of "tcc_metric tc"] by (simp add: build_threshold_constraint_def)
  next
    case (Inr x)
    then have "tcc_metric tc \<notin> {MR_Internal IM_ThroughputSend, MR_Internal IM_ThroughputRecv}"
      using extractor_refused[of "tcc_metric tc"] by auto
    then show ?thesis using CC_Threshold Inr
      by (simp add: build_threshold_constraint_def Let_def split: ThresholdSource.split)
  qed
next
  case (CC_Setpoint sc)
  show ?thesis
  proof (cases "map_metric_ref_to_target (scc_metric sc)")
    case (Inl e)
    then show ?thesis using CC_Setpoint target_refused[of "scc_metric sc"] by (auto simp: build_setpoint_constraint_def)
  next
    case (Inr x)
    then have "scc_metric sc \<notin> {MR_Internal IM_TimeoutFraction, MR_Internal IM_InFlightDropFraction}"
      using target_refused[of "scc_metric sc"] by auto
    then show ?thesis using CC_Setpoint Inr
      by (simp add: build_setpoint_constraint_def Let_def split: GainsConfig.split)
  qed
qed

lemma build_constraints_refused: "(\<exists>e. build_constraints ccs hw autos = Inl e) \<longleftrightarrow> list_ex (refused hw) ccs"
proof (induction ccs hw autos rule: build_constraints.induct)
  case (2 cc ccs hw autos)
  show ?case
  proof (cases "build_adaptive_constraint cc hw autos")
    case (Inl e)
    then show ?thesis using build_adaptive_constraint_refused[of cc hw autos] by simp
  next
    case (Inr p)
    then have "\<not> refused hw cc" using build_adaptive_constraint_refused[of cc hw autos] by auto
    then show ?thesis using 2[OF Inr, of "fst p" "snd p"] Inr by (auto split: sum.splits prod.splits)
  qed
qed simp

definition config_ok :: "RateConfig \<Rightarrow> bool" where
  "config_ok rate = (case rate of
     RC_Static rps \<Rightarrow> rate_ok rps
   | RC_Step steps \<Rightarrow> list_all (\<lambda>(_, rps). rate_ok rps) steps
   | RC_Adaptive ac \<Rightarrow>
       rate_ok (bounds_min_rps (ac_bounds ac)) \<and> rate_ok (bounds_max_rps (ac_bounds ac))
       \<and> bounds_min_rps (ac_bounds ac) \<le> bounds_max_rps (ac_bounds ac)
       \<and> pred_option rate_ok (ac_initial_rps ac) \<and> pred_option (rate_ok \<circ> wc_rps) (ac_warmup ac)
       \<and> pred_option limits_ok (ac_rate_change_limits ac))"

lemma rate_ok_half: "rate_ok r \<Longrightarrow> rate_ok (r * lit 0.5)"
  using fmul_le_self[of r "lit 0.5"] fmul_nonneg[of r "lit 0.5"] finite_between[of 0 "r * lit 0.5" r]
  by (simp add: rate_ok_def f64_eval flip: lit_01)

definition arbiter_config_ok :: "ArbiterConfig \<Rightarrow> bool" where
  "arbiter_config_ok c \<longleftrightarrow>
     rate_ok (abc_initial_rps c) \<and> rate_ok (abc_min_rps c) \<and> rate_ok (abc_max_rps c) \<and> abc_min_rps c \<le> abc_max_rps c
     \<and> limits_ok (abc_rate_change_limits c) \<and> pred_option (rate_ok \<circ> fst) (abc_warmup c)
     \<and> pred_option (rate_ok \<circ> em_initial_rps) (abc_exploration_manager c)"

lemma arbiter_config_ok_new:
  "arbiter_config_ok (ArbiterConfig_new cs ini mn mx dur) \<longleftrightarrow> rate_ok ini \<and> rate_ok mn \<and> rate_ok mx \<and> mn \<le> mx"
  by (simp add: arbiter_config_ok_def ArbiterConfig_new_def)

lemma arbiter_config_ok_with [simp]:
  "arbiter_config_ok (with_increase_policy i c) = arbiter_config_ok c"
  "arbiter_config_ok (with_cooldown k f c) = arbiter_config_ok c"
  "arbiter_config_ok (with_known_good_floor f d c) = arbiter_config_ok c"
  "arbiter_config_ok (with_trace_path p c) = arbiter_config_ok c"
  "arbiter_config_ok c \<Longrightarrow> limits_ok l \<Longrightarrow> arbiter_config_ok (with_rate_change_limits l c)"
  "arbiter_config_ok c \<Longrightarrow> rate_ok r \<Longrightarrow> arbiter_config_ok (with_warmup r d c)"
  "arbiter_config_ok c \<Longrightarrow> rate_ok (em_initial_rps em) \<Longrightarrow> arbiter_config_ok (with_exploration em c)"
  by (simp_all add: arbiter_config_ok_def with_defs)

lemma arbiter_config_ok_when:
  "\<lbrakk>arbiter_config_ok c; \<And>x c. v = Some x \<Longrightarrow> arbiter_config_ok c \<Longrightarrow> arbiter_config_ok (f x c)\<rbrakk>
    \<Longrightarrow> arbiter_config_ok (when_some v f c)"
  by (simp add: when_some_def split: option.split)

lemma Arbiter_new_ok: "arbiter_config_ok c \<Longrightarrow> arbiter_ok (Arbiter_new trace_ok now c)"
  using rate_ok_half[of "em_initial_rps (the (abc_exploration_manager c))"]
  by (cases "abc_exploration_manager c"; cases "abc_warmup c")
    (auto simp: arbiter_config_ok_def arbiter_ok_def Arbiter_new_def Let_def ProgressiveCeiling_started_def
      ProgressiveCeiling_new_def)

lemma build_adaptive_ok:
  assumes "config_ok (RC_Adaptive ac)" "build_adaptive trace_ok ac ci td now path = Inr ab"
  shows "arbiter_ok ab"
proof -
  have i: "rate_ok (initial_rps_of (RC_Adaptive ac))"
    using assms(1) by (auto simp: config_ok_def initial_rps_of_def split: option.splits)
  obtain cs autos where cs: "build_constraints (ac_constraints ac) (ac_warmup ac \<noteq> None) [] = Inr (cs, autos)"
    using assms(2) by (auto simp: build_adaptive_def Let_def split: sum.splits)
  define c1 where "c1 = when_some (ac_warmup ac) (\<lambda>w. with_warmup (wc_rps w) (wc_duration w))
    (ArbiterConfig_new cs (initial_rps_of (RC_Adaptive ac)) (bounds_min_rps (ac_bounds ac)) (bounds_max_rps (ac_bounds ac)) td)"
  define c2 where "c2 = (if autos \<noteq> [] then with_exploration (ExplorationManager_new autos (initial_rps_of (RC_Adaptive ac))
    (max_autotune_duration (ac_constraints ac)) ci) c1 else c1)"
  have "arbiter_config_ok c1" unfolding c1_def
    using i assms(1) by (intro arbiter_config_ok_when) (simp_all add: arbiter_config_ok_new config_ok_def)
  then have "arbiter_config_ok c2" using i by (simp add: c2_def ExplorationManager_new_def)
  moreover have "ab = Arbiter_new trace_ok now (when_some path with_trace_path
      (when_some (ac_rate_change_limits ac) with_rate_change_limits
      (when_some (ac_floor ac) (\<lambda>fl. with_known_good_floor (fp_fraction fl) (fp_window fl))
      (when_some (ac_cooldown ac) (\<lambda>cd. with_cooldown (cp_min_ticks cd) (cp_recovery_multiplier cd))
      (when_some (ac_increase ac) (\<lambda>inc. with_increase_policy (map_increase_config inc)) c2)))))"
    using assms(2) unfolding build_adaptive_def Let_def cs sum.case prod.case c1_def[symmetric] c2_def[symmetric] by simp
  ultimately show ?thesis
    using assms(1) by (simp only:) (intro Arbiter_new_ok arbiter_config_ok_when; simp add: config_ok_def)
qed

lemma build_rate_controller_ok:
  assumes "config_ok rate" "build_rate_controller trace_ok rate ci start td now path = Inr c"
  shows "controller_ok c"
proof (cases rate)
  case (RC_Step steps)
  then show ?thesis using assms
    by (cases steps) (auto simp: build_rate_controller_def StepRateController_new_def step_ok_def config_ok_def list_all_iff)
next
  case (RC_Adaptive ac)
  then show ?thesis using assms build_adaptive_ok[of ac]
    by (auto simp: build_rate_controller_def split: sum.splits)
qed (use assms in \<open>auto simp: build_rate_controller_def config_ok_def StaticRateController_new_def\<close>)

lemma build_rate_controller_Inr:
  "(\<exists>c. build_rate_controller trace_ok rate ci start td now path = Inr c) \<longleftrightarrow> (case rate of
     RC_Static _ \<Rightarrow> True
   | RC_Step steps \<Rightarrow> steps \<noteq> []
   | RC_Adaptive ac \<Rightarrow> \<not> list_ex (refused (ac_warmup ac \<noteq> None)) (ac_constraints ac))"
proof (cases rate)
  case (RC_Adaptive ac)
  then show ?thesis using build_constraints_refused[of "ac_constraints ac" "ac_warmup ac \<noteq> None" "[]"]
    by (auto simp: build_rate_controller_def build_adaptive_def Let_def split: sum.splits)
qed (auto simp: build_rate_controller_def StepRateController_new_def split: list.split)

section \<open>Properties\<close>

text \<open>
  C16. A controller built from a configuration with ordered finite bounds and finite non-negative rates
  survives every sequence of control ticks, operator overrides with finite non-negative rates and finite
  changes of the maximum: no tick and no override panics, and every rate ordered is finite and
  non-negative. This holds for the static, the step and the adaptive controller, with any constraints.
\<close>

theorem built_controller_never_panics:
  assumes "config_ok rate" "build_rate_controller trace_ok rate ci start td now path = Inr c"
    "\<forall>e \<in> set es. event_fine e"
  shows "\<exists>c' rates. run_events (RateController_update m) RateController_set_rate RateController_set_max_rps es c = Some (c', rates)
    \<and> (\<forall>r \<in> set rates. rate_ok r)"
  using dyn_rate.run_total[OF build_rate_controller_ok[OF assms(1,2)] assms(3)] by blast

definition demo_adaptive :: AdaptiveConfig where
  "demo_adaptive = \<lparr>ac_bounds = \<lparr>bounds_min_rps = lit 10, bounds_max_rps = lit 1000\<rparr>,
     ac_warmup = Some \<lparr>wc_rps = lit 50, wc_duration = secs 5\<rparr>, ac_initial_rps = None,
     ac_constraints = [CC_Threshold \<lparr>tcc_id = ''t'', tcc_metric = MR_Internal IM_TimeoutFraction, tcc_smoother = None,
       tcc_class_override = None, tcc_threshold_source = TS_Absolute (lit 1), tcc_persistence = 1,
       tcc_self_caused_cap = None, tcc_backoff = None\<rparr>],
     ac_increase = Some (Additive (lit 25)), ac_cooldown = None, ac_floor = None, ac_rate_change_limits = None\<rparr>"

lemma demo_adaptive_ok: "config_ok (RC_Adaptive demo_adaptive)"
  by (simp add: config_ok_def demo_adaptive_def rate_ok_def f64_eval flip: lit_01)

theorem built_controller_never_panics_witness:
  "\<exists>c c' rates. build_rate_controller False (RC_Adaptive demo_adaptive) 100 0 (secs 60) 0 None = Inr c
    \<and> run_events (RateController_update demo_libm) RateController_set_rate RateController_set_max_rps
      [SetRateEvent 1 (lit 50), TickEvent 2 MetricsSummary_default, SetMaxEvent (lit 200)] c = Some (c', rates)
    \<and> (\<forall>r \<in> set rates. rate_ok r)"
proof -
  obtain c where c: "build_rate_controller False (RC_Adaptive demo_adaptive) 100 0 (secs 60) 0 None = Inr c"
    using build_rate_controller_Inr[of False "RC_Adaptive demo_adaptive" 100 0 "secs 60" 0 None]
    by (auto simp: demo_adaptive_def)
  have "\<forall>e \<in> set [SetRateEvent 1 (lit 50), TickEvent 2 MetricsSummary_default, SetMaxEvent (lit 200)]. event_fine e"
    by (simp add: rate_ok_def f64_eval flip: lit_01)
  from built_controller_never_panics[OF demo_adaptive_ok c this] c show ?thesis by blast
qed


text \<open>
  An additive increase policy never increases the rate: the configured increment does not reach the
  controller, so any two increments build the same controller, and the increase it computes from a finite
  rate is that rate.
\<close>

theorem additive_increment_ignored:
  assumes "is_finite rps"
  shows "build_rate_controller trace_ok (RC_Adaptive (ac\<lparr>ac_increase := Some (Additive i)\<rparr>)) ci start td now path =
      build_rate_controller trace_ok (RC_Adaptive (ac\<lparr>ac_increase := Some (Additive j)\<rparr>)) ci start td now path
    \<and> IncreasePolicy_compute rps cd (IncreasePolicy_new (map_increase_config (Additive i))) = rps"
proof -
  have "initial_rps_of (RC_Adaptive (ac\<lparr>ac_increase := x\<rparr>)) = initial_rps_of (RC_Adaptive ac)" for x
    by (simp add: initial_rps_of_def split: option.split)
  then have "build_adaptive trace_ok (ac\<lparr>ac_increase := Some (Additive i)\<rparr>) ci td now path =
      build_adaptive trace_ok (ac\<lparr>ac_increase := Some (Additive j)\<rparr>) ci td now path"
    by (simp add: build_adaptive_def when_some_def[of "Some (Additive _)"] Let_def split: sum.split)
  moreover have "IncreasePolicy_compute rps cd (IncreasePolicy_new (map_increase_config (Additive i))) = rps"
    using assms by (simp add: IncreasePolicy_compute_def IncreasePolicy_new_def lit_01 fmul_lit lit_key)
  ultimately show ?thesis by (simp add: build_rate_controller_def)
qed

theorem additive_increment_ignored_witness:
  "build_rate_controller False (RC_Adaptive (demo_adaptive\<lparr>ac_increase := Some (Additive (lit 100))\<rparr>)) 100 0 (secs 60) 0 None =
      build_rate_controller False (RC_Adaptive (demo_adaptive\<lparr>ac_increase := Some (Additive (lit 1))\<rparr>)) 100 0 (secs 60) 0 None
    \<and> IncreasePolicy_compute (lit 50) (CooldownState_new 2 (lit 1.5))
        (IncreasePolicy_new (map_increase_config (Additive (lit 100)))) = lit 50"
  by (rule additive_increment_ignored) (simp add: f64_eval)

end
