(* ===== verification/Schedulers.thy ===== *)
theory Schedulers
  imports Rate_Types
begin

text \<open>
  The request schedulers of \<^verbatim>\<open>netanvil-core/src/scheduler\<close>: constant intervals (\<^verbatim>\<open>constant_rate.rs\<close>) and Poisson
  arrivals (\<^verbatim>\<open>poisson.rs\<close>), and the trait object over both. The locale \<open>request_scheduler\<close> is the contract the
  timer thread relies on. \<open>None\<close> of the outer option is a panic of the standard library.
\<close>

section \<open>Durations from seconds\<close>

text \<open>
  \<^verbatim>\<open>Duration::from_secs_f64\<close>: rounds to the nearest nanosecond, ties to even; panics (\<open>None\<close>) on a negative
  value, on NaN and when the seconds do not fit 64 bits. \<^verbatim>\<open>Instant + Duration\<close> panics when the seconds leave
  the signed 64-bit range.
\<close>

definition from_secs_f64 :: "f64 \<Rightarrow> duration option" where
  "from_secs_f64 x = (if \<not> is_finite x \<or> x < 0 \<or> 2 ^ 64 \<le> key x then None else Some (nat (rne (key x * 1000000000))))"

definition instant_limit :: instant where
  "instant_limit = 9223372036854775808 * 1000000000"

definition instant_add :: "instant \<Rightarrow> duration \<Rightarrow> instant option" where
  "instant_add t d = (if t + int d < instant_limit then Some (t + int d) else None)"

section \<open>\<^verbatim>\<open>ConstantRateScheduler\<close> (\<^verbatim>\<open>constant_rate.rs\<close>)\<close>

record ConstantRateScheduler =
  cr_interval :: duration
  cr_next_time :: instant
  cr_end_time :: "instant option"

definition interval_from_rps :: "f64 \<Rightarrow> duration option" where
  "interval_from_rps rps = (if rps \<le> 0 then Some (secs 1) else from_secs_f64 (1 / rps))"

definition end_time_of :: "instant \<Rightarrow> duration option \<Rightarrow> instant option option" where
  "end_time_of start_time dur = (case dur of None \<Rightarrow> Some None | Some d \<Rightarrow> map_option Some (instant_add start_time d))"

definition ConstantRateScheduler_new :: "f64 \<Rightarrow> instant \<Rightarrow> duration option \<Rightarrow> ConstantRateScheduler option" where
  "ConstantRateScheduler_new rps start_time dur = do {
     i \<leftarrow> interval_from_rps rps;
     e \<leftarrow> end_time_of start_time dur;
     Some \<lparr>cr_interval = i, cr_next_time = start_time, cr_end_time = e\<rparr>
   }"

definition past_end :: "instant option \<Rightarrow> instant \<Rightarrow> bool" where
  "past_end end_time next_time = (case end_time of None \<Rightarrow> False | Some e \<Rightarrow> next_time \<ge> e)"

definition constant_next :: "ConstantRateScheduler \<Rightarrow> (ConstantRateScheduler \<times> instant option) option" where
  "constant_next s =
     (if past_end (cr_end_time s) (cr_next_time s) then Some (s, None)
      else do {
        t' \<leftarrow> instant_add (cr_next_time s) (cr_interval s);
        Some (s\<lparr>cr_next_time := t'\<rparr>, Some (cr_next_time s))
      })"

definition constant_update_rate :: "f64 \<Rightarrow> ConstantRateScheduler \<Rightarrow> ConstantRateScheduler option" where
  "constant_update_rate rps s = map_option (\<lambda>i. s\<lparr>cr_interval := i\<rparr>) (interval_from_rps rps)"

section \<open>\<^verbatim>\<open>PoissonScheduler\<close> (\<^verbatim>\<open>poisson.rs\<close>)\<close>

text \<open>
  The exponential distribution and its generator are third-party: whether \<^verbatim>\<open>Exp::new\<close> accepts a rate, and a
  sample at a rate with the generator after it.
\<close>

record 'r exp_ops =
  exp_new_ok :: "f64 \<Rightarrow> bool"
  exp_sample :: "f64 \<Rightarrow> 'r \<Rightarrow> f64 \<times> 'r"

record 'r PoissonScheduler =
  ps_rate :: f64
  ps_next_time :: instant
  ps_end_time :: "instant option"
  ps_rng :: 'r

text \<open>\<^verbatim>\<open>new\<close> and \<^verbatim>\<open>with_seed\<close> differ in how the generator is seeded.\<close>

definition PoissonScheduler_new :: "f64 \<Rightarrow> instant \<Rightarrow> duration option \<Rightarrow> 'r \<Rightarrow> 'r PoissonScheduler option" where
  "PoissonScheduler_new rps start_time dur rng =
     map_option (\<lambda>e. \<lparr>ps_rate = rps, ps_next_time = start_time, ps_end_time = e, ps_rng = rng\<rparr>) (end_time_of start_time dur)"

definition sample_interval :: "'r exp_ops \<Rightarrow> 'r PoissonScheduler \<Rightarrow> ('r PoissonScheduler \<times> duration) option" where
  "sample_interval E s =
     (if ps_rate s \<le> 0 then Some (s, secs 1)
      else let (x, rng) = exp_sample E (if exp_new_ok E (ps_rate s) then ps_rate s else 1) (ps_rng s)
           in map_option (Pair (s\<lparr>ps_rng := rng\<rparr>)) (from_secs_f64 x))"

definition poisson_next :: "'r exp_ops \<Rightarrow> 'r PoissonScheduler \<Rightarrow> ('r PoissonScheduler \<times> instant option) option" where
  "poisson_next E s =
     (if past_end (ps_end_time s) (ps_next_time s) then Some (s, None)
      else do {
        (s', i) \<leftarrow> sample_interval E s;
        t' \<leftarrow> instant_add (ps_next_time s) i;
        Some (s'\<lparr>ps_next_time := t'\<rparr>, Some (ps_next_time s))
      })"

definition poisson_update_rate :: "f64 \<Rightarrow> 'r PoissonScheduler \<Rightarrow> 'r PoissonScheduler" where
  "poisson_update_rate rps s = s\<lparr>ps_rate := rps\<rparr>"

section \<open>\<^verbatim>\<open>Box<dyn RequestScheduler>\<close>\<close>

datatype 'r RequestScheduler = ConstantSched ConstantRateScheduler | PoissonSched "'r PoissonScheduler"

fun next_request_time :: "'r exp_ops \<Rightarrow> 'r RequestScheduler \<Rightarrow> ('r RequestScheduler \<times> instant option) option" where
  "next_request_time E (ConstantSched s) = map_option (map_prod ConstantSched id) (constant_next s)"
| "next_request_time E (PoissonSched s) = map_option (map_prod PoissonSched id) (poisson_next E s)"

fun sched_update_rate :: "f64 \<Rightarrow> 'r RequestScheduler \<Rightarrow> 'r RequestScheduler option" where
  "sched_update_rate rps (ConstantSched s) = map_option ConstantSched (constant_update_rate rps s)"
| "sched_update_rate rps (PoissonSched s) = Some (PoissonSched (poisson_update_rate rps s))"

section \<open>The contract of a scheduler\<close>

text \<open>A client asks for request times and changes the rate, in any order; the times are collected.\<close>

datatype sched_event = PullTime | ChangeRate f64

fun run_sched :: "('s \<Rightarrow> ('s \<times> instant option) option) \<Rightarrow> (f64 \<Rightarrow> 's \<Rightarrow> 's option) \<Rightarrow> sched_event list \<Rightarrow> 's \<Rightarrow> ('s \<times> instant option list) option" where
  "run_sched nxt upd [] s = Some (s, [])"
| "run_sched nxt upd (PullTime # es) s = do {
     (s', t) \<leftarrow> nxt s;
     (s'', ts) \<leftarrow> run_sched nxt upd es s';
     Some (s'', t # ts)
   }"
| "run_sched nxt upd (ChangeRate r # es) s = do {
     s' \<leftarrow> upd r s;
     run_sched nxt upd es s'
   }"

text \<open>Ascending times from \<open>t\<close> on and before the end \<open>e\<close>, then no more.\<close>

definition times_from :: "instant option \<Rightarrow> instant \<Rightarrow> instant option list \<Rightarrow> bool" where
  "times_from e t ts \<longleftrightarrow> (\<exists>us n. ts = map Some us @ replicate n None \<and> sorted us \<and> (\<forall>u \<in> set us. t \<le> u \<and> \<not> past_end e u))"

locale request_scheduler =
  fixes nxt :: "'s \<Rightarrow> ('s \<times> instant option) option"
    and upd :: "f64 \<Rightarrow> 's \<Rightarrow> 's option"
    and due :: "'s \<Rightarrow> instant"
    and deadline :: "'s \<Rightarrow> instant option"
  assumes next_due: "nxt s = Some (s', Some t) \<Longrightarrow> t = due s \<and> due s \<le> due s' \<and> deadline s' = deadline s \<and> \<not> past_end (deadline s) t"
    and next_end: "nxt s = Some (s', None) \<Longrightarrow> s' = s \<and> past_end (deadline s) (due s)"
    and upd_due: "upd r s = Some s' \<Longrightarrow> due s' = due s \<and> deadline s' = deadline s"
begin

lemma ended: "\<lbrakk>run_sched nxt upd es s = Some (s', ts); past_end (deadline s) (due s)\<rbrakk> \<Longrightarrow> \<exists>n. ts = replicate n None"
proof (induction es arbitrary: s ts)
  case Nil
  then show ?case by (auto intro: exI[of _ 0])
next
  case (Cons e es)
  show ?case
  proof (cases e)
    case PullTime
    then obtain s1 t ts' where *: "nxt s = Some (s1, t)" "run_sched nxt upd es s1 = Some (s', ts')" "ts = t # ts'"
      using Cons.prems(1) by (auto simp: bind_Some_iff)
    then have "t = None" "s1 = s" using next_due[of s s1] next_end[of s s1] Cons.prems(2) by (cases t; auto)+
    then show ?thesis using Cons.IH[OF *(2)] Cons.prems(2) *(3) replicate_Suc by metis
  next
    case (ChangeRate r)
    then obtain s1 where *: "upd r s = Some s1" "run_sched nxt upd es s1 = Some (s', ts)"
      using Cons.prems(1) by (auto simp: bind_Some_iff)
    then show ?thesis using Cons.IH[OF *(2)] Cons.prems(2) upd_due[OF *(1)] by simp
  qed
qed

lemma run_times: "run_sched nxt upd es s = Some (s', ts) \<Longrightarrow> times_from (deadline s) (due s) ts"
proof (induction es arbitrary: s ts)
  case Nil
  then show ?case by (auto simp: times_from_def intro!: exI[of _ "[]"])
next
  case (Cons e es)
  show ?case
  proof (cases e)
    case PullTime
    then obtain s1 t ts' where *: "nxt s = Some (s1, t)" "run_sched nxt upd es s1 = Some (s', ts')" "ts = t # ts'"
      using Cons.prems(1) by (auto simp: bind_Some_iff)
    show ?thesis
    proof (cases t)
      case None
      then have "s1 = s" "past_end (deadline s) (due s)" using next_end *(1) by auto
      then obtain n where "ts' = replicate n None" using ended *(2) by blast
      then have "ts = map Some [] @ replicate (Suc n) None" using *(3) None by simp
      then show ?thesis unfolding times_from_def by (metis empty_iff list.set(1) sorted_wrt.simps(1))
    next
      case (Some u)
      have n: "u = due s" "due s \<le> due s1" "deadline s1 = deadline s" "\<not> past_end (deadline s) u"
        using next_due[of s s1 u] *(1) Some by auto
      obtain us n where us: "ts' = map Some us @ replicate n None" "sorted us"
        "\<forall>u \<in> set us. due s1 \<le> u \<and> \<not> past_end (deadline s1) u"
        using Cons.IH[OF *(2)] by (auto simp: times_from_def)
      have "ts = map Some (u # us) @ replicate n None" "sorted (u # us)" "\<forall>v \<in> set (u # us). due s \<le> v \<and> \<not> past_end (deadline s) v"
        using us n *(3) Some by auto
      then show ?thesis unfolding times_from_def by blast
    qed
  next
    case (ChangeRate r)
    then obtain s1 where *: "upd r s = Some s1" "run_sched nxt upd es s1 = Some (s', ts)"
      using Cons.prems(1) by (auto simp: bind_Some_iff)
    then show ?thesis using Cons.IH[OF *(2)] upd_due[OF *(1)] by simp
  qed
qed

end

lemma instant_add_ge: "instant_add t d = Some t' \<Longrightarrow> t' = t + int d \<and> t \<le> t'"
  by (auto simp: instant_add_def split: if_splits)

interpretation constant_sched: request_scheduler constant_next constant_update_rate cr_next_time cr_end_time
  by unfold_locales
    (auto simp: constant_next_def constant_update_rate_def bind_Some_iff split: if_splits dest: instant_add_ge)

lemma sample_interval_keeps: "sample_interval E s = Some (s', i) \<Longrightarrow> ps_next_time s' = ps_next_time s \<and> ps_end_time s' = ps_end_time s"
  by (auto simp: sample_interval_def split: if_splits prod.splits)

interpretation poisson_sched: request_scheduler "poisson_next E" "\<lambda>r s. Some (poisson_update_rate r s)" ps_next_time ps_end_time for E
  by unfold_locales
    (auto simp: poisson_next_def poisson_update_rate_def bind_Some_iff split: if_splits dest: instant_add_ge sample_interval_keeps)

fun sched_due :: "'r RequestScheduler \<Rightarrow> instant" where
  "sched_due (ConstantSched s) = cr_next_time s"
| "sched_due (PoissonSched s) = ps_next_time s"

fun sched_deadline :: "'r RequestScheduler \<Rightarrow> instant option" where
  "sched_deadline (ConstantSched s) = cr_end_time s"
| "sched_deadline (PoissonSched s) = ps_end_time s"

interpretation dyn_sched: request_scheduler "next_request_time E" sched_update_rate sched_due sched_deadline for E
proof unfold_locales
  fix s s' :: "'a RequestScheduler" and t
  assume a: "next_request_time E s = Some (s', Some t)"
  then show "t = sched_due s \<and> sched_due s \<le> sched_due s' \<and> sched_deadline s' = sched_deadline s \<and> \<not> past_end (sched_deadline s) t"
    by (cases s) (auto dest!: constant_sched.next_due poisson_sched.next_due)
next
  fix s s' :: "'a RequestScheduler"
  assume a: "next_request_time E s = Some (s', None)"
  then show "s' = s \<and> past_end (sched_deadline s) (sched_due s)"
    by (cases s) (auto dest!: constant_sched.next_end poisson_sched.next_end)
next
  fix r and s s' :: "'a RequestScheduler"
  assume "sched_update_rate r s = Some s'"
  then show "sched_due s' = sched_due s \<and> sched_deadline s' = sched_deadline s"
    by (cases s) (auto dest!: constant_sched.upd_due simp: poisson_update_rate_def)
qed

section \<open>Properties of the schedulers\<close>

text \<open>
  Whatever the kind of scheduler and however rate changes are interleaved, the request times it hands out
  never go backwards, start no earlier than the pending time, lie before the end of the test, and once
  the schedule is exhausted it stays exhausted.
\<close>

lemma request_times_ordered:
  assumes "run_sched (next_request_time E) sched_update_rate es s = Some (s', ts)"
  shows "times_from (sched_deadline s) (sched_due s) ts"
  by (rule dyn_sched.run_times[OF assms])

lemma rne_ge:
  assumes "of_int n - 1/2 < y" shows "n \<le> rne y"
proof -
  have "(of_int (n - 1) :: rat) < of_int (rne y)" using rne_near[of y] assms unfolding abs_le_iff by simp
  then show ?thesis unfolding of_int_less_iff by simp
qed

lemma rne_le:
  assumes "y < of_int n + 1/2" shows "rne y \<le> n"
proof -
  have "(of_int (rne y) :: rat) < of_int (n + 1)" using rne_near[of y] assms unfolding abs_le_iff by simp
  then show ?thesis unfolding of_int_less_iff by simp
qed

text \<open>The rounding error of a quotient of at most one.\<close>

lemma f64_rnd_error_le_1:
  assumes "0 < q" "q \<le> 1" shows "\<bar>f64_rnd q - q\<bar> \<le> 1 / 2 ^ 53"
proof -
  have "2 powi ilog2 q \<le> q" using ilog2_bounds[OF assms(1)] by simp
  then have "(2 :: rat) powi ilog2 q \<le> 2 powi 0" using assms(2) by simp
  then have "ilog2 q \<le> 0" using powi2_le_iff by blast
  then have u: "f64_ulp q \<le> 2 powi (- 52)" using assms(1) unfolding f64_ulp_def powi2_le_iff by simp
  have "f64_rnd q - q = (of_int (rne (q / f64_ulp q)) - q / f64_ulp q) * f64_ulp q"
    using assms(1) f64_ulp_pos[of q] by (simp add: f64_rnd_def left_diff_distrib)
  then have "\<bar>f64_rnd q - q\<bar> = \<bar>of_int (rne (q / f64_ulp q)) - q / f64_ulp q\<bar> * f64_ulp q"
    using f64_ulp_pos[of q] by (simp only: abs_mult abs_of_pos)
  also have "\<dots> \<le> 1/2 * f64_ulp q" using rne_near f64_ulp_pos[of q] by (intro mult_right_mono) auto
  also have "\<dots> \<le> 1/2 * 2 powi (- 52)" using u by simp
  finally show ?thesis by (simp add: power_int_minus)
qed

lemma key_reciprocal:
  assumes "is_finite x" "1 \<le> key x"
  shows "is_finite (1 / x)" "key (1 / x) = f64_rnd (1 / key x)" "0 < 1 / key x" "1 / key x \<le> 1"
    "0 \<le> f64_rnd (1 / key x)" "f64_rnd (1 / key x) \<le> 1"
proof -
  have q: "0 < 1 / key x" "1 / key x \<le> 1" using assms(2) by simp_all
  then show "0 < 1 / key x" "1 / key x \<le> 1" by simp_all
  have r: "0 \<le> f64_rnd (1 / key x)" "f64_rnd (1 / key x) \<le> 1"
    using f64_rnd_nonneg[of "1 / key x"] f64_rnd_mono[OF q(2)] rep_01(2) q by (simp_all add: rep_def)
  then show "0 \<le> f64_rnd (1 / key x)" "f64_rnd (1 / key x) \<le> 1" by simp_all
  have e: "1 / x = lit (1 / key x)" using assms fdiv_lit[of 1 x] by simp
  have h: "1 < f64_huge" by (simp add: f64_huge_def)
  show "is_finite (1 / x)" "key (1 / x) = f64_rnd (1 / key x)"
    unfolding e finite_lit key_lit using r h by (simp_all add: max_def min_def)
qed

lemma interval_of_reciprocal:
  assumes "is_finite rps" "1 \<le> key rps"
  shows "interval_from_rps rps = Some (nat (rne (f64_rnd (1 / key rps) * 1000000000)))"
  using key_reciprocal[OF assms] assms finite_not_nan
  by (simp add: interval_from_rps_def from_secs_f64_def f64_order)

text \<open>
  C32. For a rate between one request per second and one per nanosecond the scheduling interval never
  panics, is at least one nanosecond and at most one second, and differs from the exact reciprocal of the
  rate by at most one nanosecond.
\<close>

theorem interval_accurate:
  assumes "is_finite rps" "1 \<le> key rps" "key rps \<le> 1000000000"
  shows "\<exists>d. interval_from_rps rps = Some d \<and> 1 \<le> d \<and> d \<le> secs 1 \<and> \<bar>of_nat d - 1000000000 / key rps\<bar> \<le> 1"
proof -
  define y where "y = f64_rnd (1 / key rps) * 1000000000"
  have "(1 :: rat) / 2 ^ 53 \<le> 1 / 4000000000" by simp
  then have err: "\<bar>f64_rnd (1 / key rps) - 1 / key rps\<bar> \<le> 1 / 4000000000"
    using f64_rnd_error_le_1 key_reciprocal(3,4)[OF assms(1,2)] order_trans by blast
  have y: "0 \<le> y" "y \<le> 1000000000" "\<bar>y - 1000000000 / key rps\<bar> \<le> 1 / 4"
    using key_reciprocal(5,6)[OF assms(1,2)] err unfolding y_def abs_le_iff by linarith+
  have "1 \<le> 1000000000 / key rps" using assms(2,3) by simp
  then have "1 - 1/2 < y" using y(3) unfolding abs_le_iff by linarith
  then have r: "1 \<le> rne y" "rne y \<le> 1000000000" using rne_ge[of 1 y] rne_le[of y 1000000000] y(2) by simp_all
  have "\<bar>of_int (rne y) - 1000000000 / key rps\<bar> \<le> 1"
    using rne_near[of y] y(3) unfolding abs_le_iff by linarith
  then show ?thesis using interval_of_reciprocal[OF assms(1,2)] r
    by (intro exI[of _ "nat (rne y)"]) (simp add: y_def[symmetric] secs_def nat_le_iff le_nat_iff)
qed

theorem interval_accurate_witness:
  "\<exists>d. interval_from_rps (lit 3) = Some d \<and> 1 \<le> d \<and> d \<le> secs 1 \<and> \<bar>of_nat d - 1000000000 / 3\<bar> \<le> (1 :: rat)"
  using interval_accurate[of "lit 3"] by (simp add: f64_eval)

lemma interval_zero:
  assumes "is_finite rps" "2147483648 \<le> key rps" shows "interval_from_rps rps = Some 0"
proof -
  have k: "1 \<le> key rps" using assms(2) by simp
  have "1 / key rps \<le> 1 / 2147483648" using assms(2) by (intro divide_left_mono) auto
  then have "f64_rnd (1 / key rps) \<le> f64_rnd (1 / 2147483648)" by (rule f64_rnd_mono)
  moreover have "f64_rnd (1 / 2147483648) = 1 / 2147483648" using rep_dyadic[of 1 31] by (simp add: rep_def)
  ultimately have "f64_rnd (1 / key rps) * 1000000000 < of_int 0 + 1/2" by simp
  then have "rne (f64_rnd (1 / key rps) * 1000000000) \<le> 0" by (rule rne_le)
  then show ?thesis using interval_of_reciprocal[OF assms(1) k] by simp
qed

text \<open>
  A rate of \<open>2\<^sup>31\<close> requests per second or more gives an interval of zero nanoseconds: the scheduler hands
  out its start time for ever, so a test of bounded duration never exhausts it.
\<close>

theorem huge_rate_never_ends:
  assumes "is_finite rps" "2147483648 \<le> key rps" "ConstantRateScheduler_new rps start (Some dur) = Some s" "0 < dur"
  shows "run_sched constant_next constant_update_rate (replicate n PullTime) s = Some (s, replicate n (Some start))"
proof -
  have s: "s = \<lparr>cr_interval = 0, cr_next_time = start, cr_end_time = Some (start + int dur)\<rparr>" "start + int dur < instant_limit"
    using assms(3) interval_zero[OF assms(1,2)]
    by (auto simp: ConstantRateScheduler_new_def end_time_of_def instant_add_def bind_Some_iff split: if_splits)
  then have "constant_next s = Some (s, Some start)"
    using assms(4) by (simp add: constant_next_def past_end_def instant_add_def)
  then show ?thesis by (induction n) simp_all
qed

lemma constant_nth:
  assumes "cr_end_time s = Some (t0 + int dur)" "cr_next_time s = t0 + int (k * d)" "cr_interval s = d" "0 < d"
    "t0 + int dur + int d < instant_limit"
  shows "\<exists>s'. run_sched constant_next constant_update_rate (replicate n PullTime) s
    = Some (s', map (\<lambda>j. if j * d < dur then Some (t0 + int (j * d)) else None) [k..<k + n])"
  using assms
proof (induction n arbitrary: s k)
  case (Suc n)
  have l: "[k..<k + Suc n] = k # [Suc k..<Suc k + n]" by (simp add: upt_conv_Cons)
  show ?case
  proof (cases "k * d < dur")
    case True
    define s1 where "s1 = s\<lparr>cr_next_time := t0 + int (Suc k * d)\<rparr>"
    have "int (k * d) < int dur" using True by (simp only: of_nat_less_iff)
    then have "constant_next s = Some (s1, Some (t0 + int (k * d)))"
      using Suc.prems by (simp add: constant_next_def past_end_def instant_add_def s1_def algebra_simps)
    moreover obtain s' where "run_sched constant_next constant_update_rate (replicate n PullTime) s1
      = Some (s', map (\<lambda>j. if j * d < dur then Some (t0 + int (j * d)) else None) [Suc k..<Suc k + n])"
      using Suc.IH[of s1 "Suc k"] Suc.prems by (auto simp: s1_def)
    ultimately show ?thesis unfolding l using True by simp
  next
    case False
    then have e: "past_end (cr_end_time s) (cr_next_time s)" using Suc.prems(1,2) by (simp add: past_end_def flip: of_nat_mult)
    have "constant_next s = Some (s, None)" using e by (simp add: constant_next_def)
    then have "run_sched constant_next constant_update_rate (replicate m PullTime) s = Some (s, replicate m None)" for m
      by (induction m) simp_all
    moreover have "map (\<lambda>j. if j * d < dur then Some (t0 + int (j * d)) else None) [k..<k + Suc n] = replicate (Suc n) None"
    proof (rule replicate_eqI)
      have "\<not> j * d < dur" if "k \<le> j" for j using mult_le_mono1[OF that, of d] False by linarith
      then show "\<And>y. y \<in> set (map (\<lambda>j. if j * d < dur then Some (t0 + int (j * d)) else None) [k..<k + Suc n]) \<Longrightarrow> y = None"
        by auto
    qed simp
    ultimately show ?thesis by metis
  qed
qed simp

text \<open>
  C33. The constant-rate scheduler never drifts: the \<open>k\<close>-th request of a test of duration \<open>dur\<close> is due exactly
  \<open>k\<close> intervals after the start, and requests are handed out exactly as long as that lies before the end.
\<close>

theorem constant_rate_no_drift:
  assumes "ConstantRateScheduler_new rps start (Some dur) = Some s" "interval_from_rps rps = Some d" "0 < d"
    "start + int dur + int d < instant_limit"
  shows "\<exists>s'. run_sched constant_next constant_update_rate (replicate n PullTime) s
    = Some (s', map (\<lambda>j. if j * d < dur then Some (start + int (j * d)) else None) [0..<n])"
  using constant_nth[of s start dur 0 d n] assms
  by (auto simp: ConstantRateScheduler_new_def end_time_of_def instant_add_def bind_Some_iff split: if_splits)

theorem constant_rate_no_drift_witness:
  "\<exists>s'. run_sched constant_next constant_update_rate (replicate 4 PullTime)
      \<lparr>cr_interval = 500000000, cr_next_time = 7, cr_end_time = Some 1200000007\<rparr>
    = Some (s', [Some 7, Some 500000007, Some 1000000007, None])"
proof -
  have h: "interval_from_rps (lit 2) = Some 500000000"
    using rne_of_int[of 500000000] by (simp add: interval_from_rps_def from_secs_f64_def f64_eval flip: lit_01)
  have "ConstantRateScheduler_new (lit 2) 7 (Some 1200000000) = Some \<lparr>cr_interval = 500000000, cr_next_time = 7, cr_end_time = Some 1200000007\<rparr>"
    by (simp add: ConstantRateScheduler_new_def h end_time_of_def instant_add_def instant_limit_def)
  from constant_rate_no_drift[OF this h, of 4] show ?thesis by (simp add: instant_limit_def upt_rec)
qed

end
