(* ===== verification/Timer.thy ===== *)
theory Timer
  imports Schedulers
begin

text \<open>
  The timer thread (\<^verbatim>\<open>netanvil-core/src/timer_thread.rs\<close>): it owns the schedulers of all workers, keeps their
  next events in a heap, sleeps until the earliest and hands a fire message to the worker's bounded channel.
  Commands from the coordinator are drained before every event. The channels and the clock are the
  environment: each iteration is given the commands found, the readings of the clock and the result of
  \<^verbatim>\<open>try_send\<close>. Log output is not modelled.
\<close>

section \<open>Messages (\<^verbatim>\<open>command.rs\<close>)\<close>

datatype TimerCommand =
  TC_UpdateRate f64 | TC_UpdateTargets "string list" | TC_UpdateMetadata "(string \<times> string) list" | TC_Stop

datatype ScheduledRequest =
  Fire (intended_time: instant) (sent_time: instant)
| SR_UpdateTargets "string list" | SR_UpdateMetadata "(string \<times> string) list" | SR_Stop

section \<open>State\<close>

record TimerStats =
  dispatched :: u64
  dropped :: u64

definition TimerStats_new :: TimerStats where
  "TimerStats_new = \<lparr>dispatched = 0, dropped = 0\<rparr>"

text \<open>
  The locals of \<^verbatim>\<open>timer_loop\<close>. The binary heap of \<^verbatim>\<open>Reverse((time, worker))\<close> pops its least pair: it is the
  ascending list of its elements. \<open>tl_channels\<close> is the number of fire channels, \<open>tl_sent\<close> the log of the
  messages handed to them.
\<close>

record 'r timer =
  tl_schedulers :: "'r RequestScheduler list"
  tl_heap :: "(instant \<times> nat) list"
  tl_channels :: nat
  tl_stats :: TimerStats
  tl_sent :: "(nat \<times> ScheduledRequest) list"

text \<open>Lexicographic order of pairs.\<close>

fun heap_push :: "instant \<times> nat \<Rightarrow> (instant \<times> nat) list \<Rightarrow> (instant \<times> nat) list" where
  "heap_push x [] = [x]"
| "heap_push x (y # ys) = (if fst x < fst y \<or> fst x = fst y \<and> snd x \<le> snd y then x # y # ys else y # heap_push x ys)"

definition broadcast :: "ScheduledRequest \<Rightarrow> 'r timer \<Rightarrow> 'r timer" where
  "broadcast msg s = s\<lparr>tl_sent := tl_sent s @ map (\<lambda>i. (i, msg)) [0..<tl_channels s]\<rparr>"

text \<open>Ask the scheduler of a worker for its next event; the worker number is an index that may panic.\<close>

definition advance_worker :: "'r exp_ops \<Rightarrow> nat \<Rightarrow> 'r timer \<Rightarrow> 'r timer option" where
  "advance_worker E i s =
     (if i < length (tl_schedulers s) then
        map_option (\<lambda>(sched, t). (case t of None \<Rightarrow> s | Some t \<Rightarrow> s\<lparr>tl_heap := heap_push (t, i) (tl_heap s)\<rparr>)
            \<lparr>tl_schedulers := (tl_schedulers s)[i := sched]\<rparr>)
          (next_request_time E (tl_schedulers s ! i))
      else None)"

fun seed_heap :: "'r exp_ops \<Rightarrow> nat list \<Rightarrow> 'r timer \<Rightarrow> 'r timer option" where
  "seed_heap E [] s = Some s"
| "seed_heap E (i # is) s = Option.bind (advance_worker E i s) (seed_heap E is)"

definition timer_start :: "'r exp_ops \<Rightarrow> 'r RequestScheduler list \<Rightarrow> nat \<Rightarrow> 'r timer option" where
  "timer_start E scheds channels =
     seed_heap E [0..<length scheds]
       \<lparr>tl_schedulers = scheds, tl_heap = [], tl_channels = channels, tl_stats = TimerStats_new, tl_sent = []\<rparr>"

section \<open>Commands\<close>

fun update_all :: "f64 \<Rightarrow> 'r RequestScheduler list \<Rightarrow> 'r RequestScheduler list option" where
  "update_all rps [] = Some []"
| "update_all rps (s # ss) = do { s' \<leftarrow> sched_update_rate rps s; ss' \<leftarrow> update_all rps ss; Some (s' # ss') }"

text \<open>The drain loop; the flag says that \<^verbatim>\<open>Stop\<close> was received and the thread returns.\<close>

fun drain_commands :: "TimerCommand list \<Rightarrow> 'r timer \<Rightarrow> ('r timer \<times> bool) option" where
  "drain_commands [] s = Some (s, False)"
| "drain_commands (TC_UpdateRate rps # cs) s = do {
     ss \<leftarrow> update_all (rps / f64_of_nat (length (tl_schedulers s))) (tl_schedulers s);
     drain_commands cs (s\<lparr>tl_schedulers := ss\<rparr>)
   }"
| "drain_commands (TC_UpdateTargets ts # cs) s = drain_commands cs (broadcast (SR_UpdateTargets ts) s)"
| "drain_commands (TC_UpdateMetadata hs # cs) s = drain_commands cs (broadcast (SR_UpdateMetadata hs) s)"
| "drain_commands (TC_Stop # cs) s = Some (broadcast SR_Stop s, True)"

section \<open>The loop\<close>

text \<open>
  \<^verbatim>\<open>precision_sleep_sync\<close> over the readings of the clock it makes: the first decides whether to wait, the
  spin loop makes more until one has reached the target. \<open>None\<close> when the readings end before that; the
  coarse sleep only passes time.
\<close>

fun spin_until :: "instant \<Rightarrow> instant list \<Rightarrow> instant list option" where
  "spin_until target [] = None"
| "spin_until target (t # ts) = (if t < target then spin_until target ts else Some ts)"

definition precision_sleep_sync :: "instant \<Rightarrow> instant list \<Rightarrow> instant list option" where
  "precision_sleep_sync target clock = (case clock of
     [] \<Rightarrow> None
   | t # ts \<Rightarrow> if target \<le> t then Some ts else spin_until target ts)"

datatype TrySend = SendOk | SendFull | SendDisconnected

text \<open>What the environment contributes to an iteration: the queued commands, the clock, the channel.\<close>

record timer_round =
  tr_commands :: "TimerCommand list"
  tr_clock :: "instant list"
  tr_send :: TrySend

datatype 'r outcome = Panic | Stuck | Continue 'r | Done 'r

definition count_send :: "TrySend \<Rightarrow> TimerStats \<Rightarrow> TimerStats" where
  "count_send r st = (case r of
     SendOk \<Rightarrow> st\<lparr>dispatched := dispatched st + 1\<rparr>
   | SendFull \<Rightarrow> st\<lparr>dropped := dropped st + 1\<rparr>
   | SendDisconnected \<Rightarrow> st)"

definition fire_next :: "'r exp_ops \<Rightarrow> timer_round \<Rightarrow> 'r timer \<Rightarrow> 'r timer outcome" where
  "fire_next E rd s = (case tl_heap s of
     [] \<Rightarrow> Done (broadcast SR_Stop s)
   | (t, w) # heap \<Rightarrow> (case precision_sleep_sync t (tr_clock rd) of
       None \<Rightarrow> Stuck
     | Some [] \<Rightarrow> Stuck
     | Some (now # _) \<Rightarrow>
         if w < tl_channels s then
           let s1 = s\<lparr>tl_heap := heap, tl_sent := tl_sent s @ [(w, Fire t now)], tl_stats := count_send (tr_send rd) (tl_stats s)\<rparr>
           in if tr_send rd = SendDisconnected then Continue s1
              else (case advance_worker E w s1 of None \<Rightarrow> Panic | Some s2 \<Rightarrow> Continue s2)
         else Panic))"

definition timer_step :: "'r exp_ops \<Rightarrow> timer_round \<Rightarrow> 'r timer \<Rightarrow> 'r timer outcome" where
  "timer_step E rd s = (case drain_commands (tr_commands rd) s of
     None \<Rightarrow> Panic
   | Some (s', True) \<Rightarrow> Done s'
   | Some (s', False) \<Rightarrow> fire_next E rd s')"

fun timer_loop :: "'r exp_ops \<Rightarrow> timer_round list \<Rightarrow> 'r timer \<Rightarrow> 'r timer outcome" where
  "timer_loop E [] s = Continue s"
| "timer_loop E (rd # rds) s = (case timer_step E rd s of Continue s' \<Rightarrow> timer_loop E rds s' | r \<Rightarrow> r)"

section \<open>Invariant of the loop\<close>

definition fire_times :: "'r timer \<Rightarrow> instant list" where
  "fire_times s = map (intended_time \<circ> snd) (filter (is_Fire \<circ> snd) (tl_sent s))"

text \<open>
  With \<open>ds\<close> the ends of the schedules: the heap is ordered, what is in it is not earlier than what was
  fired and not later than what its scheduler hands out next, and nothing was fired early or after the end.
\<close>

definition fine_sent :: "instant option list \<Rightarrow> nat \<times> ScheduledRequest \<Rightarrow> bool" where
  "fine_sent ds x \<longleftrightarrow> is_Fire (snd x) \<longrightarrow>
     intended_time (snd x) \<le> sent_time (snd x) \<and> fst x < length ds \<and> \<not> past_end (ds ! fst x) (intended_time (snd x))"

definition fine_entry :: "instant option list \<Rightarrow> 'r timer \<Rightarrow> instant \<times> nat \<Rightarrow> bool" where
  "fine_entry ds s x \<longleftrightarrow> snd x < length ds \<and> fst x \<le> sched_due (tl_schedulers s ! snd x) \<and> \<not> past_end (ds ! snd x) (fst x)"

definition timer_inv :: "instant option list \<Rightarrow> 'r timer \<Rightarrow> bool" where
  "timer_inv ds s \<longleftrightarrow> map sched_deadline (tl_schedulers s) = ds \<and> sorted (map fst (tl_heap s)) \<and> sorted (fire_times s)
     \<and> (\<forall>x \<in> set (tl_heap s). fine_entry ds s x \<and> (\<forall>u \<in> set (fire_times s). u \<le> fst x))
     \<and> (\<forall>x \<in> set (tl_sent s). fine_sent ds x)"

lemma set_heap_push [simp]: "set (heap_push x ys) = insert x (set ys)"
  by (induction ys) auto

lemma length_heap_push [simp]: "length (heap_push x ys) = Suc (length ys)"
  by (induction ys) auto

lemma sorted_heap_push: "sorted (map fst ys) \<Longrightarrow> sorted (map fst (heap_push x ys))"
  by (induction ys) (auto simp: not_less)

lemma fire_times_append [simp]:
  "fire_times (s\<lparr>tl_sent := xs @ ys\<rparr>) = fire_times (s\<lparr>tl_sent := xs\<rparr>) @ fire_times (s\<lparr>tl_sent := ys\<rparr>)"
  by (simp add: fire_times_def)

lemma fire_times_updates [simp]:
  "fire_times (s\<lparr>tl_heap := h\<rparr>) = fire_times s" "fire_times (s\<lparr>tl_schedulers := ss\<rparr>) = fire_times s"
  "fire_times (s\<lparr>tl_stats := st\<rparr>) = fire_times s"
  by (simp_all add: fire_times_def)

lemma broadcast_fields [simp]:
  "tl_heap (broadcast m s) = tl_heap s" "tl_schedulers (broadcast m s) = tl_schedulers s"
  "tl_channels (broadcast m s) = tl_channels s" "tl_stats (broadcast m s) = tl_stats s"
  "\<not> is_Fire m \<Longrightarrow> fire_times (broadcast m s) = fire_times s"
  by (simp_all add: broadcast_def fire_times_def comp_def)

lemma broadcast_inv: "\<lbrakk>timer_inv ds s; \<not> is_Fire m\<rbrakk> \<Longrightarrow> timer_inv ds (broadcast m s)"
  by (auto simp: timer_inv_def fine_entry_def) (auto simp: broadcast_def fine_sent_def)

lemma update_all_due:
  "update_all r ss = Some ss' \<Longrightarrow> map sched_due ss' = map sched_due ss \<and> map sched_deadline ss' = map sched_deadline ss"
  by (induction r ss arbitrary: ss' rule: update_all.induct) (auto simp: bind_Some_iff dest: dyn_sched.upd_due)

lemma map_due_nth: "\<lbrakk>map sched_due ss' = map sched_due ss; i < length ss\<rbrakk> \<Longrightarrow> sched_due (ss' ! i) = sched_due (ss ! i)"
  by (metis length_map nth_map)

lemma schedulers_inv:
  assumes "timer_inv ds s" "map sched_due ss = map sched_due (tl_schedulers s)" "map sched_deadline ss = map sched_deadline (tl_schedulers s)"
  shows "timer_inv ds (s\<lparr>tl_schedulers := ss\<rparr>)"
proof -
  have l: "length ss = length ds" "length (tl_schedulers s) = length ds"
    using assms(1,2) map_eq_imp_length_eq[OF assms(2)] by (auto simp: timer_inv_def)
  have "fine_entry ds (s\<lparr>tl_schedulers := ss\<rparr>) x \<longleftrightarrow> fine_entry ds s x" for x
    using map_due_nth[OF assms(2), of "snd x"] l by (auto simp: fine_entry_def)
  then show ?thesis using assms(1,3) by (simp add: timer_inv_def)
qed

lemma drain_inv: "\<lbrakk>drain_commands cs s = Some (s', b); timer_inv ds s\<rbrakk> \<Longrightarrow> timer_inv ds s'"
proof (induction cs s rule: drain_commands.induct)
  case (2 rps cs s)
  then obtain ss where *: "update_all (rps / f64_of_nat (length (tl_schedulers s))) (tl_schedulers s) = Some ss"
    "drain_commands cs (s\<lparr>tl_schedulers := ss\<rparr>) = Some (s', b)" by (auto simp: bind_Some_iff)
  then show ?case using 2 schedulers_inv[of ds s ss] update_all_due[OF *(1)] by simp
qed (auto simp: broadcast_inv)

lemma advance_inv:
  assumes "advance_worker E i s = Some s'" "timer_inv ds s"
    "\<forall>u \<in> set (fire_times s). u \<le> sched_due (tl_schedulers s ! i)"
  shows "timer_inv ds s'"
proof -
  obtain sched t where *: "i < length (tl_schedulers s)" "next_request_time E (tl_schedulers s ! i) = Some (sched, t)"
    "s' = (case t of None \<Rightarrow> s | Some t \<Rightarrow> s\<lparr>tl_heap := heap_push (t, i) (tl_heap s)\<rparr>)\<lparr>tl_schedulers := (tl_schedulers s)[i := sched]\<rparr>"
    using assms(1) by (auto simp: advance_worker_def split: if_splits)
  have ds: "map sched_deadline (tl_schedulers s) = ds" using assms(2) by (simp add: timer_inv_def)
  have d: "sched_due (tl_schedulers s ! i) \<le> sched_due sched" "sched_deadline sched = ds ! i"
    using dyn_sched.next_due[of E _ sched] dyn_sched.next_end[of E _ sched] *(1,2) ds by (cases t; fastforce)+
  have dl: "map sched_deadline ((tl_schedulers s)[i := sched]) = ds"
    using d(2) ds *(1) by (metis list_update_id map_update)
  have e: "fine_entry ds s x \<Longrightarrow> fine_entry ds (s\<lparr>tl_schedulers := (tl_schedulers s)[i := sched]\<rparr>) x" for x
    using d(1) *(1) by (auto simp: fine_entry_def nth_list_update)
  show ?thesis
  proof (cases t)
    case None
    then show ?thesis using assms(2) dl e *(3) by (auto simp: timer_inv_def)
  next
    case (Some u)
    have u: "u = sched_due (tl_schedulers s ! i)" "\<not> past_end (ds ! i) u"
      using dyn_sched.next_due[of E "tl_schedulers s ! i" sched u] *(1,2) Some ds by auto
    then have "fine_entry ds (s\<lparr>tl_schedulers := (tl_schedulers s)[i := sched]\<rparr>) (u, i)"
      using d(1) *(1) ds by (auto simp: fine_entry_def)
    then show ?thesis using assms(2,3) dl e *(3) Some u(1) sorted_heap_push
      by (auto simp: timer_inv_def fine_entry_def)
  qed
qed

lemma spin_reaches: "\<lbrakk>spin_until target clock = Some (now # rest); sorted clock\<rbrakk> \<Longrightarrow> target \<le> now"
  by (induction target clock rule: spin_until.induct) (auto split: if_splits)

lemma sleep_reaches: "\<lbrakk>precision_sleep_sync target clock = Some (now # rest); sorted clock\<rbrakk> \<Longrightarrow> target \<le> now"
  by (auto simp: precision_sleep_sync_def spin_reaches split: list.splits if_splits)

lemma fire_inv:
  assumes "timer_inv ds s" "sorted (tr_clock rd)" "fire_next E rd s = Continue s' \<or> fire_next E rd s = Done s'"
  shows "timer_inv ds s'"
proof (cases "tl_heap s")
  case Nil
  then show ?thesis using assms by (auto simp: fire_next_def intro: broadcast_inv)
next
  case (Cons x heap)
  obtain t w where x: "x = (t, w)" by fastforce
  obtain now rest where n: "precision_sleep_sync t (tr_clock rd) = Some (now # rest)" "w < tl_channels s"
    using assms(3) Cons x by (auto simp: fire_next_def split: option.splits list.splits if_splits)
  define s1 where "s1 = s\<lparr>tl_heap := heap, tl_sent := tl_sent s @ [(w, Fire t now)], tl_stats := count_send (tr_send rd) (tl_stats s)\<rparr>"
  have next': "fire_next E rd s = (if tr_send rd = SendDisconnected then Continue s1
      else (case advance_worker E w s1 of None \<Rightarrow> Panic | Some s2 \<Rightarrow> Continue s2))"
    using Cons x n by (simp add: fire_next_def s1_def Let_def)
  have e: "fine_entry ds s (t, w)" "\<forall>u \<in> set (fire_times s). u \<le> t" "sorted (fire_times s)" "sorted (t # map fst heap)"
    using assms(1) Cons x by (auto simp: timer_inv_def)
  have f: "fire_times s1 = fire_times s @ [t]" by (simp add: s1_def fire_times_def)
  have "fine_sent ds (w, Fire t now)"
    using sleep_reaches[OF n(1) assms(2)] e(1) by (simp add: fine_sent_def fine_entry_def)
  then have inv: "timer_inv ds s1"
    using assms(1) Cons e f unfolding timer_inv_def by (auto simp: s1_def fine_entry_def sorted_append)
  have "\<forall>u \<in> set (fire_times s1). u \<le> sched_due (tl_schedulers s1 ! w)"
    using e(1,2) unfolding f by (auto simp: s1_def fine_entry_def)
  then show ?thesis using assms(3) inv advance_inv[OF _ inv] unfolding next'
    by (auto split: if_splits option.splits)
qed

lemma step_inv:
  assumes "timer_inv ds s" "sorted (tr_clock rd)" "timer_step E rd s = Continue s' \<or> timer_step E rd s = Done s'"
  shows "timer_inv ds s'"
  using assms(3) drain_inv[OF _ assms(1)] fire_inv[OF _ assms(2), of ds _ E s']
  unfolding timer_step_def by (cases "drain_commands (tr_commands rd) s") (auto split: bool.splits, blast+)

lemma loop_inv:
  assumes "timer_inv ds s" "\<forall>rd \<in> set rds. sorted (tr_clock rd)" "timer_loop E rds s = Continue s' \<or> timer_loop E rds s = Done s'"
  shows "timer_inv ds s'"
  using assms
proof (induction rds arbitrary: s)
  case (Cons rd rds)
  show ?case
  proof (cases "timer_step E rd s")
    case (Continue s1)
    then show ?thesis using Cons.IH[of s1] step_inv[of ds s rd E s1] Cons.prems by simp
  qed (use Cons.prems step_inv[of ds s rd E s'] in simp_all)
qed simp

lemma seed_inv: "\<lbrakk>seed_heap E is s = Some s'; timer_inv ds s; fire_times s = []\<rbrakk> \<Longrightarrow> timer_inv ds s'"
proof (induction E "is" s rule: seed_heap.induct)
  case (2 E i "is" s)
  then obtain s1 where s1: "advance_worker E i s = Some s1" "seed_heap E is s1 = Some s'" by (auto simp: bind_Some_iff)
  have "timer_inv ds s1" using advance_inv[OF s1(1) 2(3)] 2(4) by simp
  moreover have "fire_times s1 = []"
    using s1(1) 2(4) by (auto simp: advance_worker_def fire_times_def split: if_splits option.splits)
  ultimately show ?case using 2(1)[OF s1(1)] s1 by (auto simp: bind_Some_iff)
qed simp

lemma start_inv:
  assumes "timer_start E scheds n = Some s" shows "timer_inv (map sched_deadline scheds) s"
  using assms unfolding timer_start_def by (rule seed_inv) (simp_all add: timer_inv_def fire_times_def)

section \<open>Termination\<close>

text \<open>
  What is left to do: the queued events and the nanoseconds every scheduler has until its end. A constant
  schedule with a positive interval of at most \<open>b\<close> makes it smaller with every event.
\<close>

definition sched_left :: "'r RequestScheduler \<Rightarrow> nat" where
  "sched_left s = (case sched_deadline s of None \<Rightarrow> 0 | Some e \<Rightarrow> nat (e - sched_due s))"

definition work_left :: "'r timer \<Rightarrow> nat" where
  "work_left s = length (tl_heap s) + sum_list (map sched_left (tl_schedulers s))"

definition sched_ends :: "duration \<Rightarrow> 'r RequestScheduler \<Rightarrow> bool" where
  "sched_ends b s = (case s of
     PoissonSched _ \<Rightarrow> False
   | ConstantSched c \<Rightarrow> 0 < cr_interval c \<and> cr_interval c \<le> b \<and>
       (case cr_end_time c of None \<Rightarrow> False | Some e \<Rightarrow> e + int b < instant_limit))"

definition rate_fine :: "duration \<Rightarrow> nat \<Rightarrow> TimerCommand \<Rightarrow> bool" where
  "rate_fine b n c = (case c of
     TC_UpdateRate r \<Rightarrow> (case interval_from_rps (r / f64_of_nat n) of None \<Rightarrow> False | Some d \<Rightarrow> 0 < d \<and> d \<le> b)
   | _ \<Rightarrow> True)"

definition clock_reaches :: "instant \<Rightarrow> instant list \<Rightarrow> bool" where
  "clock_reaches e clock \<longleftrightarrow> (\<exists>a b c. clock = a @ [b, c] \<and> a \<noteq> [] \<and> e \<le> b)"

lemma spin_returns: "e \<le> b \<Longrightarrow> target \<le> e \<Longrightarrow> \<exists>now rest. spin_until target (a @ [b, c]) = Some (now # rest)"
proof (induction a)
  case (Cons t a)
  then show ?case by (cases a) auto
qed simp

lemma clock_reaches_sleep:
  assumes "clock_reaches e clock" "target \<le> e" shows "\<exists>now rest. precision_sleep_sync target clock = Some (now # rest)"
proof -
  obtain t a b c where c: "clock = t # a @ [b, c]" "e \<le> b"
    using assms(1) by (auto simp: clock_reaches_def neq_Nil_conv)
  then show ?thesis using spin_returns[OF c(2) assms(2), of a c] by (cases "a @ [b, c]") (auto simp: precision_sleep_sync_def)
qed

lemma next_progress:
  assumes "sched_ends b s"
  obtains s' t where "next_request_time E s = Some (s', t)" "sched_ends b s'"
    "sched_left s' + (if t = None then 0 else 1) \<le> sched_left s"
proof -
  obtain c e where c: "s = ConstantSched c" "0 < cr_interval c" "cr_interval c \<le> b" "cr_end_time c = Some e" "e + int b < instant_limit"
    using assms by (auto simp: sched_ends_def split: RequestScheduler.splits option.splits)
  show thesis
  proof (cases "past_end (cr_end_time c) (cr_next_time c)")
    case True
    then show thesis using that[of s None] assms c by (simp add: constant_next_def)
  next
    case False
    then show thesis
      using that[of "ConstantSched (c\<lparr>cr_next_time := cr_next_time c + int (cr_interval c)\<rparr>)" "Some (cr_next_time c)"] c
      by (auto simp: constant_next_def instant_add_def sched_ends_def sched_left_def past_end_def)
  qed
qed

lemma sum_list_update_nat: "i < length xs \<Longrightarrow> sum_list (xs[i := y]) + xs ! i = sum_list xs + (y :: nat)"
  by (induction xs arbitrary: i) (auto split: nat.split)

lemma advance_progress:
  assumes "\<forall>x \<in> set (tl_schedulers s). sched_ends b x" "i < length (tl_schedulers s)"
  obtains s' where "advance_worker E i s = Some s'" "\<forall>x \<in> set (tl_schedulers s'). sched_ends b x"
    "work_left s' \<le> work_left s" "length (tl_schedulers s') = length (tl_schedulers s)" "tl_channels s' = tl_channels s"
proof -
  obtain sched t where n: "next_request_time E (tl_schedulers s ! i) = Some (sched, t)" "sched_ends b sched"
    "sched_left sched + (if t = None then 0 else 1) \<le> sched_left (tl_schedulers s ! i)"
    using next_progress[of b "tl_schedulers s ! i" E] assms by auto
  define s' where "s' = (case t of None \<Rightarrow> s | Some t \<Rightarrow> s\<lparr>tl_heap := heap_push (t, i) (tl_heap s)\<rparr>)\<lparr>tl_schedulers := (tl_schedulers s)[i := sched]\<rparr>"
  have "advance_worker E i s = Some s'" using assms(2) n(1) by (simp add: advance_worker_def s'_def)
  moreover have "\<forall>x \<in> set (tl_schedulers s'). sched_ends b x"
    using assms(1) n(2) set_update_subset_insert[of "tl_schedulers s" i sched] by (auto simp: s'_def split: option.splits)
  moreover have "work_left s' \<le> work_left s"
    using sum_list_update_nat[of i "map sched_left (tl_schedulers s)" "sched_left sched"] assms(2) n(3)
    by (auto simp: work_left_def s'_def map_update split: option.splits if_splits)
  ultimately show thesis using that by (auto simp: s'_def split: option.splits)
qed

lemma seed_progress:
  assumes "\<forall>x \<in> set (tl_schedulers s). sched_ends b x" "\<forall>i \<in> set is. i < length (tl_schedulers s)"
  shows "\<exists>s'. seed_heap E is s = Some s' \<and> (\<forall>x \<in> set (tl_schedulers s'). sched_ends b x) \<and> work_left s' \<le> work_left s
    \<and> length (tl_schedulers s') = length (tl_schedulers s) \<and> tl_channels s' = tl_channels s"
  using assms
proof (induction "is" arbitrary: s)
  case (Cons i "is")
  obtain s1 where s1: "advance_worker E i s = Some s1" "\<forall>x \<in> set (tl_schedulers s1). sched_ends b x"
    "work_left s1 \<le> work_left s" "length (tl_schedulers s1) = length (tl_schedulers s)" "tl_channels s1 = tl_channels s"
    using advance_progress[of s b i E] Cons.prems by auto
  then show ?case using Cons.IH[of s1] Cons.prems by fastforce
qed simp

lemma update_all_progress:
  assumes "\<forall>x \<in> set ss. sched_ends b x" "interval_from_rps r = Some d" "0 < d" "d \<le> b"
  shows "\<exists>ss'. update_all r ss = Some ss' \<and> (\<forall>x \<in> set ss'. sched_ends b x) \<and> map sched_left ss' = map sched_left ss"
  using assms(1)
proof (induction ss)
  case (Cons x ss)
  obtain c where c: "x = ConstantSched c" using Cons.prems by (auto simp: sched_ends_def split: RequestScheduler.splits)
  then have u: "sched_update_rate r x = Some (ConstantSched (c\<lparr>cr_interval := d\<rparr>))"
    using assms(2) by (simp add: constant_update_rate_def)
  have "sched_ends b (ConstantSched (c\<lparr>cr_interval := d\<rparr>))" "sched_left (ConstantSched (c\<lparr>cr_interval := d\<rparr>)) = sched_left x"
    using Cons.prems assms(3,4) c by (auto simp: sched_ends_def sched_left_def split: option.splits)
  then show ?case using Cons u by auto
qed simp

definition stop_sent :: "'r timer \<Rightarrow> bool" where
  "stop_sent s \<longleftrightarrow> (\<forall>i < tl_channels s. (i, SR_Stop) \<in> set (tl_sent s))"

lemma broadcast_stop: "stop_sent (broadcast SR_Stop s)"
  by (auto simp: stop_sent_def broadcast_def)

lemma drain_progress:
  assumes "\<forall>x \<in> set (tl_schedulers s). sched_ends b x" "\<forall>c \<in> set cs. rate_fine b (length (tl_schedulers s)) c"
  shows "\<exists>s' f. drain_commands cs s = Some (s', f) \<and> (\<forall>x \<in> set (tl_schedulers s'). sched_ends b x) \<and> work_left s' = work_left s
    \<and> length (tl_schedulers s') = length (tl_schedulers s) \<and> tl_channels s' = tl_channels s \<and> (f \<longrightarrow> stop_sent s')"
  using assms
proof (induction cs s rule: drain_commands.induct)
  case (2 rps cs s)
  obtain d where d: "interval_from_rps (rps / f64_of_nat (length (tl_schedulers s))) = Some d" "0 < d" "d \<le> b"
    using 2(3) by (auto simp: rate_fine_def split: option.splits)
  obtain ss where ss: "update_all (rps / f64_of_nat (length (tl_schedulers s))) (tl_schedulers s) = Some ss"
    "\<forall>x \<in> set ss. sched_ends b x" "map sched_left ss = map sched_left (tl_schedulers s)"
    using update_all_progress[OF 2(2) d] by blast
  then have "length ss = length (tl_schedulers s)" by (metis length_map)
  then show ?case using 2(1)[OF ss(1)] ss 2(3) by (simp add: work_left_def)
qed (auto simp: work_left_def broadcast_stop)

lemma fire_progress:
  assumes "timer_inv ds s" "\<forall>x \<in> set (tl_schedulers s). sched_ends b x" "tl_channels s = length (tl_schedulers s)"
    "\<forall>d \<in> set ds. \<exists>e'. d = Some e' \<and> e' \<le> e" "clock_reaches e (tr_clock rd)"
  shows "(\<exists>s'. fire_next E rd s = Done s' \<and> stop_sent s') \<or>
    (\<exists>s'. fire_next E rd s = Continue s' \<and> (\<forall>x \<in> set (tl_schedulers s'). sched_ends b x) \<and> work_left s' < work_left s
      \<and> length (tl_schedulers s') = length (tl_schedulers s) \<and> tl_channels s' = tl_channels s)"
proof (cases "tl_heap s")
  case Nil
  then show ?thesis by (simp add: fire_next_def broadcast_stop)
next
  case (Cons x heap)
  obtain t w where x: "x = (t, w)" by fastforce
  have w: "w < length ds" "\<not> past_end (ds ! w) t" "length ds = length (tl_schedulers s)"
    using assms(1) Cons x by (auto simp: timer_inv_def fine_entry_def)
  moreover have "ds ! w \<in> set ds" using w(1) by simp
  ultimately have "t \<le> e" using assms(4) by (fastforce simp: past_end_def)
  then obtain now rest where n: "precision_sleep_sync t (tr_clock rd) = Some (now # rest)"
    using clock_reaches_sleep[OF assms(5)] by blast
  define s1 where "s1 = s\<lparr>tl_heap := heap, tl_sent := tl_sent s @ [(w, Fire t now)], tl_stats := count_send (tr_send rd) (tl_stats s)\<rparr>"
  have next': "fire_next E rd s = (if tr_send rd = SendDisconnected then Continue s1
      else (case advance_worker E w s1 of None \<Rightarrow> Panic | Some s2 \<Rightarrow> Continue s2))"
    using Cons x n w assms(3) by (simp add: fire_next_def s1_def Let_def)
  have s1: "work_left s1 < work_left s" "tl_schedulers s1 = tl_schedulers s" "tl_channels s1 = tl_channels s"
    using Cons by (simp_all add: work_left_def s1_def)
  obtain s2 where "advance_worker E w s1 = Some s2" "\<forall>x \<in> set (tl_schedulers s2). sched_ends b x"
    "work_left s2 \<le> work_left s1" "length (tl_schedulers s2) = length (tl_schedulers s1)" "tl_channels s2 = tl_channels s1"
    using advance_progress[of s1 b w E] assms(2) s1 w by auto
  then show ?thesis using next' s1 assms(2) by auto
qed

text \<open>The rounds the environment plays: rate changes that keep a positive interval, a clock that goes on.\<close>

definition round_fine :: "duration \<Rightarrow> nat \<Rightarrow> instant \<Rightarrow> timer_round \<Rightarrow> bool" where
  "round_fine b n e rd \<longleftrightarrow> (\<forall>c \<in> set (tr_commands rd). rate_fine b n c) \<and> sorted (tr_clock rd) \<and> clock_reaches e (tr_clock rd)"

lemma loop_progress:
  assumes "timer_inv ds s" "\<forall>x \<in> set (tl_schedulers s). sched_ends b x" "tl_channels s = length (tl_schedulers s)"
    "\<forall>d \<in> set ds. \<exists>e'. d = Some e' \<and> e' \<le> e" "\<forall>rd \<in> set rds. round_fine b (length (tl_schedulers s)) e rd" "work_left s < length rds"
  shows "\<exists>s'. timer_loop E rds s = Done s' \<and> stop_sent s'"
  using assms
proof (induction rds arbitrary: s)
  case (Cons rd rds)
  have rd: "\<forall>c \<in> set (tr_commands rd). rate_fine b (length (tl_schedulers s)) c" "sorted (tr_clock rd)" "clock_reaches e (tr_clock rd)"
    using Cons.prems(5) by (auto simp: round_fine_def)
  obtain s1 f where s1: "drain_commands (tr_commands rd) s = Some (s1, f)" "\<forall>x \<in> set (tl_schedulers s1). sched_ends b x"
    "work_left s1 = work_left s" "length (tl_schedulers s1) = length (tl_schedulers s)" "tl_channels s1 = tl_channels s" "f \<longrightarrow> stop_sent s1"
    using drain_progress[OF Cons.prems(2) rd(1)] by blast
  have i1: "timer_inv ds s1" using drain_inv[OF s1(1) Cons.prems(1)] .
  show ?case
  proof (cases f)
    case True
    then show ?thesis using s1 by (simp add: timer_step_def)
  next
    case False
    have c1: "tl_channels s1 = length (tl_schedulers s1)" using s1 Cons.prems(3) by simp
    from fire_progress[OF i1 s1(2) c1 Cons.prems(4) rd(3), of E] show ?thesis
    proof (elim disjE exE conjE)
      fix s2 assume "fire_next E rd s1 = Done s2" "stop_sent s2"
      then show ?thesis using s1(1) False by (simp add: timer_step_def)
    next
      fix s2 assume s2: "fire_next E rd s1 = Continue s2" "\<forall>x \<in> set (tl_schedulers s2). sched_ends b x" "work_left s2 < work_left s1"
        "length (tl_schedulers s2) = length (tl_schedulers s1)" "tl_channels s2 = tl_channels s1"
      have "timer_inv ds s2" using fire_inv[OF i1 rd(2)] s2(1) by blast
      then have "\<exists>s'. timer_loop E rds s2 = Done s' \<and> stop_sent s'"
        using Cons.prems s1 s2 by (intro Cons.IH) auto
      then show ?thesis using s1(1) False s2(1) by (simp add: timer_step_def)
    qed
  qed
qed simp

section \<open>Properties of the timer thread\<close>

text \<open>
  C3. Across all workers, and whatever commands arrive and however full the channels are, the timer thread
  fires requests in the order of their intended times, none before its intended time and none at or after
  the end of its schedule. The hypothesis on the rounds is that the clock is monotonic.
\<close>

theorem timer_fires_in_order:
  assumes "timer_start E scheds n = Some s" "timer_loop E rds s \<in> {Continue s', Done s'}"
    "\<forall>rd \<in> set rds. sorted (tr_clock rd)"
  shows "sorted (fire_times s') \<and> (\<forall>w t now. (w, Fire t now) \<in> set (tl_sent s') \<longrightarrow>
    t \<le> now \<and> w < length scheds \<and> \<not> past_end (sched_deadline (scheds ! w)) t)"
proof -
  have "timer_inv (map sched_deadline scheds) s'"
    using loop_inv[OF start_inv[OF assms(1)] assms(3)] assms(2) by blast
  then show ?thesis by (fastforce simp: timer_inv_def fine_sent_def)
qed


section \<open>Example runs\<close>

definition demo_exp :: "unit exp_ops" where
  "demo_exp = \<lparr>exp_new_ok = \<lambda>_. True, exp_sample = \<lambda>_ g. (1, g)\<rparr>"

definition demo_scheds :: "unit RequestScheduler list" where
  "demo_scheds = [ConstantSched \<lparr>cr_interval = 2, cr_next_time = 0, cr_end_time = Some 3\<rparr>,
     ConstantSched \<lparr>cr_interval = 2, cr_next_time = 1, cr_end_time = Some 4\<rparr>]"

definition demo_rounds :: "timer_round list" where
  "demo_rounds = \<lparr>tr_commands = [TC_UpdateTargets [''a'']], tr_clock = [0, 10, 11], tr_send = SendOk\<rparr>
     # replicate 6 \<lparr>tr_commands = [], tr_clock = [9, 10, 11], tr_send = SendFull\<rparr>"

lemmas demo_defs = demo_exp_def demo_scheds_def demo_rounds_def timer_start_def advance_worker_def timer_step_def fire_next_def
  constant_next_def past_end_def instant_add_def instant_limit_def precision_sleep_sync_def broadcast_def

definition demo_state :: "unit timer" where
  "demo_state = \<lparr>tl_schedulers = [ConstantSched \<lparr>cr_interval = 2, cr_next_time = 2, cr_end_time = Some 3\<rparr>,
       ConstantSched \<lparr>cr_interval = 2, cr_next_time = 3, cr_end_time = Some 4\<rparr>],
     tl_heap = [(0, 0), (1, 1)], tl_channels = 2, tl_stats = TimerStats_new, tl_sent = []\<rparr>"

lemma demo_start: "timer_start demo_exp demo_scheds 2 = Some demo_state"
  by (simp add: demo_defs demo_state_def upt_rec)


theorem timer_fires_in_order_witness:
  "\<exists>s'. timer_loop demo_exp demo_rounds demo_state = Done s' \<and> sorted (fire_times s') \<and> fire_times s' = [0, 1, 2, 3]"
proof -
  obtain s' where s': "timer_loop demo_exp demo_rounds demo_state = Done s'" "fire_times s' = [0, 1, 2, 3]"
    by (simp add: demo_defs demo_state_def numeral_eq_Suc fire_times_def)
  have "\<forall>rd \<in> set demo_rounds. sorted (tr_clock rd)" by (simp add: demo_rounds_def)
  then show ?thesis using timer_fires_in_order[OF demo_start, of demo_rounds s'] s' by blast
qed

end
