(* ===== verification/Tcp_Wire.thy ===== *)
theory Tcp_Wire
  imports Prelude
begin

text \<open>
  The TCP wire formats: the protocol header, encoded by the client (\<^verbatim>\<open>netanvil-tcp/src/protocol.rs\<close>) and parsed
  by the test server (\<^verbatim>\<open>netanvil-test-servers/src/protocol.rs\<close>), and the framing of payloads
  (\<^verbatim>\<open>netanvil-tcp/src/framing.rs\<close>). The asynchronous stream is a parameter.
\<close>

unbundle bit_operations_syntax

section \<open>Request specification (\<^verbatim>\<open>tcp_spec.rs\<close>)\<close>

datatype TcpTestMode = Echo | RR | Sink | Source | Bidir | CRR

datatype TcpFraming = Raw | LengthPrefixed u8 | Delimiter bytes | FixedSize nat

text \<open>The target address is opaque.\<close>

record TcpRequestSpec =
  tcp_target :: string
  tcp_payload :: bytes
  tcp_framing :: TcpFraming
  tcp_expect_response :: bool
  tcp_response_max_bytes :: nat
  tcp_mode :: TcpTestMode
  tcp_request_size :: u16
  tcp_response_size :: u32
  tcp_latency_us :: "u32 option"
  tcp_error_rate :: "u32 option"

section \<open>The protocol header: client (\<^verbatim>\<open>netanvil-tcp/protocol.rs\<close>)\<close>

definition MODE_RR :: u8 where "MODE_RR = 0x01"
definition MODE_SINK :: u8 where "MODE_SINK = 0x02"
definition MODE_SOURCE :: u8 where "MODE_SOURCE = 0x03"
definition MODE_BIDIR :: u8 where "MODE_BIDIR = 0x04"
definition MODE_CRR :: u8 where "MODE_CRR = 0x05"
definition VERSION_V2 :: u8 where "VERSION_V2 = 0xF0"
definition FLAG_LATENCY :: u8 where "FLAG_LATENCY = 0x02"
definition FLAG_ERROR :: u8 where "FLAG_ERROR = 0x04"
definition HEADER_MIN :: nat where "HEADER_MIN = 10"

lemmas header_consts = MODE_RR_def MODE_SINK_def MODE_SOURCE_def MODE_BIDIR_def MODE_CRR_def VERSION_V2_def
  FLAG_LATENCY_def FLAG_ERROR_def HEADER_MIN_def

text \<open>\<open>None\<close> is the panic on the echo mode.\<close>

fun mode_byte :: "TcpTestMode \<Rightarrow> u8 option" where
  "mode_byte RR = Some MODE_RR"
| "mode_byte Sink = Some MODE_SINK"
| "mode_byte Source = Some MODE_SOURCE"
| "mode_byte Bidir = Some MODE_BIDIR"
| "mode_byte CRR = Some MODE_CRR"
| "mode_byte Echo = None"

definition encode_header :: "TcpRequestSpec \<Rightarrow> bytes option" where
  "encode_header spec = (case mode_byte (tcp_mode spec) of
     None \<Rightarrow> None
   | Some mode \<Rightarrow>
       (let flags0 = 0;
            flags1 = (if tcp_latency_us spec \<noteq> None then flags0 OR FLAG_LATENCY else flags0);
            flags = (if tcp_error_rate spec \<noteq> None then flags1 OR FLAG_ERROR else flags1);
            header_len = HEADER_MIN + (if tcp_latency_us spec \<noteq> None then 4 else 0)
              + (if tcp_error_rate spec \<noteq> None then 4 else 0)
        in Some ([VERSION_V2, word_of_nat header_len, mode, flags]
             @ to_be 2 (unat (tcp_request_size spec)) @ to_be 4 (unat (tcp_response_size spec))
             @ (case tcp_latency_us spec of None \<Rightarrow> [] | Some us \<Rightarrow> to_be 4 (unat us))
             @ (case tcp_error_rate spec of None \<Rightarrow> [] | Some rate \<Rightarrow> to_be 4 (unat rate)))))"

section \<open>The protocol header: server (\<^verbatim>\<open>netanvil-test-servers/protocol.rs\<close>)\<close>

record ParsedHeader =
  ph_mode :: u8
  ph_request_size :: u16
  ph_response_size :: u32
  ph_latency_us :: "u32 option"
  ph_error_rate :: "u32 option"

text \<open>\<open>field buf k n\<close> is \<^verbatim>\<open>from_be_bytes\<close> of \<open>n\<close> bytes at offset \<open>k\<close>.\<close>

definition field :: "bytes \<Rightarrow> nat \<Rightarrow> nat \<Rightarrow> nat" where
  "field buf k n = from_be (map (\<lambda>i. buf ! (k + i)) [0..<n])"

definition parse_header :: "bytes \<Rightarrow> ParsedHeader option" where
  "parse_header buf =
     (if length buf < HEADER_MIN then None
      else if buf ! 0 < VERSION_V2 then None
      else let header_len = unat (buf ! 1)
           in if header_len < HEADER_MIN \<or> length buf < header_len then None
              else let mode = buf ! 2
                   in if mode \<notin> {MODE_RR, MODE_SINK, MODE_SOURCE, MODE_BIDIR, MODE_CRR} then None
                      else let flags = buf ! 3;
                               has_latency = (flags AND FLAG_LATENCY \<noteq> 0);
                               has_error = (flags AND FLAG_ERROR \<noteq> 0);
                               offset = (if has_latency then HEADER_MIN + 4 else HEADER_MIN)
                           in if has_latency \<and> HEADER_MIN + 4 > header_len then None
                              else if has_error \<and> offset + 4 > header_len then None
                              else Some \<lparr>ph_mode = mode,
                                ph_request_size = word_of_nat (field buf 4 2),
                                ph_response_size = word_of_nat (field buf 6 4),
                                ph_latency_us = (if has_latency then Some (word_of_nat (field buf HEADER_MIN 4)) else None),
                                ph_error_rate = (if has_error then Some (word_of_nat (field buf offset 4)) else None)\<rparr>)"

definition parse_header_with_offset :: "bytes \<Rightarrow> (ParsedHeader \<times> nat) option" where
  "parse_header_with_offset buf =
     (if length buf < 2 then None
      else case parse_header buf of None \<Rightarrow> None | Some header \<Rightarrow> Some (header, unat (buf ! 1)))"

definition is_protocol_sentinel :: "u8 \<Rightarrow> bool" where
  "is_protocol_sentinel first_byte \<longleftrightarrow> first_byte \<ge> VERSION_V2"

lemma field_append: "length xs = k \<Longrightarrow> length ys = n \<Longrightarrow> field (xs @ ys @ zs) k n = from_be ys"
proof -
  assume "length xs = k" "length ys = n"
  then have "map (\<lambda>i. (xs @ ys @ zs) ! (k + i)) [0..<n] = ys"
    by (intro nth_equalityI) (auto simp: nth_append)
  then show ?thesis by (simp add: field_def)
qed

lemma be_roundtrip:
  "word_of_nat (from_be (to_be 2 (unat (x :: u16)))) = x" "word_of_nat (from_be (to_be 4 (unat (y :: u32)))) = y"
proof -
  have "unat x < 256 ^ 2" "unat y < 256 ^ 4" using unsigned_less[of x, where 'a=nat] unsigned_less[of y, where 'a=nat] by simp_all
  then show "word_of_nat (from_be (to_be 2 (unat x))) = x" "word_of_nat (from_be (to_be 4 (unat y))) = y"
    by (simp_all add: from_be_to_be_id)
qed

text \<open>The fields of an encoded header sit where the server reads them.\<close>

lemma encode_header_fields:
  assumes "encode_header spec = Some h"
  shows "field (h @ rest) 4 2 = from_be (to_be 2 (unat (tcp_request_size spec)))"
    "field (h @ rest) 6 4 = from_be (to_be 4 (unat (tcp_response_size spec)))"
    "tcp_latency_us spec = Some us \<Longrightarrow> field (h @ rest) 10 4 = from_be (to_be 4 (unat us))"
    "tcp_error_rate spec = Some rate \<Longrightarrow>
      field (h @ rest) (if tcp_latency_us spec \<noteq> None then 14 else 10) 4 = from_be (to_be 4 (unat rate))"
    "length h = 10 + (if tcp_latency_us spec \<noteq> None then 4 else 0) + (if tcp_error_rate spec \<noteq> None then 4 else 0)"
proof -
  obtain mode flags hl where mode: "mode_byte (tcp_mode spec) = Some mode"
    and h: "h = [VERSION_V2, hl, mode, flags] @ to_be 2 (unat (tcp_request_size spec)) @ to_be 4 (unat (tcp_response_size spec))
      @ (case tcp_latency_us spec of None \<Rightarrow> [] | Some us \<Rightarrow> to_be 4 (unat us))
      @ (case tcp_error_rate spec of None \<Rightarrow> [] | Some rate \<Rightarrow> to_be 4 (unat rate))"
    using assms by (auto simp: encode_header_def Let_def split: option.splits)
  show "field (h @ rest) 4 2 = from_be (to_be 2 (unat (tcp_request_size spec)))"
    unfolding h using field_append[of "[VERSION_V2, hl, mode, flags]" 4] by simp
  show "field (h @ rest) 6 4 = from_be (to_be 4 (unat (tcp_response_size spec)))"
    unfolding h using field_append[of "[VERSION_V2, hl, mode, flags] @ to_be 2 (unat (tcp_request_size spec))" 6] by simp
  show "tcp_latency_us spec = Some us \<Longrightarrow> field (h @ rest) 10 4 = from_be (to_be 4 (unat us))"
    unfolding h using field_append[of "[VERSION_V2, hl, mode, flags] @ to_be 2 (unat (tcp_request_size spec)) @ to_be 4 (unat (tcp_response_size spec))" 10] by simp
  show "tcp_error_rate spec = Some rate \<Longrightarrow>
      field (h @ rest) (if tcp_latency_us spec \<noteq> None then 14 else 10) 4 = from_be (to_be 4 (unat rate))"
    unfolding h using field_append[of "[VERSION_V2, hl, mode, flags] @ to_be 2 (unat (tcp_request_size spec)) @ to_be 4 (unat (tcp_response_size spec))
      @ (case tcp_latency_us spec of None \<Rightarrow> [] | Some us \<Rightarrow> to_be 4 (unat us))" "(if tcp_latency_us spec \<noteq> None then 14 else 10)"]
    by (simp split: option.split)
  show "length h = 10 + (if tcp_latency_us spec \<noteq> None then 4 else 0) + (if tcp_error_rate spec \<noteq> None then 4 else 0)"
    unfolding h by (simp split: option.split)
qed

lemma parse_header_eq:
  assumes "buf ! 0 = VERSION_V2" "unat (buf ! 1) = n" "10 \<le> n" "n \<le> length buf"
    "buf ! 2 \<in> {MODE_RR, MODE_SINK, MODE_SOURCE, MODE_BIDIR, MODE_CRR}"
    "buf ! 3 AND FLAG_LATENCY \<noteq> 0 \<longleftrightarrow> has_latency" "buf ! 3 AND FLAG_ERROR \<noteq> 0 \<longleftrightarrow> has_error"
    "n = 10 + (if has_latency then 4 else 0) + (if has_error then 4 else 0)"
  shows "parse_header buf = Some \<lparr>ph_mode = buf ! 2,
    ph_request_size = word_of_nat (field buf 4 2), ph_response_size = word_of_nat (field buf 6 4),
    ph_latency_us = (if has_latency then Some (word_of_nat (field buf 10 4)) else None),
    ph_error_rate = (if has_error then Some (word_of_nat (field buf (if has_latency then 14 else 10) 4)) else None)\<rparr>"
  unfolding parse_header_def Let_def assms(6,7) using assms(1-5,8) by (cases has_latency; cases has_error) (auto simp: HEADER_MIN_def)

lemma parse_encode_header:
  assumes "mode_byte (tcp_mode spec) = Some mode"
  shows "\<exists>h. encode_header spec = Some h \<and> parse_header_with_offset (h @ rest) = Some (\<lparr>ph_mode = mode,
      ph_request_size = tcp_request_size spec, ph_response_size = tcp_response_size spec,
      ph_latency_us = tcp_latency_us spec, ph_error_rate = tcp_error_rate spec\<rparr>, length h)"
proof -
  obtain h where h: "encode_header spec = Some h" using assms by (auto simp: encode_header_def Let_def)
  note f = encode_header_fields(1-4)[OF h, where rest = rest] encode_header_fields(5)[OF h]
  define flags where "flags = (if tcp_error_rate spec \<noteq> None
    then (if tcp_latency_us spec \<noteq> None then 0 OR FLAG_LATENCY else 0) OR FLAG_ERROR
    else (if tcp_latency_us spec \<noteq> None then 0 OR FLAG_LATENCY else 0))"
  have hd: "h ! 0 = VERSION_V2" "h ! 1 = word_of_nat (length h)" "h ! 2 = mode" "h ! 3 = flags"
    using h assms f(5) by (auto simp: encode_header_def Let_def HEADER_MIN_def flags_def)
  have fl: "flags AND FLAG_LATENCY \<noteq> 0 \<longleftrightarrow> tcp_latency_us spec \<noteq> None" "flags AND FLAG_ERROR \<noteq> 0 \<longleftrightarrow> tcp_error_rate spec \<noteq> None"
    by (simp_all add: flags_def header_consts)
  have len: "10 \<le> length h" "unat (word_of_nat (length h) :: u8) = length h" using f(5) by simp_all
  have md: "mode \<in> {MODE_RR, MODE_SINK, MODE_SOURCE, MODE_BIDIR, MODE_CRR}" using assms by (cases "tcp_mode spec") auto
  have nth: "(h @ rest) ! 0 = VERSION_V2" "(h @ rest) ! 1 = word_of_nat (length h)" "(h @ rest) ! 2 = mode" "(h @ rest) ! 3 = flags"
    using len(1) hd by (auto simp: nth_append)
  have "parse_header (h @ rest) = Some \<lparr>ph_mode = mode,
      ph_request_size = tcp_request_size spec, ph_response_size = tcp_response_size spec,
      ph_latency_us = tcp_latency_us spec, ph_error_rate = tcp_error_rate spec\<rparr>"
    using parse_header_eq[of "h @ rest" "length h" "tcp_latency_us spec \<noteq> None" "tcp_error_rate spec \<noteq> None"] nth len md fl f
    by (cases "tcp_latency_us spec"; cases "tcp_error_rate spec") (simp_all add: be_roundtrip)
  then show ?thesis using h len nth by (auto simp: parse_header_with_offset_def)
qed


section \<open>Framing (\<^verbatim>\<open>netanvil-tcp/framing.rs\<close>)\<close>

definition encode_frame :: "bytes \<Rightarrow> TcpFraming \<Rightarrow> bytes" where
  "encode_frame payload framing = (case framing of
     Raw \<Rightarrow> payload
   | LengthPrefixed width \<Rightarrow>
       (if width = 1 then to_be 1 (length payload)
        else if width = 2 then to_be 2 (length payload)
        else if width = 4 then to_be 4 (length payload)
        else to_be 4 (length payload)) @ payload
   | Delimiter delim \<Rightarrow> payload @ delim
   | FixedSize n \<Rightarrow> take (min (length payload) n) payload @ replicate (n - min (length payload) n) 0)"

text \<open>
  The stream belongs to the asynchronous runtime: its operations are a parameter, with a state \<open>'s\<close>. A read of
  at most \<open>n\<close> bytes and a read of exactly \<open>n\<close> bytes return the bytes or an error.
\<close>

datatype IoError = InvalidInput | UnexpectedEof | MaxBytesExceeded | PayloadTooLarge nat nat | Transport string

record 's stream_ops =
  so_read :: "nat \<Rightarrow> 's \<Rightarrow> 's \<times> (IoError + bytes)"
  so_read_exact :: "nat \<Rightarrow> 's \<Rightarrow> 's \<times> (IoError + bytes)"

definition read_raw :: "'s stream_ops \<Rightarrow> nat \<Rightarrow> 's \<Rightarrow> 's \<times> (IoError + bytes)" where
  "read_raw ops max_bytes s = so_read ops max_bytes s"

text \<open>The loop of \<^verbatim>\<open>read_until_delimiter\<close>; it ends because it stops at \<open>max_bytes\<close> accumulated bytes.\<close>

function delimiter_loop :: "'s stream_ops \<Rightarrow> bytes \<Rightarrow> nat \<Rightarrow> bytes \<Rightarrow> 's \<Rightarrow> 's \<times> (IoError + bytes)" where
  "delimiter_loop ops delim max_bytes acc s =
     (if length acc \<ge> max_bytes then (s, Inl MaxBytesExceeded)
      else case so_read ops 1 s of
          (s', Inl e) \<Rightarrow> (s', Inl e)
        | (s', Inr []) \<Rightarrow> (s', Inl UnexpectedEof)
        | (s', Inr (b # _)) \<Rightarrow>
            (let acc' = acc @ [b]
             in if length acc' \<ge> length delim \<and> drop (length acc' - length delim) acc' = delim
                then (s', Inr (take (length acc' - length delim) acc'))
                else delimiter_loop ops delim max_bytes acc' s'))"
  by pat_completeness auto

termination
  by (relation "measure (\<lambda>(_, _, max_bytes, acc, _). max_bytes - length acc)") auto

declare delimiter_loop.simps [simp del]

definition read_until_delimiter :: "'s stream_ops \<Rightarrow> bytes \<Rightarrow> nat \<Rightarrow> 's \<Rightarrow> 's \<times> (IoError + bytes)" where
  "read_until_delimiter ops delim max_bytes s =
     (if delim = [] then (s, Inl InvalidInput) else delimiter_loop ops delim max_bytes [] s)"

definition read_length_prefixed :: "'s stream_ops \<Rightarrow> u8 \<Rightarrow> nat \<Rightarrow> 's \<Rightarrow> 's \<times> (IoError + bytes)" where
  "read_length_prefixed ops width max_bytes s = (case so_read_exact ops (unat width) s of
     (s', Inl e) \<Rightarrow> (s', Inl e)
   | (s', Inr header) \<Rightarrow>
       if width \<noteq> 1 \<and> width \<noteq> 2 \<and> width \<noteq> 4 then (s', Inl InvalidInput)
       else let payload_len = from_be header
            in if payload_len > max_bytes then (s', Inl (PayloadTooLarge payload_len max_bytes))
               else so_read_exact ops payload_len s')"

definition read_fixed :: "'s stream_ops \<Rightarrow> nat \<Rightarrow> 's \<Rightarrow> 's \<times> (IoError + bytes)" where
  "read_fixed ops n s = so_read_exact ops n s"

definition read_framed :: "'s stream_ops \<Rightarrow> TcpFraming \<Rightarrow> nat \<Rightarrow> 's \<Rightarrow> 's \<times> (IoError + bytes)" where
  "read_framed ops framing max_bytes s = (case framing of
     Raw \<Rightarrow> read_raw ops max_bytes s
   | Delimiter delim \<Rightarrow> read_until_delimiter ops delim max_bytes s
   | LengthPrefixed width \<Rightarrow> read_length_prefixed ops width max_bytes s
   | FixedSize n \<Rightarrow> read_fixed ops n s)"

section \<open>Round trips\<close>

text \<open>
  What is documented of a stream that does not fail: with \<open>content s\<close> the bytes that are still to arrive, a read
  returns a prefix that is empty only at the end, and an exact read returns the prefix of the wanted
  length or reports the end of the stream.
\<close>

definition stream_laws :: "'s stream_ops \<Rightarrow> ('s \<Rightarrow> bytes) \<Rightarrow> bool" where
  "stream_laws ops content \<longleftrightarrow>
     (\<forall>n s. n > 0 \<longrightarrow> (\<exists>s' bs. so_read ops n s = (s', Inr bs) \<and> content s = bs @ content s'
        \<and> length bs \<le> n \<and> (bs = [] \<longrightarrow> content s = [])))
     \<and> (\<forall>n s. n \<le> length (content s) \<longrightarrow> (\<exists>s'. so_read_exact ops n s = (s', Inr (take n (content s)))
        \<and> content s' = drop n (content s)))"

lemma stream_read1:
  assumes "stream_laws ops content" "content s = b # bs"
  obtains s' where "so_read ops 1 s = (s', Inr [b])" "content s' = bs"
proof -
  obtain s' xs where r: "so_read ops 1 s = (s', Inr xs)" "content s = xs @ content s'" "length xs \<le> 1" "xs = [] \<longrightarrow> content s = []"
    using assms(1) unfolding stream_laws_def by (metis less_numeral_extra(1))
  then have "xs = [b]" using assms(2) by (cases xs) auto
  then show ?thesis using that r assms(2) by simp
qed

lemma stream_read_exact:
  assumes "stream_laws ops content" "content s = bs @ rest" "length bs = n"
  obtains s' where "so_read_exact ops n s = (s', Inr bs)" "content s' = rest"
proof -
  obtain s' where "so_read_exact ops n s = (s', Inr (take n (content s)))" "content s' = drop n (content s)"
    using assms unfolding stream_laws_def by (metis length_append le_add1)
  then show ?thesis using that assms(2,3) by simp
qed

text \<open>The delimiter first ends a prefix at the end of the frame.\<close>

definition delimiter_free :: "bytes \<Rightarrow> bytes \<Rightarrow> bool" where
  "delimiter_free delim payload \<longleftrightarrow>
     list_all (\<lambda>n. \<not> (length delim \<le> n \<and> drop (n - length delim) (take n (payload @ delim)) = delim)) [0..<length payload + length delim]"

lemma delimiter_loop_reads:
  assumes laws: "stream_laws ops content" and d: "delim \<noteq> []" "delimiter_free delim payload"
    and m: "length payload + length delim \<le> max_bytes"
  shows "\<lbrakk>acc @ todo = payload @ delim; todo \<noteq> []; content s = todo @ rest\<rbrakk> \<Longrightarrow>
    \<exists>s'. delimiter_loop ops delim max_bytes acc s = (s', Inr payload) \<and> content s' = rest"
proof (induction todo arbitrary: acc s)
  case (Cons b todo)
  have len: "length acc + length (b # todo) = length payload + length delim"
    using Cons.prems(1) by (metis length_append)
  obtain s' where r: "so_read ops 1 s = (s', Inr [b])" "content s' = todo @ rest"
    using stream_read1[OF laws, of s b "todo @ rest"] Cons.prems(3) by auto
  have step: "delimiter_loop ops delim max_bytes acc s =
      (if length (acc @ [b]) \<ge> length delim \<and> drop (length (acc @ [b]) - length delim) (acc @ [b]) = delim
       then (s', Inr (take (length (acc @ [b]) - length delim) (acc @ [b])))
       else delimiter_loop ops delim max_bytes (acc @ [b]) s')"
    using r(1) len m by (subst delimiter_loop.simps) (simp add: Let_def)
  show ?case
  proof (cases "todo = []")
    case True
    then have "acc @ [b] = payload @ delim" using Cons.prems(1) by simp
    then show ?thesis using step r(2) True by (simp only:) simp
  next
    case False
    have "acc @ [b] = take (length acc + 1) (payload @ delim)" using Cons.prems(1)
      by (metis (no_types, lifting) append.assoc append_Cons append_Nil append_eq_conv_conj length_append_singleton Suc_eq_plus1)
    moreover have "length acc + 1 < length payload + length delim" using False len by (cases todo) auto
    ultimately have "\<not> (length (acc @ [b]) \<ge> length delim \<and> drop (length (acc @ [b]) - length delim) (acc @ [b]) = delim)"
      using d(2) unfolding delimiter_free_def list_all_iff by (metis atLeastLessThan_iff length_append_singleton Suc_eq_plus1 set_upt zero_le)
    then show ?thesis using step Cons.IH[of "acc @ [b]" s'] Cons.prems(1) False r(2) by simp
  qed
qed simp

text \<open>What a frame must satisfy for its reader: the length fits the prefix and the reader's limit.\<close>

definition frame_fits :: "TcpFraming \<Rightarrow> bytes \<Rightarrow> nat \<Rightarrow> bool" where
  "frame_fits framing payload max_bytes = (case framing of
     Raw \<Rightarrow> False
   | LengthPrefixed width \<Rightarrow> width \<in> {1, 2, 4} \<and> length payload < 256 ^ unat width \<and> length payload \<le> max_bytes
   | Delimiter delim \<Rightarrow> delim \<noteq> [] \<and> delimiter_free delim payload \<and> length payload + length delim \<le> max_bytes
   | FixedSize n \<Rightarrow> length payload = n)"

text \<open>
  C25. A frame round-trips: when the bytes to arrive start with the encoding of a payload that fits its framing,
  reading with the same framing returns exactly the payload and leaves exactly what follows it. This
  holds for length prefixes of 1, 2 and 4 bytes, for delimiters that do not occur early, and for fixed
  sizes.
\<close>

theorem frame_roundtrip:
  assumes "stream_laws ops content" "frame_fits framing payload max_bytes"
    "content s = encode_frame payload framing @ rest"
  shows "\<exists>s'. read_framed ops framing max_bytes s = (s', Inr payload) \<and> content s' = rest"
proof (cases framing)
  case (LengthPrefixed width)
  have w: "encode_frame payload framing = to_be (unat width) (length payload) @ payload" "length payload < 256 ^ unat width"
    "width = 1 \<or> width = 2 \<or> width = 4" "length payload \<le> max_bytes"
    using assms(2) LengthPrefixed by (auto simp: frame_fits_def encode_frame_def)
  obtain s1 where s1: "so_read_exact ops (unat width) s = (s1, Inr (to_be (unat width) (length payload)))" "content s1 = payload @ rest"
    using stream_read_exact[OF assms(1), of s "to_be (unat width) (length payload)" "payload @ rest" "unat width"] assms(3) w(1) by auto
  obtain s2 where "so_read_exact ops (length payload) s1 = (s2, Inr payload)" "content s2 = rest"
    using stream_read_exact[OF assms(1) s1(2)] by auto
  then show ?thesis using s1(1) w(2-4) LengthPrefixed
    by (auto simp: read_framed_def read_length_prefixed_def Let_def from_be_to_be_id)
next
  case (Delimiter delim)
  then show ?thesis
    using delimiter_loop_reads[OF assms(1), of delim payload max_bytes "[]" "payload @ delim" s rest] assms(2,3)
    by (simp add: read_framed_def read_until_delimiter_def frame_fits_def encode_frame_def)
next
  case (FixedSize n)
  then show ?thesis using stream_read_exact[OF assms(1), of s payload rest n] assms(2,3)
    by (simp add: read_framed_def read_fixed_def frame_fits_def encode_frame_def) metis
qed (use assms(2) in \<open>simp add: frame_fits_def\<close>)

text \<open>A stream over a list of bytes, which satisfies the laws.\<close>

definition list_stream :: "bytes stream_ops" where
  "list_stream = \<lparr>so_read = \<lambda>n s. (drop n s, Inr (take n s)),
     so_read_exact = \<lambda>n s. if n \<le> length s then (drop n s, Inr (take n s)) else (s, Inl UnexpectedEof)\<rparr>"

lemma list_stream_laws: "stream_laws list_stream (\<lambda>s. s)"
  by (auto simp: stream_laws_def list_stream_def)

theorem frame_roundtrip_witness:
  "\<exists>s'. read_framed list_stream (Delimiter [13, 10]) 100 [1, 13, 2, 13, 10, 9] = (s', Inr [1, 13, 2]) \<and> s' = [9]"
  using frame_roundtrip[OF list_stream_laws, of "Delimiter [13, 10]" "[1, 13, 2]" 100 "[1, 13, 2, 13, 10, 9]" "[9]"]
  by (simp add: frame_fits_def delimiter_free_def encode_frame_def)

text \<open>
  C26. The header the client writes is the header the server reads: for every mode but echo, decoding the
  encoded header followed by any payload returns the mode byte, both sizes and the optional latency and
  error rate of the specification, and the payload starts right after the header.
\<close>

theorem header_roundtrip:
  assumes "mode_byte (tcp_mode spec) = Some mode"
  shows "\<exists>h. encode_header spec = Some h \<and> parse_header_with_offset (h @ rest) = Some (\<lparr>ph_mode = mode,
      ph_request_size = tcp_request_size spec, ph_response_size = tcp_response_size spec,
      ph_latency_us = tcp_latency_us spec, ph_error_rate = tcp_error_rate spec\<rparr>, length h)"
  by (rule parse_encode_header[OF assms])

definition demo_tcp_spec :: TcpRequestSpec where
  "demo_tcp_spec = \<lparr>tcp_target = ''t'', tcp_payload = [], tcp_framing = Raw, tcp_expect_response = True,
     tcp_response_max_bytes = 10, tcp_mode = RR, tcp_request_size = 300, tcp_response_size = 70000,
     tcp_latency_us = None, tcp_error_rate = Some 25\<rparr>"

theorem header_roundtrip_witness:
  "\<exists>h. encode_header demo_tcp_spec = Some h \<and> parse_header_with_offset (h @ [7]) = Some (\<lparr>ph_mode = MODE_RR,
      ph_request_size = 300, ph_response_size = 70000, ph_latency_us = None, ph_error_rate = Some 25\<rparr>, length h)"
  using header_roundtrip[of demo_tcp_spec MODE_RR "[7]"] by (simp add: demo_tcp_spec_def)

text \<open>
  A payload that does not fit its length prefix desynchronises the connection: the encoder keeps the low
  bits of the length, so a payload of exactly \<open>256\<^sup>w\<close> bytes is framed with the length zero; the reader
  returns an empty payload and leaves all its bytes in the stream as the next frame.
\<close>

theorem length_prefix_truncated:
  assumes "stream_laws ops content" "width \<in> {1, 2, 4}" "length payload = 256 ^ unat width"
    "content s = encode_frame payload (LengthPrefixed width) @ rest"
  shows "\<exists>s'. read_framed ops (LengthPrefixed width) max_bytes s = (s', Inr []) \<and> content s' = payload @ rest"
proof -
  have w: "encode_frame payload (LengthPrefixed width) = to_be (unat width) (length payload) @ payload"
    "width = 1 \<or> width = 2 \<or> width = 4"
    using assms(2) by (auto simp: encode_frame_def)
  obtain s1 where s1: "so_read_exact ops (unat width) s = (s1, Inr (to_be (unat width) (length payload)))" "content s1 = payload @ rest"
    using stream_read_exact[OF assms(1), of s "to_be (unat width) (length payload)" "payload @ rest" "unat width"] assms(4) w(1) by auto
  obtain s2 where "so_read_exact ops 0 s1 = (s2, Inr [])" "content s2 = payload @ rest"
    using stream_read_exact[OF assms(1), of s1 "[]" "payload @ rest" 0] s1(2) by auto
  then show ?thesis using s1(1) w(2) assms(3)
    by (auto simp: read_framed_def read_length_prefixed_def Let_def from_be_to_be)
qed

theorem length_prefix_truncated_witness:
  "\<exists>s'. read_framed list_stream (LengthPrefixed 1) 1000 (encode_frame (replicate 256 7) (LengthPrefixed 1) @ [1]) = (s', Inr [])
    \<and> s' = replicate 256 7 @ [1]"
  using length_prefix_truncated[OF list_stream_laws, of 1 "replicate 256 7" "encode_frame (replicate 256 7) (LengthPrefixed 1) @ [1]" "[1]" 1000]
  by simp

end
