(* ===== verification/Tcp_Client.thy ===== *)
theory Tcp_Client
  imports Tcp_Wire
begin

text \<open>
  The TCP request executor: the connection pool (\<^verbatim>\<open>pool.rs\<close>), the counter that limits the life of a
  connection (\<^verbatim>\<open>netanvil-sampling/src/lifecycle.rs\<close>) and the executor with its modes (\<^verbatim>\<open>executor.rs\<close>). The
  stream, the connect call and the random number generator are parameters; a request that times out is
  a future dropped while it awaits, so nothing after its last await runs. The timing breakdown of a
  result is not modelled.
\<close>

section \<open>Connection pool (\<^verbatim>\<open>pool.rs\<close>)\<close>

record 's PooledConnection =
  pcn_stream :: 's
  pcn_header_sent :: bool
  pcn_request_count :: u32
  pcn_created_at :: instant
  pcn_reader_spawned :: bool

record 's ConnectionPool =
  cp_idle :: "'s PooledConnection list"
  cp_active :: nat
  cp_max_connections :: nat

definition ConnectionPool_new :: "nat \<Rightarrow> 's ConnectionPool" where
  "ConnectionPool_new max_connections = \<lparr>cp_idle = [], cp_active = 0, cp_max_connections = max_connections\<rparr>"

definition take_idle :: "'s ConnectionPool \<Rightarrow> 's ConnectionPool \<times> 's PooledConnection option" where
  "take_idle p = (case cp_idle p of
     [] \<Rightarrow> (p, None)
   | conn # rest \<Rightarrow> (p\<lparr>cp_idle := rest, cp_active := cp_active p + 1\<rparr>, Some conn))"

definition can_open_new :: "'s ConnectionPool \<Rightarrow> bool" where
  "can_open_new p \<longleftrightarrow> cp_max_connections p = 0 \<or> cp_active p + length (cp_idle p) < cp_max_connections p"

definition record_opened :: "'s ConnectionPool \<Rightarrow> 's ConnectionPool" where
  "record_opened p = p\<lparr>cp_active := cp_active p + 1\<rparr>"

definition return_idle :: "'s PooledConnection \<Rightarrow> 's ConnectionPool \<Rightarrow> 's ConnectionPool" where
  "return_idle conn p =
     p\<lparr>cp_active := (if cp_active p > 0 then cp_active p - 1 else cp_active p), cp_idle := cp_idle p @ [conn]\<rparr>"

definition record_dropped :: "'s ConnectionPool \<Rightarrow> 's ConnectionPool" where
  "record_dropped p = p\<lparr>cp_active := (if cp_active p > 0 then cp_active p - 1 else cp_active p)\<rparr>"

section \<open>Lifecycle counter (\<^verbatim>\<open>lifecycle.rs\<close>)\<close>

text \<open>Sampling the distribution and the generator are parameters.\<close>

record 'r rng_ops =
  sample_u32 :: "'r \<Rightarrow> u32 \<times> 'r"
  gen_bool :: "f64 \<Rightarrow> 'r \<Rightarrow> bool \<times> 'r"

record 'r LifecycleCounter =
  lc_count :: u32
  lc_limit :: u32
  lc_rng :: 'r

definition LifecycleCounter_new :: "'r rng_ops \<Rightarrow> 'r \<Rightarrow> 'r LifecycleCounter" where
  "LifecycleCounter_new g rng = (let (limit, rng') = sample_u32 g rng in \<lparr>lc_count = 0, lc_limit = limit, lc_rng = rng'\<rparr>)"

definition lifecycle_tick :: "'r LifecycleCounter \<Rightarrow> 'r LifecycleCounter \<times> bool" where
  "lifecycle_tick lc = (let lc' = lc\<lparr>lc_count := lc_count lc + 1\<rparr> in (lc', lc_count lc' > lc_limit lc'))"

definition lifecycle_reset :: "'r rng_ops \<Rightarrow> 'r LifecycleCounter \<Rightarrow> 'r LifecycleCounter" where
  "lifecycle_reset g lc = (let (limit, rng) = sample_u32 g (lc_rng lc) in lc\<lparr>lc_count := 0, lc_limit := limit, lc_rng := rng\<rparr>)"

section \<open>Executor (\<^verbatim>\<open>executor.rs\<close>)\<close>

datatype ExecutionError =
  EE_Connect string | EE_Timeout | EE_Http string | EE_Tls string | EE_Protocol string | EE_Other string

text \<open>The lifetime distribution of the mixed policy is the parameter \<open>sample_u32\<close>; here, whether it is set.\<close>

datatype ConnectionPolicy = KeepAlive | AlwaysNew | NoReuse | Mixed f64 bool

record 's tcp_ops = "'s stream_ops" +
  so_write_all :: "bytes \<Rightarrow> 's \<Rightarrow> 's \<times> IoError option"

record ('s, 'r) TcpExecutor =
  te_pool :: "'s ConnectionPool"
  te_policy :: ConnectionPolicy
  te_lifecycle :: "'r LifecycleCounter option"
  te_rng :: 'r

definition TcpExecutor_with_pool :: "'r rng_ops \<Rightarrow> 'r \<Rightarrow> 'r \<Rightarrow> nat \<Rightarrow> ConnectionPolicy \<Rightarrow> ('s, 'r) TcpExecutor" where
  "TcpExecutor_with_pool g seed_lc seed max_connections policy = \<lparr>te_pool = ConnectionPool_new max_connections,
     te_policy = policy,
     te_lifecycle = (case policy of Mixed _ True \<Rightarrow> Some (LifecycleCounter_new g seed_lc) | _ \<Rightarrow> None),
     te_rng = seed\<rparr>"

text \<open>The synchronous part of \<^verbatim>\<open>acquire_connection\<close>, up to its only await, and the whole.\<close>

datatype 's Acquired = Reused "'s PooledConnection" | Opening | Exhausted

definition acquire_begin :: "'s ConnectionPool \<Rightarrow> 's ConnectionPool \<times> 's Acquired" where
  "acquire_begin pool = (case take_idle pool of
     (p, Some conn) \<Rightarrow> (p, Reused conn)
   | (p, None) \<Rightarrow> if \<not> can_open_new p then (p, Exhausted) else (record_opened p, Opening))"

definition acquire_connection ::
  "(string \<Rightarrow> string + 's) \<Rightarrow> instant \<Rightarrow> string \<Rightarrow> 's ConnectionPool \<Rightarrow> 's ConnectionPool \<times> (ExecutionError + 's PooledConnection)" where
  "acquire_connection connect now target pool = (case acquire_begin pool of
     (p, Reused conn) \<Rightarrow> (p, Inr conn)
   | (p, Exhausted) \<Rightarrow> (p, Inl (EE_Connect ''connection pool exhausted''))
   | (p, Opening) \<Rightarrow> (case connect target of
       Inl e \<Rightarrow> (record_dropped p, Inl (EE_Connect e))
     | Inr stream \<Rightarrow> (p, Inr \<lparr>pcn_stream = stream, pcn_header_sent = False, pcn_request_count = 0,
         pcn_created_at = now, pcn_reader_spawned = False\<rparr>)))"

definition write_stream :: "'s tcp_ops \<Rightarrow> string \<Rightarrow> bytes \<Rightarrow> 's PooledConnection \<Rightarrow> 's PooledConnection \<times> ExecutionError option" where
  "write_stream ops what data conn = (case so_write_all ops data (pcn_stream conn) of
     (s, None) \<Rightarrow> (conn\<lparr>pcn_stream := s\<rparr>, None)
   | (s, Some _) \<Rightarrow> (conn\<lparr>pcn_stream := s\<rparr>, Some (EE_Protocol what)))"

definition do_echo :: "'s tcp_ops \<Rightarrow> 's PooledConnection \<Rightarrow> TcpRequestSpec \<Rightarrow> 's PooledConnection \<times> (ExecutionError + u64)" where
  "do_echo ops conn spec = (case write_stream ops ''write'' (encode_frame (tcp_payload spec) (tcp_framing spec)) conn of
     (c, Some e) \<Rightarrow> (c, Inl e)
   | (c, None) \<Rightarrow>
       if tcp_expect_response spec
       then (case read_framed (stream_ops.truncate ops) (tcp_framing spec) (tcp_response_max_bytes spec) (pcn_stream c) of
           (s, Inl _) \<Rightarrow> (c\<lparr>pcn_stream := s\<rparr>, Inl (EE_Protocol ''read''))
         | (s, Inr data) \<Rightarrow> (c\<lparr>pcn_stream := s\<rparr>, Inr (word_of_nat (length data))))
       else (c, Inr 0))"

text \<open>The payload padded or truncated to the request size.\<close>

definition rr_payload :: "TcpRequestSpec \<Rightarrow> bytes" where
  "rr_payload spec =
     (let n = unat (tcp_request_size spec)
      in if length (tcp_payload spec) \<ge> n then take n (tcp_payload spec)
         else tcp_payload spec @ replicate (n - length (tcp_payload spec)) 0)"

definition do_rr :: "'s tcp_ops \<Rightarrow> 's PooledConnection \<Rightarrow> TcpRequestSpec \<Rightarrow> 's PooledConnection \<times> (ExecutionError + u64)" where
  "do_rr ops conn spec =
     (case (if rr_payload spec \<noteq> [] then write_stream ops ''write'' (rr_payload spec) conn else (conn, None)) of
        (c, Some e) \<Rightarrow> (c, Inl e)
      | (c, None) \<Rightarrow>
          if tcp_response_size spec > 0
          then (case so_read_exact ops (unat (tcp_response_size spec)) (pcn_stream c) of
              (s, Inl _) \<Rightarrow> (c\<lparr>pcn_stream := s\<rparr>, Inl (EE_Protocol ''read''))
            | (s, Inr _) \<Rightarrow> (c\<lparr>pcn_stream := s\<rparr>, Inr (ucast (tcp_response_size spec))))
          else (c, Inr 0))"

definition do_sink :: "'s tcp_ops \<Rightarrow> 's PooledConnection \<Rightarrow> TcpRequestSpec \<Rightarrow> 's PooledConnection \<times> (ExecutionError + u64)" where
  "do_sink ops conn spec = (case write_stream ops ''write'' (tcp_payload spec) conn of
     (c, Some e) \<Rightarrow> (c, Inl e) | (c, None) \<Rightarrow> (c, Inr 0))"

definition do_source :: "'s tcp_ops \<Rightarrow> 's PooledConnection \<Rightarrow> TcpRequestSpec \<Rightarrow> 's PooledConnection \<times> (ExecutionError + u64)" where
  "do_source ops conn spec =
     (case so_read_exact ops (unat (max (tcp_response_size spec) 1)) (pcn_stream conn) of
        (s, Inl _) \<Rightarrow> (conn\<lparr>pcn_stream := s\<rparr>, Inl (EE_Protocol ''read''))
      | (s, Inr _) \<Rightarrow> (conn\<lparr>pcn_stream := s\<rparr>, Inr (ucast (tcp_response_size spec))))"

text \<open>The background reader of the bidirectional mode only discards what it reads; here, that it was spawned.\<close>

definition do_bidir :: "'s tcp_ops \<Rightarrow> 's PooledConnection \<Rightarrow> TcpRequestSpec \<Rightarrow> 's PooledConnection \<times> (ExecutionError + u64)" where
  "do_bidir ops conn spec =
     (case write_stream ops ''bidir write'' (tcp_payload spec) (conn\<lparr>pcn_reader_spawned := True\<rparr>) of
        (c, Some e) \<Rightarrow> (c, Inl e) | (c, None) \<Rightarrow> (c, Inr 0))"

definition should_keep_connection :: "'r rng_ops \<Rightarrow> ('s, 'r) TcpExecutor \<Rightarrow> ('s, 'r) TcpExecutor \<times> bool" where
  "should_keep_connection g e = (case te_policy e of
     KeepAlive \<Rightarrow> (e, True)
   | AlwaysNew \<Rightarrow> (e, False)
   | NoReuse \<Rightarrow> (e, False)
   | Mixed persistent_ratio _ \<Rightarrow>
       (let ticked = map_option lifecycle_tick (te_lifecycle e);
            flip = (\<lambda>e. let (keep, rng) = gen_bool g persistent_ratio (te_rng e) in (e\<lparr>te_rng := rng\<rparr>, keep))
        in case ticked of
             Some (lc, True) \<Rightarrow> (e\<lparr>te_lifecycle := Some (lifecycle_reset g lc)\<rparr>, False)
           | Some (lc, False) \<Rightarrow> flip (e\<lparr>te_lifecycle := Some lc\<rparr>)
           | None \<Rightarrow> flip e))"

definition mode_io :: "'s tcp_ops \<Rightarrow> 's PooledConnection \<Rightarrow> TcpRequestSpec \<Rightarrow> 's PooledConnection \<times> (ExecutionError + u64)" where
  "mode_io ops conn spec = (case tcp_mode spec of
     Echo \<Rightarrow> do_echo ops conn spec
   | RR \<Rightarrow> do_rr ops conn spec
   | Sink \<Rightarrow> do_sink ops conn spec
   | Source \<Rightarrow> do_source ops conn spec
   | Bidir \<Rightarrow> do_bidir ops conn spec
   | CRR \<Rightarrow> do_rr ops conn spec)"

text \<open>The header goes out once per connection; it is never asked of the echo mode, on which it would panic.\<close>

definition send_header :: "'s tcp_ops \<Rightarrow> 's PooledConnection \<Rightarrow> TcpRequestSpec \<Rightarrow> 's PooledConnection \<times> ExecutionError option" where
  "send_header ops conn spec =
     (if \<not> pcn_header_sent conn \<and> tcp_mode spec \<noteq> Echo
      then (case write_stream ops ''header write'' (the_or [] (encode_header spec)) conn of
          (c, Some e) \<Rightarrow> (c, Some e)
        | (c, None) \<Rightarrow> (c\<lparr>pcn_header_sent := True\<rparr>, None))
      else (conn, None))"

definition finish_request :: "'r rng_ops \<Rightarrow> TcpRequestSpec \<Rightarrow> 's PooledConnection \<Rightarrow> ('s, 'r) TcpExecutor \<Rightarrow> ('s, 'r) TcpExecutor" where
  "finish_request g spec conn e =
     (if tcp_mode spec \<noteq> CRR
      then (case should_keep_connection g e of
          (e', True) \<Rightarrow> e'\<lparr>te_pool := return_idle conn (te_pool e')\<rparr>
        | (e', False) \<Rightarrow> e'\<lparr>te_pool := record_dropped (te_pool e')\<rparr>)
      else e\<lparr>te_pool := record_dropped (te_pool e)\<rparr>)"

definition do_execute ::
  "'s tcp_ops \<Rightarrow> 'r rng_ops \<Rightarrow> (string \<Rightarrow> string + 's) \<Rightarrow> instant \<Rightarrow> TcpRequestSpec \<Rightarrow> ('s, 'r) TcpExecutor \<Rightarrow>
   ('s, 'r) TcpExecutor \<times> (ExecutionError + u64)" where
  "do_execute ops g connect now spec e = (case acquire_connection connect now (tcp_target spec) (te_pool e) of
     (pool, Inl err) \<Rightarrow> (e\<lparr>te_pool := pool\<rparr>, Inl err)
   | (pool, Inr conn) \<Rightarrow> (case send_header ops conn spec of
       (_, Some err) \<Rightarrow> (e\<lparr>te_pool := record_dropped pool\<rparr>, Inl err)
     | (conn1, None) \<Rightarrow> (case mode_io ops conn1 spec of
         (_, Inl err) \<Rightarrow> (e\<lparr>te_pool := record_dropped pool\<rparr>, Inl err)
       | (conn2, Inr response_size) \<Rightarrow>
           (finish_request g spec (conn2\<lparr>pcn_request_count := pcn_request_count conn2 + 1\<rparr>) (e\<lparr>te_pool := pool\<rparr>),
            Inr response_size))))"

record TcpResult =
  tre_bytes_sent :: u64
  tre_response_size :: u64
  tre_error :: "ExecutionError option"

text \<open>
  \<^verbatim>\<open>execute\<close>. When the timeout fires the future of \<^verbatim>\<open>do_execute\<close> is dropped at the await it is in; the first
  await comes after the synchronous part of \<^verbatim>\<open>acquire_connection\<close>, and no later step before the end
  touches the executor.
\<close>

definition execute_tcp ::
  "'s tcp_ops \<Rightarrow> 'r rng_ops \<Rightarrow> (string \<Rightarrow> string + 's) \<Rightarrow> instant \<Rightarrow> bool \<Rightarrow> TcpRequestSpec \<Rightarrow> ('s, 'r) TcpExecutor \<Rightarrow>
   ('s, 'r) TcpExecutor \<times> TcpResult" where
  "execute_tcp ops g connect now timed_out spec e =
     (let bytes_sent = (case tcp_mode spec of
            Echo \<Rightarrow> word_of_nat (length (tcp_payload spec))
          | RR \<Rightarrow> ucast (tcp_request_size spec)
          | CRR \<Rightarrow> ucast (tcp_request_size spec)
          | Sink \<Rightarrow> word_of_nat (length (tcp_payload spec))
          | Bidir \<Rightarrow> word_of_nat (length (tcp_payload spec))
          | Source \<Rightarrow> 0)
      in case acquire_begin (te_pool e) of
           (pool, Exhausted) \<Rightarrow> (e\<lparr>te_pool := pool\<rparr>,
             \<lparr>tre_bytes_sent = 0, tre_response_size = 0, tre_error = Some (EE_Connect ''connection pool exhausted'')\<rparr>)
         | (pool, _) \<Rightarrow>
             if timed_out then (e\<lparr>te_pool := pool\<rparr>, \<lparr>tre_bytes_sent = 0, tre_response_size = 0, tre_error = Some EE_Timeout\<rparr>)
             else (case do_execute ops g connect now spec e of
                 (e', Inl err) \<Rightarrow> (e', \<lparr>tre_bytes_sent = 0, tre_response_size = 0, tre_error = Some err\<rparr>)
               | (e', Inr response_size) \<Rightarrow>
                   (e', \<lparr>tre_bytes_sent = bytes_sent, tre_response_size = response_size, tre_error = None\<rparr>)))"

section \<open>Runs of the pool\<close>

text \<open>
  The executor serves many requests at once on one core; a run interleaves their synchronous sections. The
  state is the pool and the number of requests that hold a connection.
\<close>

inductive pool_step :: "'s ConnectionPool \<times> nat \<Rightarrow> 's ConnectionPool \<times> nat \<Rightarrow> bool" where
  acquire: "\<lbrakk>acquire_begin p = (p', a); a \<noteq> Exhausted\<rbrakk> \<Longrightarrow> pool_step (p, n) (p', n + 1)"
| reject: "acquire_begin p = (p', Exhausted) \<Longrightarrow> pool_step (p, n) (p', n)"
| keep: "pool_step (p, n + 1) (return_idle conn p, n)"
| drop: "pool_step (p, n + 1) (record_dropped p, n)"
| timeout: "pool_step (p, n + 1) (p, n)"

definition pool_ok :: "'s ConnectionPool \<times> nat \<Rightarrow> bool" where
  "pool_ok = (\<lambda>(p, n). n \<le> cp_active p \<and>
     (cp_max_connections p = 0 \<or> cp_active p + length (cp_idle p) \<le> cp_max_connections p))"

lemmas pool_defs = acquire_begin_def take_idle_def can_open_new_def record_opened_def return_idle_def record_dropped_def

lemma pool_step_ok: "pool_step a b \<Longrightarrow> pool_ok a \<Longrightarrow> pool_ok b"
  by (induction rule: pool_step.induct)
    (auto simp: pool_ok_def pool_defs split: list.splits if_splits)

lemma pool_step_max: "pool_step a b \<Longrightarrow> cp_max_connections (fst b) = cp_max_connections (fst a)"
  by (induction rule: pool_step.induct) (auto simp: pool_defs split: list.splits if_splits)

lemma pool_run_ok: "pool_step\<^sup>*\<^sup>* a b \<Longrightarrow> pool_ok a \<Longrightarrow> pool_ok b \<and> cp_max_connections (fst b) = cp_max_connections (fst a)"
  by (induction rule: rtranclp_induct) (auto dest: pool_step_ok pool_step_max)

text \<open>Every execution of a request is such a run.\<close>

lemma should_keep_pool [simp]: "te_pool (fst (should_keep_connection g e)) = te_pool e"
  by (simp add: should_keep_connection_def Let_def split: ConnectionPolicy.split option.split prod.split bool.split)

lemma finish_request_pool:
  "te_pool (finish_request g spec conn e) \<in> {return_idle conn (te_pool e), record_dropped (te_pool e)}"
  using should_keep_pool[of g e] by (cases "should_keep_connection g e") (auto simp: finish_request_def split: bool.splits)

lemma acquire_release:
  assumes "acquire_begin p = (p', a)" "a \<noteq> Exhausted" "q \<in> {return_idle conn p', record_dropped p'}"
  shows "pool_step\<^sup>*\<^sup>* (p, n) (q, n)"
proof -
  have "pool_step (p, n) (p', n + 1)" using assms(1,2) by (rule pool_step.acquire)
  moreover have "pool_step (p', n + 1) (q, n)" using assms(3) pool_step.keep pool_step.drop by blast
  ultimately show ?thesis by (meson converse_rtranclp_into_rtranclp r_into_rtranclp)
qed

lemma do_execute_run: "pool_step\<^sup>*\<^sup>* (te_pool e, n) (te_pool (fst (do_execute ops g connect now spec e)), n)"
proof -
  obtain p a where b: "acquire_begin (te_pool e) = (p, a)" by fastforce
  show ?thesis
  proof (cases "a = Exhausted")
    case True
    then have "pool_step (te_pool e, n) (p, n)" using b pool_step.reject by blast
    then show ?thesis using b True by (simp add: do_execute_def acquire_connection_def r_into_rtranclp)
  next
    case False
    have "\<exists>conn. te_pool (fst (do_execute ops g connect now spec e)) \<in> {return_idle conn p, record_dropped p}"
      using b False finish_request_pool[of g spec _ "e\<lparr>te_pool := p\<rparr>"]
      by (fastforce simp: do_execute_def acquire_connection_def split: Acquired.splits sum.splits prod.splits option.splits)
    then show ?thesis using acquire_release[OF b False] by blast
  qed
qed


lemma execute_tcp_run: "pool_step\<^sup>*\<^sup>* (te_pool e, n) (te_pool (fst (execute_tcp ops g connect now timed_out spec e)), n)"
proof -
  obtain p a where b: "acquire_begin (te_pool e) = (p, a)" by fastforce
  have to: "pool_step\<^sup>*\<^sup>* (te_pool e, n) (p, n)"
  proof (cases "a = Exhausted")
    case False
    then have "pool_step (te_pool e, n) (p, n + 1)" "pool_step (p, n + 1) (p, n)"
      using b pool_step.acquire pool_step.timeout by blast+
    then show ?thesis by (meson converse_rtranclp_into_rtranclp r_into_rtranclp)
  qed (use b in \<open>auto intro: pool_step.reject\<close>)
  have "te_pool (fst (execute_tcp ops g connect now timed_out spec e)) \<in> {p, te_pool (fst (do_execute ops g connect now spec e))}"
    using b by (cases a) (auto simp: execute_tcp_def Let_def split: sum.splits prod.splits)
  then show ?thesis using to do_execute_run[of e n ops g connect now spec] by auto
qed

text \<open>A pool whose slots have all leaked stays exhausted.\<close>

definition leaked :: "'s ConnectionPool \<Rightarrow> bool" where
  "leaked p \<longleftrightarrow> cp_idle p = [] \<and> 0 < cp_max_connections p \<and> cp_active p = cp_max_connections p"

lemma leaked_exhausted: "leaked p \<Longrightarrow> acquire_begin p = (p, Exhausted)"
  by (simp add: leaked_def pool_defs)

lemma timeouts_leak:
  assumes "cp_idle (te_pool e) = []" "cp_active (te_pool e) + k \<le> cp_max_connections (te_pool e)"
  shows "((\<lambda>e. fst (execute_tcp ops g connect now True spec e)) ^^ k) e =
    e\<lparr>te_pool := (te_pool e)\<lparr>cp_active := cp_active (te_pool e) + k\<rparr>\<rparr>"
  using assms(2)
proof (induction k)
  case (Suc k)
  then show ?case using assms(1) by (simp add: execute_tcp_def pool_defs Let_def)
qed simp

text \<open>The decisions after \<open>n\<close> successive requests on one connection.\<close>

fun keep_decisions :: "'r rng_ops \<Rightarrow> nat \<Rightarrow> ('s, 'r) TcpExecutor \<Rightarrow> bool list" where
  "keep_decisions g 0 e = []"
| "keep_decisions g (Suc n) e = (let (e', keep) = should_keep_connection g e in keep # keep_decisions g n e')"

lemma keep_decisions_counter:
  assumes "te_policy e = Mixed ratio lifetime" "te_lifecycle e = Some lc" "\<forall>r. fst (gen_bool g ratio r)"
    "unat (lc_count lc) + n = unat (lc_limit lc)" "unat (lc_limit lc) + 1 < 2 ^ 32"
  shows "keep_decisions g (Suc n) e = replicate n True @ [False]"
  using assms
proof (induction n arbitrary: e lc)
  case 0
  have "lc_count lc + 1 > lc_limit lc" using "0.prems"(4,5) by (simp add: word_less_nat_alt unat_word_ariths)
  then show ?case using "0.prems" by (simp add: should_keep_connection_def lifecycle_tick_def Let_def)
next
  case (Suc n)
  define lc' where "lc' = lc\<lparr>lc_count := lc_count lc + 1\<rparr>"
  have c: "unat (lc_count lc') = unat (lc_count lc) + 1" "\<not> lc_count lc + 1 > lc_limit lc"
    using Suc.prems(4,5) by (simp_all add: lc'_def word_less_nat_alt unat_word_ariths)
  obtain keep rng where r: "gen_bool g ratio (te_rng e) = (keep, rng)" by fastforce
  then have "keep" using Suc.prems(3) by (metis fst_conv)
  then have "should_keep_connection g e = (e\<lparr>te_lifecycle := Some lc', te_rng := rng\<rparr>, True)"
    using Suc.prems(1,2) r c(2) by (simp add: should_keep_connection_def lifecycle_tick_def Let_def lc'_def)
  moreover have "keep_decisions g (Suc n) (e\<lparr>te_lifecycle := Some lc', te_rng := rng\<rparr>) = replicate n True @ [False]"
    using Suc.prems c(1) by (intro Suc.IH[of _ lc']) (simp_all add: lc'_def)
  ultimately show ?case by (subst keep_decisions.simps) (simp del: keep_decisions.simps)
qed

section \<open>Properties\<close>

text \<open>
  C27. The pool keeps its limit: however the synchronous sections of concurrent requests interleave, with
  requests that are rejected, return their connection, drop it or time out, the connections in use and
  idle together never exceed a positive limit.
\<close>

theorem pool_limit_kept:
  assumes "pool_step\<^sup>*\<^sup>* (ConnectionPool_new limit, 0) (p, n)" "0 < limit"
  shows "cp_active p + length (cp_idle p) \<le> limit \<and> n \<le> cp_active p"
proof -
  have "pool_ok (ConnectionPool_new limit, 0)" by (simp add: pool_ok_def ConnectionPool_new_def)
  from pool_run_ok[OF assms(1) this] have "pool_ok (p, n)" "cp_max_connections p = limit"
    by (simp_all add: ConnectionPool_new_def)
  then show ?thesis using assms(2) by (simp add: pool_ok_def)
qed

theorem pool_limit_kept_witness:
  "cp_active (record_opened (ConnectionPool_new 3 :: bytes ConnectionPool)) + length (cp_idle (record_opened (ConnectionPool_new 3 :: bytes ConnectionPool))) \<le> 3
    \<and> 1 \<le> cp_active (record_opened (ConnectionPool_new 3 :: bytes ConnectionPool))"
proof -
  have "acquire_begin (ConnectionPool_new 3 :: bytes ConnectionPool) = (record_opened (ConnectionPool_new 3), Opening)"
    by (simp add: pool_defs ConnectionPool_new_def)
  then have "pool_step (ConnectionPool_new 3 :: bytes ConnectionPool, 0) (record_opened (ConnectionPool_new 3), 0 + 1)"
    by (rule pool_step.acquire) simp
  then have "pool_step\<^sup>*\<^sup>* (ConnectionPool_new 3 :: bytes ConnectionPool, 0) (record_opened (ConnectionPool_new 3), 1)" by simp
  from pool_limit_kept[OF this] show ?thesis by simp
qed

text \<open>
  C28. Requests that time out leak their slot: after as many timeouts as the pool has slots, no connection is in
  use and none is idle, yet every further request fails with an exhausted pool, and leaves it so.
\<close>

theorem timeouts_exhaust_pool:
  fixes e :: "('s, 'r) TcpExecutor"
  assumes "te_pool e = ConnectionPool_new limit" "0 < limit"
  shows "\<exists>e'. ((\<lambda>e. fst (execute_tcp ops g connect now True spec e)) ^^ limit) e = e'
    \<and> (\<forall>ops' g' connect' now' timed_out spec'. execute_tcp ops' g' connect' now' timed_out spec' e' =
        (e', \<lparr>tre_bytes_sent = 0, tre_response_size = 0, tre_error = Some (EE_Connect ''connection pool exhausted'')\<rparr>))"
proof -
  define e' where "e' = e\<lparr>te_pool := (te_pool e)\<lparr>cp_active := limit\<rparr>\<rparr>"
  have "((\<lambda>e. fst (execute_tcp ops g connect now True spec e)) ^^ limit) e = e'"
    using timeouts_leak[of e limit ops g connect now spec] assms(1) by (simp add: e'_def ConnectionPool_new_def)
  moreover have "acquire_begin (te_pool e') = (te_pool e', Exhausted)"
    using assms by (intro leaked_exhausted) (simp add: leaked_def e'_def ConnectionPool_new_def)
  ultimately show ?thesis by (auto simp: execute_tcp_def Let_def)
qed

definition demo_tcp_ops :: "bytes tcp_ops" where
  "demo_tcp_ops = stream_ops.extend list_stream \<lparr>so_write_all = \<lambda>data s. (s, None)\<rparr>"

definition demo_rng :: "nat rng_ops" where
  "demo_rng = \<lparr>sample_u32 = \<lambda>r. (2, r + 1), gen_bool = \<lambda>p r. (True, r + 1)\<rparr>"

theorem timeouts_exhaust_pool_witness:
  "snd (execute_tcp demo_tcp_ops demo_rng (\<lambda>_. Inr []) 5 False demo_tcp_spec
     (((\<lambda>e. fst (execute_tcp demo_tcp_ops demo_rng (\<lambda>_. Inr []) 0 True demo_tcp_spec e)) ^^ 2)
        (TcpExecutor_with_pool demo_rng 0 0 2 KeepAlive))) =
   \<lparr>tre_bytes_sent = 0, tre_response_size = 0, tre_error = Some (EE_Connect ''connection pool exhausted'')\<rparr>"
proof -
  have "te_pool (TcpExecutor_with_pool demo_rng 0 0 2 KeepAlive :: (bytes, nat) TcpExecutor) = ConnectionPool_new 2"
    by (simp add: TcpExecutor_with_pool_def)
  from timeouts_exhaust_pool[OF this, of demo_tcp_ops demo_rng "\<lambda>_. Inr []" 0 demo_tcp_spec] obtain e' where
    "((\<lambda>e. fst (execute_tcp demo_tcp_ops demo_rng (\<lambda>_. Inr []) 0 True demo_tcp_spec e)) ^^ 2) (TcpExecutor_with_pool demo_rng 0 0 2 KeepAlive) = e'"
    "\<And>ops' g' connect' now' timed_out spec'. execute_tcp ops' g' connect' now' timed_out spec' e' =
        (e', \<lparr>tre_bytes_sent = 0, tre_response_size = 0, tre_error = Some (EE_Connect ''connection pool exhausted'')\<rparr>)"
    by auto
  then show ?thesis by (simp only: snd_conv)
qed

text \<open>
  A lifetime of \<open>n\<close> requests gives connections that live for \<open>n + 1\<close>: with the mixed policy, a persistent
  ratio that always keeps and a sampled limit of \<open>n\<close>, the decision after each of the first \<open>n\<close> requests
  is to keep the connection, and only the decision after request \<open>n + 1\<close> closes it.
\<close>

theorem connection_lives_one_too_long:
  assumes "te_policy e = Mixed ratio lifetime" "te_lifecycle e = Some lc" "lc_count lc = 0"
    "\<forall>r. fst (gen_bool g ratio r)" "unat (lc_limit lc) + 1 < 2 ^ 32"
  shows "keep_decisions g (unat (lc_limit lc) + 1) e = replicate (unat (lc_limit lc)) True @ [False]"
  using keep_decisions_counter[OF assms(1,2,4), of "unat (lc_limit lc)"] assms(3,5)
  by (simp del: keep_decisions.simps)

theorem connection_lives_one_too_long_witness:
  "keep_decisions demo_rng (2 + 1) (TcpExecutor_with_pool demo_rng 0 0 8 (Mixed (lit 1) True) :: (bytes, nat) TcpExecutor)
    = replicate 2 True @ [False]"
proof -
  have lc: "LifecycleCounter_new demo_rng 0 = \<lparr>lc_count = 0, lc_limit = 2, lc_rng = 1\<rparr>"
    by (simp add: LifecycleCounter_new_def demo_rng_def)
  show ?thesis
    using connection_lives_one_too_long[of "TcpExecutor_with_pool demo_rng 0 0 8 (Mixed (lit 1) True) :: (bytes, nat) TcpExecutor"
      "lit 1" True "LifecycleCounter_new demo_rng 0" demo_rng]
    by (simp add: TcpExecutor_with_pool_def lc) (simp add: demo_rng_def)
qed

end
