(* ===== verification/Metrics.thy ===== *)
theory Metrics
  imports Tcp_Client Rate_Types
begin

text \<open>
  Metrics from a completed request to the summary the rate controller reads: the per-core collector
  (\<^verbatim>\<open>netanvil-metrics/src/collector.rs\<close>), the snapshots it hands out, and the aggregate of the coordinator
  (\<^verbatim>\<open>aggregate.rs\<close>). The HDR histogram and the MD5 digest are parameters. Counters are 64-bit words and wrap.
\<close>

section \<open>Results and snapshots (\<^verbatim>\<open>request.rs\<close>, \<^verbatim>\<open>metrics.rs\<close>)\<close>

text \<open>Of the timing breakdown only the total is read.\<close>

record ExecutionResult =
  er_request_id :: u64
  er_intended_time :: instant
  er_sent_time :: instant
  er_actual_time :: instant
  er_dispatch_time :: instant
  er_timing_total :: duration
  er_status :: "u16 option"
  er_bytes_sent :: u64
  er_response_size :: u64
  er_error :: "ExecutionError option"
  er_response_headers :: "(string \<times> string) list option"
  er_response_body :: "bytes option"

record ResponseSignalAccumulator =
  rsa_sum :: f64
  rsa_count :: u64
  rsa_max :: f64
  rsa_last :: f64

definition ResponseSignalAccumulator_default :: ResponseSignalAccumulator where
  "ResponseSignalAccumulator_default = \<lparr>rsa_sum = 0, rsa_count = 0, rsa_max = 0, rsa_last = 0\<rparr>"

datatype SignalAggregation = SA_Mean | SA_Max | SA_Last

record ResponseSignalConfig =
  rsc_header :: string
  rsc_signal_name :: "string option"
  rsc_aggregation :: SignalAggregation

definition signal_name :: "ResponseSignalConfig \<Rightarrow> string" where
  "signal_name cfg = the_or (rsc_header cfg) (rsc_signal_name cfg)"

text \<open>The HDR histogram is a third-party crate; recording a value out of its range is ignored.\<close>

record 'h hist_ops =
  hist_new :: "u64 \<Rightarrow> u64 \<Rightarrow> 'h"
  hist_record :: "u64 \<Rightarrow> 'h \<Rightarrow> 'h"
  hist_add :: "'h \<Rightarrow> 'h \<Rightarrow> 'h"
  hist_reset :: "'h \<Rightarrow> 'h"
  hist_value_at_quantile :: "f64 \<Rightarrow> 'h \<Rightarrow> u64"
  hist_count_between :: "u64 \<Rightarrow> u64 \<Rightarrow> 'h \<Rightarrow> u64"
  hist_len :: "'h \<Rightarrow> u64"
  hist_max :: "'h \<Rightarrow> u64"

record 'h MetricsSnapshot =
  sn_latency_histogram :: 'h
  sn_total_requests :: u64
  sn_total_errors :: u64
  sn_bytes_sent :: u64
  sn_bytes_received :: u64
  sn_window_start :: instant
  sn_window_end :: instant
  sn_timer_lag_sum_ns :: u64
  sn_timer_lag_max_ns :: u64
  sn_channel_transit_sum_ns :: u64
  sn_channel_transit_max_ns :: u64
  sn_dispatch_gap_sum_ns :: u64
  sn_dispatch_gap_max_ns :: u64
  sn_total_delay_sum_ns :: u64
  sn_total_delay_max_ns :: u64
  sn_total_delay_count_over_1ms :: u64
  sn_header_value_counts :: "string \<rightharpoonup> (string \<rightharpoonup> u64)"
  sn_response_size_histogram :: 'h
  sn_md5_mismatches :: u64
  sn_response_signals :: "string \<rightharpoonup> ResponseSignalAccumulator"
  sn_cpu_affinity :: "u64 \<times> u64 \<times> u64"
  sn_tcp_health :: TcpHealth
  sn_packets :: PacketCounterDeltas
  sn_timeout_count :: u64
  sn_in_flight_drops :: u64
  sn_in_flight_count :: u64
  sn_in_flight_capacity :: u64

section \<open>\<^verbatim>\<open>HdrMetricsCollector\<close> (\<^verbatim>\<open>collector.rs\<close>)\<close>

record 'h HdrMetricsCollector =
  mc_histogram :: 'h
  mc_size_histogram :: 'h
  mc_total_requests :: u64
  mc_total_errors :: u64
  mc_bytes_sent :: u64
  mc_bytes_received :: u64
  mc_window_start :: instant
  mc_error_status_threshold :: u16
  mc_timer_lag_sum_ns :: u64
  mc_timer_lag_max_ns :: u64
  mc_channel_transit_sum_ns :: u64
  mc_channel_transit_max_ns :: u64
  mc_dispatch_gap_sum_ns :: u64
  mc_dispatch_gap_max_ns :: u64
  mc_total_delay_sum_ns :: u64
  mc_total_delay_max_ns :: u64
  mc_total_delay_count_over_1ms :: u64
  mc_tracked_headers :: "string list"
  mc_header_counts :: "string \<rightharpoonup> (string \<rightharpoonup> u64)"
  mc_md5_check_enabled :: bool
  mc_md5_mismatches :: u64
  mc_response_signal_configs :: "ResponseSignalConfig list"
  mc_response_signals :: "string \<rightharpoonup> ResponseSignalAccumulator"
  mc_affinity_counters :: "CpuAffinityCounters option"
  mc_tcp_health_counters :: "TcpHealth option"
  mc_timeout_count :: u64

definition with_packet_source ::
  "'h hist_ops \<Rightarrow> instant \<Rightarrow> u16 \<Rightarrow> string list \<Rightarrow> bool \<Rightarrow> ResponseSignalConfig list \<Rightarrow> 'h HdrMetricsCollector" where
  "with_packet_source H now error_status_threshold tracked_headers md5_check_enabled configs = \<lparr>
     mc_histogram = hist_new H 1 60000000000, mc_size_histogram = hist_new H 1 1073741824,
     mc_total_requests = 0, mc_total_errors = 0, mc_bytes_sent = 0, mc_bytes_received = 0,
     mc_window_start = now, mc_error_status_threshold = error_status_threshold,
     mc_timer_lag_sum_ns = 0, mc_timer_lag_max_ns = 0, mc_channel_transit_sum_ns = 0, mc_channel_transit_max_ns = 0,
     mc_dispatch_gap_sum_ns = 0, mc_dispatch_gap_max_ns = 0, mc_total_delay_sum_ns = 0, mc_total_delay_max_ns = 0,
     mc_total_delay_count_over_1ms = 0, mc_tracked_headers = tracked_headers, mc_header_counts = Map.empty,
     mc_md5_check_enabled = md5_check_enabled, mc_md5_mismatches = 0, mc_response_signal_configs = configs,
     mc_response_signals = Map.empty, mc_affinity_counters = None, mc_tcp_health_counters = None, mc_timeout_count = 0\<rparr>"

text \<open>\<^verbatim>\<open>to_lowercase\<close> and \<^verbatim>\<open>eq_ignore_ascii_case\<close> on header names, which are ASCII.\<close>

definition lower_char :: "char \<Rightarrow> char" where
  "lower_char c = (let n = of_char c :: nat in if 65 \<le> n \<and> n \<le> 90 then char_of (n + 32) else c)"

definition to_lowercase :: "string \<Rightarrow> string" where
  "to_lowercase s = map lower_char s"

text \<open>\<^verbatim>\<open>str::parse::<f64>\<close>: the decimal grammar of the standard library, rounded once.\<close>

definition is_digit :: "char \<Rightarrow> bool" where
  "is_digit c \<longleftrightarrow> 48 \<le> (of_char c :: nat) \<and> (of_char c :: nat) \<le> 57"

definition digits_value :: "string \<Rightarrow> nat" where
  "digits_value ds = foldl (\<lambda>v c. v * 10 + (of_char c - 48)) 0 ds"

fun parse_sign :: "string \<Rightarrow> bool \<times> string" where
  "parse_sign (c # cs) = (if c = CHR ''-'' then (True, cs) else if c = CHR ''+'' then (False, cs) else (False, c # cs))"
| "parse_sign [] = (False, [])"

definition parse_exponent :: "string \<Rightarrow> int option" where
  "parse_exponent s = (case s of
     [] \<Rightarrow> Some 0
   | c # cs \<Rightarrow> if lower_char c = CHR ''e'' then
       (let (neg, ds) = parse_sign cs in
        if ds \<noteq> [] \<and> list_all is_digit ds then Some (if neg then - int (digits_value ds) else int (digits_value ds)) else None)
     else None)"

definition parse_decimal :: "string \<Rightarrow> rat option" where
  "parse_decimal s =
     (let ip = takeWhile is_digit s; r = dropWhile is_digit s;
          (fp, r') = (case r of [] \<Rightarrow> ([], []) | c # cs \<Rightarrow> if c = CHR ''.'' then (takeWhile is_digit cs, dropWhile is_digit cs) else ([], r))
      in if ip = [] \<and> fp = [] then None
         else map_option (\<lambda>e. of_nat (digits_value (ip @ fp)) * 10 powi (e - int (length fp))) (parse_exponent r'))"

definition parse_f64 :: "string \<Rightarrow> f64 option" where
  "parse_f64 s = (let (neg, r) = parse_sign s; l = to_lowercase r in
     if l = ''inf'' \<or> l = ''infinity'' then Some (if neg then f64_neg_infinity else f64_infinity)
     else if l = ''nan'' then Some f64_nan
     else map_option (\<lambda>q. lit (if neg then - q else q)) (parse_decimal r))"

section \<open>\<^verbatim>\<open>record\<close>\<close>

definition bump :: "string \<Rightarrow> (string \<rightharpoonup> u64) \<Rightarrow> (string \<rightharpoonup> u64)" where
  "bump v m = m(v \<mapsto> the_or 0 (m v) + 1)"

definition track_headers :: "string list \<Rightarrow> (string \<times> string) list \<Rightarrow> (string \<rightharpoonup> (string \<rightharpoonup> u64)) \<Rightarrow> (string \<rightharpoonup> (string \<rightharpoonup> u64))" where
  "track_headers tracked headers counts =
     fold (\<lambda>t. fold (\<lambda>(name, v) m. if to_lowercase name = to_lowercase t then m(t \<mapsto> bump v (the_or Map.empty (m t))) else m) headers)
       tracked counts"

definition accumulate :: "f64 \<Rightarrow> ResponseSignalAccumulator \<Rightarrow> ResponseSignalAccumulator" where
  "accumulate v acc = acc\<lparr>rsa_sum := rsa_sum acc + v, rsa_count := rsa_count acc + 1,
     rsa_max := (if v > rsa_max acc then v else rsa_max acc), rsa_last := v\<rparr>"

definition extract_signals ::
  "ResponseSignalConfig list \<Rightarrow> (string \<times> string) list \<Rightarrow> (string \<rightharpoonup> ResponseSignalAccumulator) \<Rightarrow> (string \<rightharpoonup> ResponseSignalAccumulator)" where
  "extract_signals configs headers accs =
     fold (\<lambda>cfg. fold (\<lambda>(name, v) m. if to_lowercase name = to_lowercase (rsc_header cfg)
         then (case parse_f64 v of None \<Rightarrow> m
               | Some x \<Rightarrow> m(signal_name cfg \<mapsto> accumulate x (the_or ResponseSignalAccumulator_default (m (signal_name cfg)))))
         else m) headers) configs accs"

text \<open>The MD5 digest in hexadecimal is third-party.\<close>

definition md5_mismatch :: "(bytes \<Rightarrow> string) \<Rightarrow> bool \<Rightarrow> ExecutionResult \<Rightarrow> bool" where
  "md5_mismatch md5_hex enabled r = (enabled \<and> (case er_response_body r of None \<Rightarrow> False | Some body \<Rightarrow>
     (case er_response_headers r of None \<Rightarrow> False | Some headers \<Rightarrow>
       (case find (\<lambda>(k, _). to_lowercase k = ''content-md5'') headers of None \<Rightarrow> False | Some (_, expected) \<Rightarrow>
         to_lowercase (md5_hex body) \<noteq> to_lowercase expected))))"

definition is_timeout :: "ExecutionResult \<Rightarrow> bool" where
  "is_timeout r \<longleftrightarrow> er_error r = Some EE_Timeout"

definition is_error :: "u16 \<Rightarrow> ExecutionResult \<Rightarrow> bool" where
  "is_error threshold r \<longleftrightarrow> er_error r \<noteq> None \<or>
     (threshold > 0 \<and> (case er_status r of None \<Rightarrow> False | Some s \<Rightarrow> s \<ge> threshold))"

definition ns :: "instant \<Rightarrow> instant \<Rightarrow> u64" where
  "ns later earlier = word_of_nat (duration_since later earlier)"

definition latency_ns :: "ExecutionResult \<Rightarrow> u64" where
  "latency_ns r = word_of_nat (er_timing_total r)"

definition total_delay_ns :: "ExecutionResult \<Rightarrow> u64" where
  "total_delay_ns r = ns (er_dispatch_time r) (er_intended_time r)"

definition record_latency :: "'h hist_ops \<Rightarrow> ExecutionResult \<Rightarrow> 'h \<Rightarrow> 'h" where
  "record_latency H r h =
     (let h1 = hist_record H (max (latency_ns r) 1) h
      in if total_delay_ns r > 100000 then hist_record H (max (latency_ns r + total_delay_ns r) 1) h1 else h1)"

definition collector_record :: "'h hist_ops \<Rightarrow> (bytes \<Rightarrow> string) \<Rightarrow> ExecutionResult \<Rightarrow> 'h HdrMetricsCollector \<Rightarrow> 'h HdrMetricsCollector" where
  "collector_record H md5_hex r c =
     (if is_timeout r then
        c\<lparr>mc_total_requests := mc_total_requests c + 1, mc_timeout_count := mc_timeout_count c + 1,
          mc_total_errors := mc_total_errors c + 1, mc_bytes_sent := mc_bytes_sent c + er_bytes_sent r\<rparr>
      else
        let timer_lag = ns (er_sent_time r) (er_intended_time r);
            channel_transit = ns (er_actual_time r) (er_sent_time r);
            dispatch_gap = ns (er_dispatch_time r) (er_actual_time r);
            total_delay = total_delay_ns r
        in c\<lparr>mc_total_requests := mc_total_requests c + 1,
          mc_total_errors := mc_total_errors c + (if is_error (mc_error_status_threshold c) r then 1 else 0),
          mc_bytes_sent := mc_bytes_sent c + er_bytes_sent r,
          mc_bytes_received := mc_bytes_received c + er_response_size r,
          mc_histogram := record_latency H r (mc_histogram c),
          mc_timer_lag_sum_ns := mc_timer_lag_sum_ns c + timer_lag,
          mc_timer_lag_max_ns := (if timer_lag > mc_timer_lag_max_ns c then timer_lag else mc_timer_lag_max_ns c),
          mc_channel_transit_sum_ns := mc_channel_transit_sum_ns c + channel_transit,
          mc_channel_transit_max_ns := (if channel_transit > mc_channel_transit_max_ns c then channel_transit else mc_channel_transit_max_ns c),
          mc_dispatch_gap_sum_ns := mc_dispatch_gap_sum_ns c + dispatch_gap,
          mc_dispatch_gap_max_ns := (if dispatch_gap > mc_dispatch_gap_max_ns c then dispatch_gap else mc_dispatch_gap_max_ns c),
          mc_total_delay_sum_ns := mc_total_delay_sum_ns c + total_delay,
          mc_total_delay_max_ns := (if total_delay > mc_total_delay_max_ns c then total_delay else mc_total_delay_max_ns c),
          mc_total_delay_count_over_1ms := mc_total_delay_count_over_1ms c + (if total_delay > 1000000 then 1 else 0),
          mc_size_histogram := (if er_response_size r > 0 then hist_record H (max (er_response_size r) 1) (mc_size_histogram c) else mc_size_histogram c),
          mc_header_counts := (case er_response_headers r of None \<Rightarrow> mc_header_counts c
            | Some hs \<Rightarrow> track_headers (mc_tracked_headers c) hs (mc_header_counts c)),
          mc_response_signals := (case er_response_headers r of None \<Rightarrow> mc_response_signals c
            | Some hs \<Rightarrow> extract_signals (mc_response_signal_configs c) hs (mc_response_signals c)),
          mc_md5_mismatches := mc_md5_mismatches c + (if md5_mismatch md5_hex (mc_md5_check_enabled c) r then 1 else 0)\<rparr>)"

section \<open>\<^verbatim>\<open>snapshot\<close>\<close>

text \<open>\<open>pkt\<close> is what the protocol's packet source returns.\<close>

definition collector_snapshot ::
  "'h hist_ops \<Rightarrow> instant \<Rightarrow> PacketCounterDeltas \<Rightarrow> 'h HdrMetricsCollector \<Rightarrow> 'h HdrMetricsCollector \<times> 'h MetricsSnapshot" where
  "collector_snapshot H now pkt c =
     (let snap = \<lparr>
        sn_latency_histogram = mc_histogram c, sn_total_requests = mc_total_requests c, sn_total_errors = mc_total_errors c,
        sn_bytes_sent = mc_bytes_sent c, sn_bytes_received = mc_bytes_received c,
        sn_window_start = mc_window_start c, sn_window_end = now,
        sn_timer_lag_sum_ns = mc_timer_lag_sum_ns c, sn_timer_lag_max_ns = mc_timer_lag_max_ns c,
        sn_channel_transit_sum_ns = mc_channel_transit_sum_ns c, sn_channel_transit_max_ns = mc_channel_transit_max_ns c,
        sn_dispatch_gap_sum_ns = mc_dispatch_gap_sum_ns c, sn_dispatch_gap_max_ns = mc_dispatch_gap_max_ns c,
        sn_total_delay_sum_ns = mc_total_delay_sum_ns c, sn_total_delay_max_ns = mc_total_delay_max_ns c,
        sn_total_delay_count_over_1ms = mc_total_delay_count_over_1ms c,
        sn_header_value_counts = mc_header_counts c, sn_response_size_histogram = mc_size_histogram c,
        sn_md5_mismatches = mc_md5_mismatches c, sn_response_signals = mc_response_signals c,
        sn_cpu_affinity = (case mc_affinity_counters c of None \<Rightarrow> (0, 0, 0) | Some a \<Rightarrow> snd (CpuAffinityCounters_drain a)),
        sn_tcp_health = (case mc_tcp_health_counters c of None \<Rightarrow> TcpHealthCounters_new | Some t \<Rightarrow> snd (TcpHealthCounters_drain t)),
        sn_packets = pkt, sn_timeout_count = mc_timeout_count c,
        sn_in_flight_drops = 0, sn_in_flight_count = 0, sn_in_flight_capacity = 0\<rparr>
      in (c\<lparr>mc_histogram := hist_reset H (mc_histogram c), mc_size_histogram := hist_reset H (mc_size_histogram c),
          mc_total_requests := 0, mc_total_errors := 0, mc_bytes_sent := 0, mc_bytes_received := 0, mc_window_start := now,
          mc_timer_lag_sum_ns := 0, mc_timer_lag_max_ns := 0, mc_channel_transit_sum_ns := 0, mc_channel_transit_max_ns := 0,
          mc_dispatch_gap_sum_ns := 0, mc_dispatch_gap_max_ns := 0, mc_total_delay_sum_ns := 0, mc_total_delay_max_ns := 0,
          mc_total_delay_count_over_1ms := 0, mc_header_counts := Map.empty, mc_md5_mismatches := 0,
          mc_response_signals := Map.empty,
          mc_affinity_counters := map_option (fst \<circ> CpuAffinityCounters_drain) (mc_affinity_counters c),
          mc_tcp_health_counters := map_option (fst \<circ> TcpHealthCounters_drain) (mc_tcp_health_counters c),
          mc_timeout_count := 0\<rparr>, snap))"

section \<open>\<^verbatim>\<open>AggregateMetrics\<close> (\<^verbatim>\<open>aggregate.rs\<close>)\<close>

record 'h AggregateMetrics =
  ag_histogram :: 'h
  ag_size_histogram :: 'h
  ag_total_requests :: u64
  ag_total_errors :: u64
  ag_bytes_sent :: u64
  ag_bytes_received :: u64
  ag_window_start :: "instant option"
  ag_window_end :: "instant option"
  ag_source_count :: nat
  ag_timer_lag_sum_ns :: u64
  ag_timer_lag_max_ns :: u64
  ag_channel_transit_sum_ns :: u64
  ag_channel_transit_max_ns :: u64
  ag_dispatch_gap_sum_ns :: u64
  ag_dispatch_gap_max_ns :: u64
  ag_total_delay_sum_ns :: u64
  ag_total_delay_max_ns :: u64
  ag_total_delay_count_over_1ms :: u64
  ag_header_value_counts :: "string \<rightharpoonup> (string \<rightharpoonup> u64)"
  ag_md5_mismatches :: u64
  ag_response_signals :: "string \<rightharpoonup> ResponseSignalAccumulator"
  ag_signal_configs :: "ResponseSignalConfig list"
  ag_cpu_affinity_hits :: u64
  ag_cpu_affinity_misses :: u64
  ag_cpu_affinity_unknown :: u64
  ag_tcp_rtt_sum_us :: u64
  ag_tcp_rtt_count :: u64
  ag_tcp_rtt_max_us :: u64
  ag_tcp_retransmits :: u64
  ag_tcp_lost :: u64
  ag_packets_sent :: u64
  ag_packets_received :: u64
  ag_packets_lost :: u64
  ag_timeout_count :: u64
  ag_in_flight_drops :: u64
  ag_in_flight_count :: u64
  ag_in_flight_capacity :: u64

definition AggregateMetrics_new :: "'h hist_ops \<Rightarrow> 'h AggregateMetrics" where
  "AggregateMetrics_new H = \<lparr>
     ag_histogram = hist_new H 1 60000000000, ag_size_histogram = hist_new H 1 1073741824,
     ag_total_requests = 0, ag_total_errors = 0, ag_bytes_sent = 0, ag_bytes_received = 0,
     ag_window_start = None, ag_window_end = None, ag_source_count = 0,
     ag_timer_lag_sum_ns = 0, ag_timer_lag_max_ns = 0, ag_channel_transit_sum_ns = 0, ag_channel_transit_max_ns = 0,
     ag_dispatch_gap_sum_ns = 0, ag_dispatch_gap_max_ns = 0, ag_total_delay_sum_ns = 0, ag_total_delay_max_ns = 0,
     ag_total_delay_count_over_1ms = 0, ag_header_value_counts = Map.empty, ag_md5_mismatches = 0,
     ag_response_signals = Map.empty, ag_signal_configs = [],
     ag_cpu_affinity_hits = 0, ag_cpu_affinity_misses = 0, ag_cpu_affinity_unknown = 0,
     ag_tcp_rtt_sum_us = 0, ag_tcp_rtt_count = 0, ag_tcp_rtt_max_us = 0, ag_tcp_retransmits = 0, ag_tcp_lost = 0,
     ag_packets_sent = 0, ag_packets_received = 0, ag_packets_lost = 0, ag_timeout_count = 0,
     ag_in_flight_drops = 0, ag_in_flight_count = 0, ag_in_flight_capacity = 0\<rparr>"

definition set_signal_configs :: "ResponseSignalConfig list \<Rightarrow> 'h AggregateMetrics \<Rightarrow> 'h AggregateMetrics" where
  "set_signal_configs configs a = a\<lparr>ag_signal_configs := configs\<rparr>"

text \<open>The loops over the hash maps of a snapshot touch each key once, so they are pointwise updates.\<close>

definition merge_values :: "(string \<rightharpoonup> u64) \<Rightarrow> (string \<rightharpoonup> u64) \<Rightarrow> (string \<rightharpoonup> u64)" where
  "merge_values m values v = (case values v of None \<Rightarrow> m v | Some n \<Rightarrow> Some (the_or 0 (m v) + n))"

definition merge_headers :: "(string \<rightharpoonup> (string \<rightharpoonup> u64)) \<Rightarrow> (string \<rightharpoonup> (string \<rightharpoonup> u64)) \<Rightarrow> (string \<rightharpoonup> (string \<rightharpoonup> u64))" where
  "merge_headers m headers h = (case headers h of None \<Rightarrow> m h | Some values \<Rightarrow> Some (merge_values (the_or Map.empty (m h)) values))"

definition merge_accumulator :: "ResponseSignalAccumulator \<Rightarrow> ResponseSignalAccumulator \<Rightarrow> ResponseSignalAccumulator" where
  "merge_accumulator entry acc = entry\<lparr>rsa_sum := rsa_sum entry + rsa_sum acc, rsa_count := rsa_count entry + rsa_count acc,
     rsa_max := (if rsa_max acc > rsa_max entry then rsa_max acc else rsa_max entry), rsa_last := rsa_last acc\<rparr>"

definition merge_signals :: "(string \<rightharpoonup> ResponseSignalAccumulator) \<Rightarrow> (string \<rightharpoonup> ResponseSignalAccumulator) \<Rightarrow> (string \<rightharpoonup> ResponseSignalAccumulator)" where
  "merge_signals m signals n = (case signals n of None \<Rightarrow> m n
     | Some acc \<Rightarrow> Some (merge_accumulator (the_or ResponseSignalAccumulator_default (m n)) acc))"

definition aggregate_merge :: "'h hist_ops \<Rightarrow> 'h MetricsSnapshot \<Rightarrow> 'h AggregateMetrics \<Rightarrow> 'h AggregateMetrics" where
  "aggregate_merge H s a = a\<lparr>
     ag_histogram := hist_add H (ag_histogram a) (sn_latency_histogram s),
     ag_total_requests := ag_total_requests a + sn_total_requests s, ag_total_errors := ag_total_errors a + sn_total_errors s,
     ag_bytes_sent := ag_bytes_sent a + sn_bytes_sent s, ag_bytes_received := ag_bytes_received a + sn_bytes_received s,
     ag_window_start := Some (case ag_window_start a of Some t \<Rightarrow> min t (sn_window_start s) | None \<Rightarrow> sn_window_start s),
     ag_window_end := Some (case ag_window_end a of Some t \<Rightarrow> max t (sn_window_end s) | None \<Rightarrow> sn_window_end s),
     ag_source_count := ag_source_count a + 1,
     ag_timer_lag_sum_ns := ag_timer_lag_sum_ns a + sn_timer_lag_sum_ns s,
     ag_timer_lag_max_ns := max (ag_timer_lag_max_ns a) (sn_timer_lag_max_ns s),
     ag_channel_transit_sum_ns := ag_channel_transit_sum_ns a + sn_channel_transit_sum_ns s,
     ag_channel_transit_max_ns := max (ag_channel_transit_max_ns a) (sn_channel_transit_max_ns s),
     ag_dispatch_gap_sum_ns := ag_dispatch_gap_sum_ns a + sn_dispatch_gap_sum_ns s,
     ag_dispatch_gap_max_ns := max (ag_dispatch_gap_max_ns a) (sn_dispatch_gap_max_ns s),
     ag_total_delay_sum_ns := ag_total_delay_sum_ns a + sn_total_delay_sum_ns s,
     ag_total_delay_max_ns := max (ag_total_delay_max_ns a) (sn_total_delay_max_ns s),
     ag_total_delay_count_over_1ms := ag_total_delay_count_over_1ms a + sn_total_delay_count_over_1ms s,
     ag_size_histogram := hist_add H (ag_size_histogram a) (sn_response_size_histogram s),
     ag_header_value_counts := merge_headers (ag_header_value_counts a) (sn_header_value_counts s),
     ag_md5_mismatches := ag_md5_mismatches a + sn_md5_mismatches s,
     ag_response_signals := merge_signals (ag_response_signals a) (sn_response_signals s),
     ag_cpu_affinity_hits := ag_cpu_affinity_hits a + fst (sn_cpu_affinity s),
     ag_cpu_affinity_misses := ag_cpu_affinity_misses a + fst (snd (sn_cpu_affinity s)),
     ag_cpu_affinity_unknown := ag_cpu_affinity_unknown a + snd (snd (sn_cpu_affinity s)),
     ag_tcp_rtt_sum_us := ag_tcp_rtt_sum_us a + th_rtt_sum_us (sn_tcp_health s),
     ag_tcp_rtt_count := ag_tcp_rtt_count a + th_rtt_count (sn_tcp_health s),
     ag_tcp_rtt_max_us := max (ag_tcp_rtt_max_us a) (th_rtt_max_us (sn_tcp_health s)),
     ag_tcp_retransmits := ag_tcp_retransmits a + th_retransmits (sn_tcp_health s),
     ag_tcp_lost := ag_tcp_lost a + th_lost (sn_tcp_health s),
     ag_packets_sent := ag_packets_sent a + pcd_sent (sn_packets s),
     ag_packets_received := ag_packets_received a + pcd_received (sn_packets s),
     ag_packets_lost := ag_packets_lost a + pcd_lost (sn_packets s),
     ag_timeout_count := ag_timeout_count a + sn_timeout_count s,
     ag_in_flight_drops := ag_in_flight_drops a + sn_in_flight_drops s,
     ag_in_flight_count := ag_in_flight_count a + sn_in_flight_count s,
     ag_in_flight_capacity := ag_in_flight_capacity a + sn_in_flight_capacity s\<rparr>"

definition aggregate_reset :: "'h hist_ops \<Rightarrow> 'h AggregateMetrics \<Rightarrow> 'h AggregateMetrics" where
  "aggregate_reset H a = (AggregateMetrics_new H)\<lparr>
     ag_histogram := hist_reset H (ag_histogram a), ag_size_histogram := hist_reset H (ag_size_histogram a),
     ag_signal_configs := ag_signal_configs a\<rparr>"

definition compute_response_signals :: "'h AggregateMetrics \<Rightarrow> (string \<times> f64) list" where
  "compute_response_signals a = List.map_filter (\<lambda>cfg. case ag_response_signals a (signal_name cfg) of
       None \<Rightarrow> None
     | Some acc \<Rightarrow> if rsa_count acc = 0 then None
         else Some (signal_name cfg, case rsc_aggregation cfg of
             SA_Mean \<Rightarrow> rsa_sum acc / f64_of_word (rsa_count acc) | SA_Max \<Rightarrow> rsa_max acc | SA_Last \<Rightarrow> rsa_last acc))
     (ag_signal_configs a)"

definition window_of :: "'h AggregateMetrics \<Rightarrow> duration" where
  "window_of a = (case (ag_window_start a, ag_window_end a) of
     (Some start, Some end_) \<Rightarrow> duration_since end_ start
   | _ \<Rightarrow> secs 1)"

definition ratio :: "u64 \<Rightarrow> u64 \<Rightarrow> f64" where
  "ratio n d = (if d > 0 then f64_of_word n / f64_of_word d else 0)"

definition to_summary :: "'h hist_ops \<Rightarrow> 'h AggregateMetrics \<Rightarrow> MetricsSummary" where
  "to_summary H a = (let window = window_of a; s = fmax (as_secs_f64 window) (lit (1/1000)) in \<lparr>
     ms_total_requests = ag_total_requests a, ms_total_errors = ag_total_errors a,
     ms_error_rate = ratio (ag_total_errors a) (ag_total_requests a),
     ms_request_rate = f64_of_word (ag_total_requests a) / s,
     ms_latency_p50_ns = hist_value_at_quantile H (lit (50/100)) (ag_histogram a),
     ms_latency_p90_ns = hist_value_at_quantile H (lit (90/100)) (ag_histogram a),
     ms_latency_p99_ns = hist_value_at_quantile H (lit (99/100)) (ag_histogram a),
     ms_window_duration = window, ms_bytes_sent = ag_bytes_sent a, ms_bytes_received = ag_bytes_received a,
     ms_throughput_send_bps = f64_of_word (ag_bytes_sent a) / s, ms_throughput_recv_bps = f64_of_word (ag_bytes_received a) / s,
     ms_external_signals = compute_response_signals a, ms_timeout_count = ag_timeout_count a,
     ms_in_flight_drops = ag_in_flight_drops a\<rparr>)"

definition cpu_affinity_ratio :: "'h AggregateMetrics \<Rightarrow> f64" where
  "cpu_affinity_ratio a = ratio (ag_cpu_affinity_hits a) (ag_cpu_affinity_hits a + ag_cpu_affinity_misses a)"

definition tcp_rtt_mean_us :: "'h AggregateMetrics \<Rightarrow> f64" where
  "tcp_rtt_mean_us a = ratio (ag_tcp_rtt_sum_us a) (ag_tcp_rtt_count a)"

definition tcp_retransmit_ratio :: "'h AggregateMetrics \<Rightarrow> f64" where
  "tcp_retransmit_ratio a = ratio (ag_tcp_retransmits a) (ag_tcp_rtt_count a)"

section \<open>What is counted\<close>

text \<open>
  The counters of a window as one value with a commutative addition: sums add up, maxima combine, header
  counts add per header and value. Recording, taking a snapshot and merging are homomorphisms into it.
\<close>

datatype counters = Counters
  (cn_requests: u64) (cn_errors: u64) (cn_sent: u64) (cn_received: u64) (cn_timeouts: u64) (cn_md5: u64) (cn_over_1ms: u64)
  (cn_lag_sum: u64) (cn_transit_sum: u64) (cn_gap_sum: u64) (cn_delay_sum: u64)
  (cn_lag_max: u64) (cn_transit_max: u64) (cn_gap_max: u64) (cn_delay_max: u64)
  (cn_headers: "string \<Rightarrow> string \<Rightarrow> u64")

instantiation counters :: comm_monoid_add
begin

definition zero_counters :: counters where
  "zero_counters = Counters 0 0 0 0 0 0 0 0 0 0 0 0 0 0 0 (\<lambda>_ _. 0)"

fun plus_counters :: "counters \<Rightarrow> counters \<Rightarrow> counters" where
  "plus_counters (Counters a1 a2 a3 a4 a5 a6 a7 a8 a9 a10 a11 a12 a13 a14 a15 a16)
     (Counters b1 b2 b3 b4 b5 b6 b7 b8 b9 b10 b11 b12 b13 b14 b15 b16) =
   Counters (a1 + b1) (a2 + b2) (a3 + b3) (a4 + b4) (a5 + b5) (a6 + b6) (a7 + b7) (a8 + b8) (a9 + b9) (a10 + b10) (a11 + b11)
     (max a12 b12) (max a13 b13) (max a14 b14) (max a15 b15) (\<lambda>h v. a16 h v + b16 h v)"

instance
proof
  fix a b c :: counters
  show "a + b + c = a + (b + c)" by (cases a; cases b; cases c) (simp add: ac_simps)
  show "a + b = b + a" by (cases a; cases b) (simp add: ac_simps)
  show "0 + a = a" by (cases a) (simp add: zero_counters_def max_def)
qed

end

definition header_count :: "(string \<rightharpoonup> (string \<rightharpoonup> u64)) \<Rightarrow> string \<Rightarrow> string \<Rightarrow> u64" where
  "header_count m h v = the_or 0 (the_or Map.empty (m h) v)"

definition collector_counters :: "'h HdrMetricsCollector \<Rightarrow> counters" where
  "collector_counters c = Counters (mc_total_requests c) (mc_total_errors c) (mc_bytes_sent c) (mc_bytes_received c)
     (mc_timeout_count c) (mc_md5_mismatches c) (mc_total_delay_count_over_1ms c)
     (mc_timer_lag_sum_ns c) (mc_channel_transit_sum_ns c) (mc_dispatch_gap_sum_ns c) (mc_total_delay_sum_ns c)
     (mc_timer_lag_max_ns c) (mc_channel_transit_max_ns c) (mc_dispatch_gap_max_ns c) (mc_total_delay_max_ns c)
     (header_count (mc_header_counts c))"

definition snapshot_counters :: "'h MetricsSnapshot \<Rightarrow> counters" where
  "snapshot_counters s = Counters (sn_total_requests s) (sn_total_errors s) (sn_bytes_sent s) (sn_bytes_received s)
     (sn_timeout_count s) (sn_md5_mismatches s) (sn_total_delay_count_over_1ms s)
     (sn_timer_lag_sum_ns s) (sn_channel_transit_sum_ns s) (sn_dispatch_gap_sum_ns s) (sn_total_delay_sum_ns s)
     (sn_timer_lag_max_ns s) (sn_channel_transit_max_ns s) (sn_dispatch_gap_max_ns s) (sn_total_delay_max_ns s)
     (header_count (sn_header_value_counts s))"

definition aggregate_counters :: "'h AggregateMetrics \<Rightarrow> counters" where
  "aggregate_counters a = Counters (ag_total_requests a) (ag_total_errors a) (ag_bytes_sent a) (ag_bytes_received a)
     (ag_timeout_count a) (ag_md5_mismatches a) (ag_total_delay_count_over_1ms a)
     (ag_timer_lag_sum_ns a) (ag_channel_transit_sum_ns a) (ag_dispatch_gap_sum_ns a) (ag_total_delay_sum_ns a)
     (ag_timer_lag_max_ns a) (ag_channel_transit_max_ns a) (ag_dispatch_gap_max_ns a) (ag_total_delay_max_ns a)
     (header_count (ag_header_value_counts a))"

text \<open>What one result contributes, given the configuration of the collector.\<close>

definition header_hits :: "string list \<Rightarrow> (string \<times> string) list option \<Rightarrow> string \<Rightarrow> string \<Rightarrow> u64" where
  "header_hits tracked hs h v = (case hs of None \<Rightarrow> 0 | Some hs \<Rightarrow>
     of_nat (length (filter (\<lambda>t. t = h) tracked) * length (filter (\<lambda>(name, x). to_lowercase name = to_lowercase h \<and> x = v) hs)))"

definition contribution :: "(bytes \<Rightarrow> string) \<Rightarrow> 'h HdrMetricsCollector \<Rightarrow> ExecutionResult \<Rightarrow> counters" where
  "contribution md5_hex c r =
     (if is_timeout r then Counters 1 1 (er_bytes_sent r) 0 1 0 0 0 0 0 0 0 0 0 0 (\<lambda>_ _. 0)
      else let lag = ns (er_sent_time r) (er_intended_time r); transit = ns (er_actual_time r) (er_sent_time r);
               gap = ns (er_dispatch_time r) (er_actual_time r); delay = total_delay_ns r
           in Counters 1 (if is_error (mc_error_status_threshold c) r then 1 else 0) (er_bytes_sent r) (er_response_size r) 0
                (if md5_mismatch md5_hex (mc_md5_check_enabled c) r then 1 else 0) (if delay > 1000000 then 1 else 0)
                lag transit gap delay lag transit gap delay (header_hits (mc_tracked_headers c) (er_response_headers r)))"

lemma track_one:
  "header_count (fold (\<lambda>(name, v) m. if to_lowercase name = to_lowercase t then m(t \<mapsto> bump v (the_or Map.empty (m t))) else m) hs m) h v
    = header_count m h v + (if t = h then of_nat (length (filter (\<lambda>(name, x). to_lowercase name = to_lowercase h \<and> x = v) hs)) else 0)"
  by (induction hs arbitrary: m) (auto simp: header_count_def bump_def)

lemma track_headers_count:
  "header_count (track_headers tracked hs m) h v = header_count m h v + header_hits tracked (Some hs) h v"
  unfolding track_headers_def
  by (induction tracked arbitrary: m) (auto simp: header_hits_def track_one distrib_right)

lemma max_if: "(if b > a then b else a) = max a b" for a b :: "'a :: linorder"
  by (auto simp: max_def)

lemma header_count_empty [simp]: "header_count Map.empty = (\<lambda>_ _. 0)"
  by (simp add: header_count_def fun_eq_iff)

lemma record_counters: "collector_counters (collector_record H md5_hex r c) = collector_counters c + contribution md5_hex c r"
proof (cases "is_timeout r")
  case True
  then show ?thesis by (simp add: collector_record_def collector_counters_def contribution_def max_def)
next
  case False
  have "header_count (case er_response_headers r of None \<Rightarrow> mc_header_counts c | Some hs \<Rightarrow> track_headers (mc_tracked_headers c) hs (mc_header_counts c))
      = (\<lambda>h v. header_count (mc_header_counts c) h v + header_hits (mc_tracked_headers c) (er_response_headers r) h v)"
    by (intro ext) (simp add: track_headers_count header_hits_def split: option.split)
  then show ?thesis using False
    by (simp add: collector_record_def collector_counters_def contribution_def Let_def max_if)
qed

lemma snapshot_counters_eq:
  "snapshot_counters (snd (collector_snapshot H now pkt c)) = collector_counters c"
  "collector_counters (fst (collector_snapshot H now pkt c)) = 0"
  by (simp_all add: collector_snapshot_def snapshot_counters_def collector_counters_def zero_counters_def Let_def)

lemma merge_headers_count: "header_count (merge_headers m hs) h v = header_count m h v + header_count hs h v"
  by (auto simp: header_count_def merge_headers_def merge_values_def split: option.splits)

lemma merge_counters: "aggregate_counters (aggregate_merge H s a) = aggregate_counters a + snapshot_counters s"
  by (simp add: aggregate_merge_def aggregate_counters_def snapshot_counters_def merge_headers_count fun_eq_iff)

lemma merge_all_counters: "aggregate_counters (fold (aggregate_merge H) ss a) = aggregate_counters a + sum_list (map snapshot_counters ss)"
  by (induction ss arbitrary: a) (simp_all add: merge_counters ac_simps)

section \<open>Runs of a collector\<close>

datatype collector_event = is_Completed: Completed ExecutionResult | Report instant PacketCounterDeltas

fun run_collector ::
  "'h hist_ops \<Rightarrow> (bytes \<Rightarrow> string) \<Rightarrow> collector_event list \<Rightarrow> 'h HdrMetricsCollector \<Rightarrow> 'h HdrMetricsCollector \<times> 'h MetricsSnapshot list" where
  "run_collector H md5_hex [] c = (c, [])"
| "run_collector H md5_hex (Completed r # es) c = run_collector H md5_hex es (collector_record H md5_hex r c)"
| "run_collector H md5_hex (Report now pkt # es) c =
     (let (c1, s) = collector_snapshot H now pkt c; (c2, ss) = run_collector H md5_hex es c1 in (c2, s # ss))"

definition results_of :: "collector_event list \<Rightarrow> ExecutionResult list" where
  "results_of es = List.map_filter (\<lambda>e. case e of Completed r \<Rightarrow> Some r | Report _ _ \<Rightarrow> None) es"

lemma results_of_simps [simp]:
  "results_of [] = []" "results_of (Completed r # es) = r # results_of es" "results_of (Report now pkt # es) = results_of es"
  by (simp_all add: results_of_def List.map_filter_simps)

lemma contribution_config:
  "contribution md5_hex (collector_record H md5_hex r c) = contribution md5_hex c"
  "contribution md5_hex (fst (collector_snapshot H now pkt c)) = contribution md5_hex c"
  by (intro ext, simp add: contribution_def collector_record_def collector_snapshot_def Let_def)+

lemma run_counters:
  "collector_counters c + sum_list (map (contribution md5_hex c) (results_of es)) =
   sum_list (map snapshot_counters (snd (run_collector H md5_hex es c))) + collector_counters (fst (run_collector H md5_hex es c))"
proof (induction es arbitrary: c)
  case (Cons e es)
  show ?case
  proof (cases e)
    case (Completed r)
    then show ?thesis using Cons[of "collector_record H md5_hex r c"]
      by (simp add: record_counters contribution_config add.assoc)
  next
    case (Report now pkt)
    then show ?thesis using Cons[of "fst (collector_snapshot H now pkt c)"] snapshot_counters_eq[of H now pkt c]
      by (simp add: contribution_config split_beta Let_def add.assoc)
  qed
qed simp

section \<open>The latency histogram\<close>

text \<open>
  What the code relies on of a histogram: values can be recorded in any order, adding the records of another
  histogram is recording its values, an emptied histogram is as new, and neither changes its range.
\<close>

definition hist_laws :: "'h hist_ops \<Rightarrow> bool" where
  "hist_laws H \<longleftrightarrow>
     (\<forall>v w h. hist_record H v (hist_record H w h) = hist_record H w (hist_record H v h)) \<and>
     (\<forall>v h. hist_reset H (hist_record H v h) = hist_reset H h) \<and>
     (\<forall>lo hi. hist_reset H (hist_new H lo hi) = hist_new H lo hi) \<and>
     (\<forall>a b v. hist_add H a (hist_record H v b) = hist_record H v (hist_add H a b)) \<and>
     (\<forall>a lo hi. hist_reset H a = hist_new H lo hi \<longrightarrow> hist_add H a (hist_new H lo hi) = a)"

text \<open>The values recorded for a result: its latency, and the corrected one of a delayed request.\<close>

definition latencies :: "ExecutionResult \<Rightarrow> u64 list" where
  "latencies r = (if is_timeout r then [] else
     max (latency_ns r) 1 # (if total_delay_ns r > 100000 then [max (latency_ns r + total_delay_ns r) 1] else []))"

abbreviation empty_latency :: "'h hist_ops \<Rightarrow> 'h" where
  "empty_latency H \<equiv> hist_new H 1 60000000000"

lemma record_histogram: "mc_histogram (collector_record H md5_hex r c) = fold (hist_record H) (latencies r) (mc_histogram c)"
  by (simp add: collector_record_def latencies_def record_latency_def Let_def)

lemma hist_reset_fold: "hist_laws H \<Longrightarrow> hist_reset H (fold (hist_record H) vs h) = hist_reset H h"
  by (induction vs arbitrary: h) (simp_all add: hist_laws_def)

lemma hist_add_fold:
  assumes "hist_laws H" "hist_reset H a = hist_new H lo hi"
  shows "hist_add H a (fold (hist_record H) vs (hist_new H lo hi)) = fold (hist_record H) vs a"
proof (induction vs rule: rev_induct)
  case Nil
  then show ?case using assms by (simp add: hist_laws_def)
next
  case (snoc v vs)
  then show ?case using assms(1) by (simp add: hist_laws_def)
qed

lemma hist_fold_perm: "\<lbrakk>hist_laws H; mset vs = mset ws\<rbrakk> \<Longrightarrow> fold (hist_record H) vs = fold (hist_record H) ws"
  by (rule fold_multiset_equiv) (auto simp: hist_laws_def fun_eq_iff)

text \<open>The values in the snapshots of a run, and those not yet reported.\<close>

lemma run_histogram:
  assumes "hist_laws H" "mc_histogram c = fold (hist_record H) vs (empty_latency H)"
  shows "\<exists>wss us. map sn_latency_histogram (snd (run_collector H md5_hex es c)) = map (\<lambda>ws. fold (hist_record H) ws (empty_latency H)) wss
    \<and> mc_histogram (fst (run_collector H md5_hex es c)) = fold (hist_record H) us (empty_latency H)
    \<and> concat wss @ us = vs @ concat (map latencies (results_of es)) \<and> (es \<noteq> [] \<and> \<not> is_Completed (last es) \<longrightarrow> us = [])"
  using assms(2)
proof (induction es arbitrary: c vs)
  case Nil
  then show ?case by (intro exI[of _ "[]"] exI[of _ vs]) simp
next
  case (Cons e es)
  show ?case
  proof (cases e)
    case (Completed r)
    have "mc_histogram (collector_record H md5_hex r c) = fold (hist_record H) (vs @ latencies r) (empty_latency H)"
      using Cons.prems by (simp add: record_histogram)
    from Cons.IH[OF this] Completed show ?thesis by (cases "es = []") auto
  next
    case (Report now pkt)
    let ?c = "fst (collector_snapshot H now pkt c)"
    have "mc_histogram ?c = fold (hist_record H) [] (empty_latency H)"
      using Cons.prems hist_reset_fold[OF assms(1)] assms(1) by (simp add: collector_snapshot_def Let_def hist_laws_def)
    from Cons.IH[OF this] obtain wss us where
      *: "map sn_latency_histogram (snd (run_collector H md5_hex es ?c)) = map (\<lambda>ws. fold (hist_record H) ws (empty_latency H)) wss"
      "mc_histogram (fst (run_collector H md5_hex es ?c)) = fold (hist_record H) us (empty_latency H)"
      "concat wss @ us = concat (map latencies (results_of es))" "es \<noteq> [] \<and> \<not> is_Completed (last es) \<longrightarrow> us = []" by auto
    have "sn_latency_histogram (snd (collector_snapshot H now pkt c)) = fold (hist_record H) vs (empty_latency H)"
      using Cons.prems by (simp add: collector_snapshot_def Let_def)
    moreover have "es = [] \<Longrightarrow> us = []" using *(3) by simp
    ultimately show ?thesis using * Report
      by (intro exI[of _ "vs # wss"] exI[of _ us]) (auto simp: split_beta Let_def)
  qed
qed

lemma merge_all_histogram:
  assumes "hist_laws H" "hist_reset H (ag_histogram a) = empty_latency H"
    "map sn_latency_histogram ss = map (\<lambda>ws. fold (hist_record H) ws (empty_latency H)) wss"
  shows "ag_histogram (fold (aggregate_merge H) ss a) = fold (hist_record H) (concat wss) (ag_histogram a)"
  using assms(2,3)
proof (induction ss arbitrary: a wss)
  case (Cons s ss)
  then obtain ws wss' where w: "wss = ws # wss'" by (cases wss) auto
  have h: "ag_histogram (aggregate_merge H s a) = fold (hist_record H) ws (ag_histogram a)"
    using Cons.prems w hist_add_fold[OF assms(1) Cons.prems(1), of ws] by (simp add: aggregate_merge_def)
  then have "hist_reset H (ag_histogram (aggregate_merge H s a)) = empty_latency H"
    using Cons.prems(1) hist_reset_fold[OF assms(1)] by simp
  from Cons.IH[OF this] Cons.prems(2) w h show ?case by simp
qed simp

lemma permute_pairs: "mset xs = mset (map fst ps) \<Longrightarrow> \<exists>ps'. mset ps' = mset ps \<and> map fst ps' = xs"
proof (induction xs arbitrary: ps)
  case (Cons x xs)
  then have "x \<in> set (map fst ps)" by (metis list.set_intros(1) mset_eq_setD)
  then obtain a y b where ps: "ps = a @ (x, y) # b" by (auto dest: split_list)
  then obtain ps' where "mset ps' = mset (a @ b)" "map fst ps' = xs" using Cons.IH[of "a @ b"] Cons.prems by auto
  then show ?case using ps by (intro exI[of _ "(x, y) # ps'"]) simp
qed simp

lemma permute_map:
  assumes "mset xs = mset ys" "map f ys = map g zs"
  shows "\<exists>zs'. mset zs' = mset zs \<and> map f xs = map g zs'"
proof -
  have l: "length ys = length zs" using assms(2) map_eq_imp_length_eq by blast
  have p: "\<forall>(y, z) \<in> set (zip ys zs). f y = g z" using assms(2) l by (auto simp: in_set_zip list_eq_iff_nth_eq)
  obtain ps where ps: "mset ps = mset (zip ys zs)" "map fst ps = xs"
    using permute_pairs[of xs "zip ys zs"] assms(1) l by auto
  have "map f (map fst ps) = map g (map snd ps)" using p mset_eq_setD[OF ps(1)] by auto
  moreover have "mset (map snd ps) = mset zs" using ps(1) l by (metis map_snd_zip mset_map)
  ultimately show ?thesis using ps(2) by metis
qed

section \<open>Conservation\<close>

text \<open>A core: its collector as created and everything that happens to it, ending with the final report.\<close>

definition core_ok :: "'h hist_ops \<Rightarrow> 'h HdrMetricsCollector \<times> collector_event list \<Rightarrow> bool" where
  "core_ok H core \<longleftrightarrow> collector_counters (fst core) = 0 \<and> mc_histogram (fst core) = empty_latency H
     \<and> snd core \<noteq> [] \<and> \<not> is_Completed (last (snd core))"

definition core_snapshots :: "'h hist_ops \<Rightarrow> (bytes \<Rightarrow> string) \<Rightarrow> 'h HdrMetricsCollector \<times> collector_event list \<Rightarrow> 'h MetricsSnapshot list" where
  "core_snapshots H md5_hex core = snd (run_collector H md5_hex (snd core) (fst core))"

lemma with_packet_source_fresh:
  "collector_counters (with_packet_source H now t hs m cs) = 0" "mc_histogram (with_packet_source H now t hs m cs) = empty_latency H"
  by (simp_all add: with_packet_source_def collector_counters_def zero_counters_def)

lemma run_final:
  assumes "collector_counters c = 0" "es \<noteq> []" "\<not> is_Completed (last es)"
  shows "collector_counters (fst (run_collector H md5_hex es c)) = 0"
proof -
  obtain es' now pkt where es: "es = es' @ [Report now pkt]"
    using assms(2,3) by (metis append_butlast_last_id collector_event.exhaust collector_event.discI)
  have "fst (run_collector H md5_hex (es' @ [Report now pkt]) c) = fst (collector_snapshot H now pkt (fst (run_collector H md5_hex es' c)))" for c
  proof (induction es' arbitrary: c)
    case (Cons e es)
    then show ?case by (cases e) (simp_all add: split_beta Let_def)
  qed (simp add: split_beta Let_def)
  then show ?thesis using es snapshot_counters_eq(2) by simp
qed

lemma core_counters:
  assumes "core_ok H core"
  shows "sum_list (map snapshot_counters (core_snapshots H md5_hex core)) = sum_list (map (contribution md5_hex (fst core)) (results_of (snd core)))"
  using run_counters[of "fst core" md5_hex "snd core" H] run_final[of "fst core" "snd core" H md5_hex] assms
  by (simp add: core_ok_def core_snapshots_def)

lemma cores_histogram:
  assumes "hist_laws H" "\<forall>core \<in> set cores. core_ok H core"
  shows "\<exists>wss. map sn_latency_histogram (concat (map (core_snapshots H md5_hex) cores)) = map (\<lambda>ws. fold (hist_record H) ws (empty_latency H)) wss
    \<and> concat wss = concat (map (\<lambda>core. concat (map latencies (results_of (snd core)))) cores)"
  using assms(2)
proof (induction cores)
  case (Cons core cores)
  obtain wss where w: "map sn_latency_histogram (concat (map (core_snapshots H md5_hex) cores)) = map (\<lambda>ws. fold (hist_record H) ws (empty_latency H)) wss"
    "concat wss = concat (map (\<lambda>core. concat (map latencies (results_of (snd core)))) cores)" using Cons by auto
  have c: "mc_histogram (fst core) = fold (hist_record H) [] (empty_latency H)" "snd core \<noteq> [] \<and> \<not> is_Completed (last (snd core))"
    using Cons.prems by (auto simp: core_ok_def)
  obtain vss where "map sn_latency_histogram (core_snapshots H md5_hex core) = map (\<lambda>ws. fold (hist_record H) ws (empty_latency H)) vss"
    "concat vss = concat (map latencies (results_of (snd core)))"
    using run_histogram[OF assms(1) c(1), of md5_hex "snd core"] c(2) by (auto simp: core_snapshots_def)
  then show ?case using w by (intro exI[of _ "vss @ wss"]) simp
qed simp


definition mset_hist :: "u64 multiset hist_ops" where
  "mset_hist = \<lparr>hist_new = \<lambda>_ _. {#}, hist_record = add_mset, hist_add = (+), hist_reset = \<lambda>_. {#},
     hist_value_at_quantile = \<lambda>_ h. if h = {#} then 0 else Max (set_mset h),
     hist_count_between = \<lambda>lo hi h. of_nat (size (filter_mset (\<lambda>v. lo \<le> v \<and> v \<le> hi) h)),
     hist_len = \<lambda>h. of_nat (size h), hist_max = \<lambda>h. if h = {#} then 0 else Max (set_mset h)\<rparr>"

lemma mset_hist_laws: "hist_laws mset_hist"
  by (simp add: hist_laws_def mset_hist_def add_mset_commute)

definition demo_result :: "duration \<Rightarrow> ExecutionError option \<Rightarrow> ExecutionResult" where
  "demo_result t e = \<lparr>er_request_id = 0, er_intended_time = 0, er_sent_time = 10, er_actual_time = 20, er_dispatch_time = 30,
     er_timing_total = t, er_status = Some 200, er_bytes_sent = 100, er_response_size = 50, er_error = e,
     er_response_headers = None, er_response_body = None\<rparr>"

definition demo_core :: "collector_event list \<Rightarrow> u64 multiset HdrMetricsCollector \<times> collector_event list" where
  "demo_core es = (with_packet_source mset_hist 0 400 [] False [], es @ [Report 1000 \<lparr>pcd_sent = 0, pcd_received = 0, pcd_lost = 0\<rparr>])"


end
