(* ===== verification/Io_Worker.thy ===== *)
theory Io_Worker
  imports Timer Metrics
begin

text \<open>
  The I/O worker (\<^verbatim>\<open>netanvil-core/src/io_worker.rs\<close>) with its in-flight limit (\<^verbatim>\<open>in_flight.rs\<close>): it receives
  the timer's messages, spawns a task per request and reports metrics. Tasks run whenever the loop awaits;
  the loop and its tasks are a step relation whose labels name what happened. The generator, the transformer
  and what an executor returns are parameters; the event log and log output are not modelled.
\<close>

section \<open>\<^verbatim>\<open>InFlightLimit\<close> (\<^verbatim>\<open>in_flight.rs\<close>)\<close>

record InFlightLimit =
  il_count :: nat
  il_max :: nat

definition InFlightLimit_new :: "nat \<Rightarrow> InFlightLimit" where
  "InFlightLimit_new mx = \<lparr>il_count = 0, il_max = mx\<rparr>"

text \<open>The permit is the increment itself.\<close>

definition try_acquire :: "InFlightLimit \<Rightarrow> InFlightLimit option" where
  "try_acquire l = (if il_max l > 0 \<and> il_count l \<ge> il_max l then None else Some (l\<lparr>il_count := il_count l + 1\<rparr>))"

text \<open>Dropping a permit; \<open>None\<close> is the failed assertion (and the underflow) when the count is zero.\<close>

definition drop_permit :: "InFlightLimit \<Rightarrow> InFlightLimit option" where
  "drop_permit l = (if il_count l = 0 then None else Some (l\<lparr>il_count := il_count l - 1\<rparr>))"

section \<open>The worker (\<^verbatim>\<open>io_worker.rs\<close>)\<close>

record RequestContext =
  rc_request_id :: u64
  rc_intended_time :: instant
  rc_sent_time :: instant
  rc_actual_time :: instant
  rc_dispatch_time :: instant
  rc_core_id :: nat
  rc_is_sampled :: bool
  rc_session_id :: "u64 option"

text \<open>The generator and the transformer are type parameters of the worker with these methods.\<close>

record ('g, 't, 's) pipeline =
  pl_wants_responses :: "'g \<Rightarrow> bool"
  pl_generate :: "RequestContext \<Rightarrow> 'g \<Rightarrow> 's \<times> 'g"
  pl_on_response :: "ExecutionResult \<Rightarrow> 'g \<Rightarrow> 'g"
  pl_update_targets :: "string list \<Rightarrow> 'g \<Rightarrow> 'g"
  pl_transform :: "'s \<Rightarrow> RequestContext \<Rightarrow> 't \<Rightarrow> 's \<times> 't"
  pl_update_metadata :: "(string \<times> string) list \<Rightarrow> 't \<Rightarrow> 't"

text \<open>
  Where the loop is: waiting for a message, draining the burst that followed it, past the loop after
  \<^verbatim>\<open>Stop\<close> or a closed channel, or returned.
\<close>

datatype phase = Waiting | Draining | Leaving | Exited

record ('g, 't, 's, 'h) worker =
  wk_generator :: 'g
  wk_transformer :: 't
  wk_metrics :: "'h HdrMetricsCollector"
  wk_limit :: InFlightLimit
  wk_in_flight_drops :: u64
  wk_last_in_flight_drops :: u64
  wk_request_seq :: u64
  wk_core_id :: nat
  wk_tasks :: "('s \<times> RequestContext) list"
  wk_responses :: "ExecutionResult list option"
  wk_last_report :: instant
  wk_phase :: phase
  wk_snapshots :: "'h MetricsSnapshot list"

definition worker_start ::
  "('g, 't, 's) pipeline \<Rightarrow> nat \<Rightarrow> instant \<Rightarrow> 'g \<Rightarrow> 't \<Rightarrow> 'h HdrMetricsCollector \<Rightarrow> nat \<Rightarrow> ('g, 't, 's, 'h) worker" where
  "worker_start P core_id now generator transformer metrics mx = \<lparr>
     wk_generator = generator, wk_transformer = transformer, wk_metrics = metrics, wk_limit = InFlightLimit_new mx,
     wk_in_flight_drops = 0, wk_last_in_flight_drops = 0, wk_request_seq = 0, wk_core_id = core_id, wk_tasks = [],
     wk_responses = (if pl_wants_responses P generator then Some [] else None),
     wk_last_report = now, wk_phase = Waiting, wk_snapshots = []\<rparr>"

definition deliver_responses :: "('g, 't, 's) pipeline \<Rightarrow> ('g, 't, 's, 'h) worker \<Rightarrow> ('g, 't, 's, 'h) worker" where
  "deliver_responses P w = (case wk_responses w of
     None \<Rightarrow> w
   | Some rs \<Rightarrow> w\<lparr>wk_generator := fold (pl_on_response P) rs (wk_generator w), wk_responses := Some []\<rparr>)"

definition spawn_request :: "('g, 't, 's) pipeline \<Rightarrow> instant \<Rightarrow> instant \<Rightarrow> instant \<Rightarrow> instant \<Rightarrow> ('g, 't, 's, 'h) worker \<Rightarrow> ('g, 't, 's, 'h) worker" where
  "spawn_request P intended sent actual dispatch w =
     (let ctx = \<lparr>rc_request_id = word_of_nat (wk_core_id w) * 1000000000 + wk_request_seq w, rc_intended_time = intended,
            rc_sent_time = sent, rc_actual_time = actual, rc_dispatch_time = actual, rc_core_id = wk_core_id w,
            rc_is_sampled = False, rc_session_id = None\<rparr>;
          (spec, g) = pl_generate P ctx (wk_generator w);
          (spec', t) = pl_transform P spec ctx (wk_transformer w)
      in w\<lparr>wk_request_seq := wk_request_seq w + 1, wk_generator := g, wk_transformer := t,
           wk_tasks := wk_tasks w @ [(spec', ctx\<lparr>rc_dispatch_time := dispatch\<rparr>)]\<rparr>)"

text \<open>\<open>actual\<close> and \<open>dispatch\<close> are the two readings of the clock; the flag is whether to continue.\<close>

definition handle_message ::
  "('g, 't, 's) pipeline \<Rightarrow> instant \<Rightarrow> instant \<Rightarrow> ScheduledRequest \<Rightarrow> ('g, 't, 's, 'h) worker \<Rightarrow> ('g, 't, 's, 'h) worker \<times> bool" where
  "handle_message P actual dispatch msg w = (case msg of
     Fire intended sent \<Rightarrow> (case try_acquire (wk_limit w) of
         None \<Rightarrow> (w\<lparr>wk_in_flight_drops := wk_in_flight_drops w + 1\<rparr>, True)
       | Some l \<Rightarrow> (spawn_request P intended sent actual dispatch (w\<lparr>wk_limit := l\<rparr>), True))
   | SR_UpdateTargets ts \<Rightarrow> (w\<lparr>wk_generator := pl_update_targets P ts (wk_generator w)\<rparr>, True)
   | SR_UpdateMetadata hs \<Rightarrow> (w\<lparr>wk_transformer := pl_update_metadata P hs (wk_transformer w)\<rparr>, True)
   | SR_Stop \<Rightarrow> (w, False))"

text \<open>
  The end of a spawned task: record, hand the result to the generator's channel unless it is full, release
  the slot.
\<close>

definition finish_task ::
  "'h hist_ops \<Rightarrow> (bytes \<Rightarrow> string) \<Rightarrow> nat \<Rightarrow> ExecutionResult \<Rightarrow> bool \<Rightarrow> ('g, 't, 's, 'h) worker \<Rightarrow> ('g, 't, 's, 'h) worker option" where
  "finish_task H md5_hex i result channel_full w =
     map_option (\<lambda>l. w\<lparr>wk_metrics := collector_record H md5_hex result (wk_metrics w),
         wk_responses := (if channel_full then wk_responses w else map_option (\<lambda>rs. rs @ [result]) (wk_responses w)),
         wk_tasks := take i (wk_tasks w) @ drop (Suc i) (wk_tasks w), wk_limit := l\<rparr>)
       (drop_permit (wk_limit w))"

definition send_snapshot :: "'h hist_ops \<Rightarrow> instant \<Rightarrow> PacketCounterDeltas \<Rightarrow> ('g, 't, 's, 'h) worker \<Rightarrow> ('g, 't, 's, 'h) worker" where
  "send_snapshot H now pkt w =
     (let (m, snap) = collector_snapshot H now pkt (wk_metrics w);
          snap' = snap\<lparr>sn_in_flight_drops := wk_in_flight_drops w - wk_last_in_flight_drops w,
            sn_in_flight_count := word_of_nat (il_count (wk_limit w)), sn_in_flight_capacity := word_of_nat (il_max (wk_limit w))\<rparr>
      in w\<lparr>wk_metrics := m, wk_snapshots := wk_snapshots w @ [snap']\<rparr>)"

definition report_snapshot :: "'h hist_ops \<Rightarrow> instant \<Rightarrow> PacketCounterDeltas \<Rightarrow> ('g, 't, 's, 'h) worker \<Rightarrow> ('g, 't, 's, 'h) worker" where
  "report_snapshot H now pkt w = (send_snapshot H now pkt w)\<lparr>wk_last_in_flight_drops := wk_in_flight_drops w, wk_last_report := now\<rparr>"

section \<open>Steps of the worker\<close>

text \<open>
  Spawned tasks run whenever the loop awaits, so between any two steps; what they return is up to the
  executor.
\<close>

datatype wlabel = GotMessage ScheduledRequest | Disconnected | BurstOver | TaskDone ExecutionResult | Left

inductive worker_step ::
  "('g, 't, 's) pipeline \<Rightarrow> 'h hist_ops \<Rightarrow> (bytes \<Rightarrow> string) \<Rightarrow> duration \<Rightarrow>
   ('g, 't, 's, 'h) worker \<Rightarrow> wlabel \<Rightarrow> ('g, 't, 's, 'h) worker \<Rightarrow> bool"
  for P H md5_hex interval where
  receive: "\<lbrakk>wk_phase w = Waiting; handle_message P actual dispatch msg (deliver_responses P w) = (w', go)\<rbrakk>
    \<Longrightarrow> worker_step P H md5_hex interval w (GotMessage msg) (w'\<lparr>wk_phase := (if go then Draining else Leaving)\<rparr>)"
| closed: "wk_phase w = Waiting
    \<Longrightarrow> worker_step P H md5_hex interval w Disconnected ((deliver_responses P w)\<lparr>wk_phase := Leaving\<rparr>)"
| drain: "\<lbrakk>wk_phase w = Draining; handle_message P actual dispatch msg (deliver_responses P w) = (w', True)\<rbrakk>
    \<Longrightarrow> worker_step P H md5_hex interval w (GotMessage msg) w'"
| drain_stop: "\<lbrakk>wk_phase w = Draining; handle_message P actual dispatch msg (deliver_responses P w) = (w', False)\<rbrakk>
    \<Longrightarrow> worker_step P H md5_hex interval w (GotMessage msg) ((send_snapshot H now pkt w')\<lparr>wk_phase := Exited\<rparr>)"
| burst_over: "\<lbrakk>wk_phase w = Draining; duration_since now (wk_last_report w) < interval\<rbrakk>
    \<Longrightarrow> worker_step P H md5_hex interval w BurstOver (w\<lparr>wk_phase := Waiting\<rparr>)"
| burst_report: "\<lbrakk>wk_phase w = Draining; interval \<le> duration_since now (wk_last_report w)\<rbrakk>
    \<Longrightarrow> worker_step P H md5_hex interval w BurstOver ((report_snapshot H now pkt w)\<lparr>wk_phase := Waiting\<rparr>)"
| task: "\<lbrakk>wk_phase w \<noteq> Exited; i < length (wk_tasks w); finish_task H md5_hex i result full w = Some w'\<rbrakk>
    \<Longrightarrow> worker_step P H md5_hex interval w (TaskDone result) w'"
| leave: "wk_phase w = Leaving
    \<Longrightarrow> worker_step P H md5_hex interval w Left ((send_snapshot H now pkt (deliver_responses P w))\<lparr>wk_phase := Exited\<rparr>)"

inductive worker_run ::
  "('g, 't, 's) pipeline \<Rightarrow> 'h hist_ops \<Rightarrow> (bytes \<Rightarrow> string) \<Rightarrow> duration \<Rightarrow>
   ('g, 't, 's, 'h) worker \<Rightarrow> wlabel list \<Rightarrow> ('g, 't, 's, 'h) worker \<Rightarrow> bool"
  for P H md5_hex interval w where
  run_refl: "worker_run P H md5_hex interval w [] w"
| run_step: "\<lbrakk>worker_run P H md5_hex interval w ls w'; worker_step P H md5_hex interval w' l w''\<rbrakk>
    \<Longrightarrow> worker_run P H md5_hex interval w (ls @ [l]) w''"

section \<open>What the worker keeps\<close>

definition fires :: "wlabel list \<Rightarrow> nat" where
  "fires ls = length (filter (\<lambda>l. case l of GotMessage m \<Rightarrow> is_Fire m | _ \<Rightarrow> False) ls)"

definition done_results :: "wlabel list \<Rightarrow> ExecutionResult list" where
  "done_results ls = List.map_filter (\<lambda>l. case l of TaskDone r \<Rightarrow> Some r | _ \<Rightarrow> None) ls"

lemma fires_snoc [simp]: "fires (ls @ [l]) = fires ls + (case l of GotMessage m \<Rightarrow> if is_Fire m then 1 else 0 | _ \<Rightarrow> 0)"
  by (simp add: fires_def split: wlabel.split)

lemma done_results_snoc [simp]: "done_results (ls @ [l]) = done_results ls @ (case l of TaskDone r \<Rightarrow> [r] | _ \<Rightarrow> [])"
  by (simp add: done_results_def map_filter_def split: wlabel.split)

text \<open>The part of the state the accounts are about.\<close>

definition slots_ok :: "('g, 't, 's, 'h) worker \<Rightarrow> bool" where
  "slots_ok w \<longleftrightarrow> il_count (wk_limit w) = length (wk_tasks w) \<and> (il_max (wk_limit w) > 0 \<longrightarrow> il_count (wk_limit w) \<le> il_max (wk_limit w))"

definition reported :: "('g, 't, 's, 'h) worker \<Rightarrow> counters" where
  "reported w = sum_list (map snapshot_counters (wk_snapshots w))"

definition reported_drops :: "('g, 't, 's, 'h) worker \<Rightarrow> u64" where
  "reported_drops w = sum_list (map sn_in_flight_drops (wk_snapshots w))"

lemma reported_updates [simp]:
  "reported (w\<lparr>wk_phase := p\<rparr>) = reported w" "reported (w\<lparr>wk_last_in_flight_drops := d\<rparr>) = reported w"
  "reported (w\<lparr>wk_last_report := n\<rparr>) = reported w"
  "reported_drops (w\<lparr>wk_phase := p\<rparr>) = reported_drops w" "reported_drops (w\<lparr>wk_last_in_flight_drops := d\<rparr>) = reported_drops w"
  "reported_drops (w\<lparr>wk_last_report := n\<rparr>) = reported_drops w"
  by (simp_all add: reported_def reported_drops_def)

lemma deliver_fields [simp]:
  "wk_limit (deliver_responses P w) = wk_limit w" "wk_tasks (deliver_responses P w) = wk_tasks w"
  "wk_in_flight_drops (deliver_responses P w) = wk_in_flight_drops w" "wk_metrics (deliver_responses P w) = wk_metrics w"
  "wk_last_in_flight_drops (deliver_responses P w) = wk_last_in_flight_drops w" "wk_snapshots (deliver_responses P w) = wk_snapshots w"
  "wk_phase (deliver_responses P w) = wk_phase w"
  by (simp_all add: deliver_responses_def split: option.split)

lemma handle_message_fields:
  assumes "handle_message P a d msg w = (w', go)"
  shows "wk_metrics w' = wk_metrics w" "wk_last_in_flight_drops w' = wk_last_in_flight_drops w" "wk_snapshots w' = wk_snapshots w"
    "wk_phase w' = wk_phase w" "il_max (wk_limit w') = il_max (wk_limit w)"
  using assms by (auto simp: handle_message_def spawn_request_def try_acquire_def Let_def split: ScheduledRequest.splits option.splits prod.splits if_splits)

lemma handle_message_accounts:
  assumes "handle_message P a d msg w = (w', go)" "slots_ok w"
  shows "slots_ok w'" "of_nat (length (wk_tasks w')) + wk_in_flight_drops w' = of_nat (length (wk_tasks w)) + wk_in_flight_drops w + (if is_Fire msg then 1 else 0)"
  using assms by (auto simp: handle_message_def spawn_request_def try_acquire_def slots_ok_def Let_def
      split: ScheduledRequest.splits option.splits prod.splits if_splits)

lemma send_snapshot_fields [simp]:
  "wk_limit (send_snapshot H now pkt w) = wk_limit w" "wk_tasks (send_snapshot H now pkt w) = wk_tasks w"
  "wk_in_flight_drops (send_snapshot H now pkt w) = wk_in_flight_drops w" "wk_phase (send_snapshot H now pkt w) = wk_phase w"
  "reported (send_snapshot H now pkt w) = reported w + collector_counters (wk_metrics w)"
  "collector_counters (wk_metrics (send_snapshot H now pkt w)) = 0"
  "reported_drops (send_snapshot H now pkt w) = reported_drops w + (wk_in_flight_drops w - wk_last_in_flight_drops w)"
  "contribution md5_hex (wk_metrics (send_snapshot H now pkt w)) = contribution md5_hex (wk_metrics w)"
  using snapshot_counters_eq[of H now pkt "wk_metrics w"] contribution_config(2)[of md5_hex H now pkt "wk_metrics w"]
  by (simp_all add: send_snapshot_def reported_def reported_drops_def split_beta Let_def snapshot_counters_def)

lemma finish_task_fields:
  assumes "finish_task H md5_hex i r full w = Some w'" "slots_ok w" "i < length (wk_tasks w)"
  shows "slots_ok w'" "length (wk_tasks w) = Suc (length (wk_tasks w'))" "wk_in_flight_drops w' = wk_in_flight_drops w"
    "wk_last_in_flight_drops w' = wk_last_in_flight_drops w" "wk_snapshots w' = wk_snapshots w" "wk_phase w' = wk_phase w"
    "wk_metrics w' = collector_record H md5_hex r (wk_metrics w)" "il_max (wk_limit w') = il_max (wk_limit w)"
  using assms by (auto simp: finish_task_def drop_permit_def slots_ok_def split: if_splits)

definition accounts :: "(bytes \<Rightarrow> string) \<Rightarrow> 'h HdrMetricsCollector \<Rightarrow> nat \<Rightarrow> wlabel list \<Rightarrow> ('g, 't, 's, 'h) worker \<Rightarrow> bool" where
  "accounts md5_hex m mx ls w \<longleftrightarrow> slots_ok w \<and> il_max (wk_limit w) = mx
     \<and> of_nat (fires ls) = of_nat (length (wk_tasks w)) + of_nat (length (done_results ls)) + wk_in_flight_drops w
     \<and> contribution md5_hex (wk_metrics w) = contribution md5_hex m
     \<and> reported w + collector_counters (wk_metrics w) = sum_list (map (contribution md5_hex m) (done_results ls))
     \<and> (if wk_phase w = Exited then collector_counters (wk_metrics w) = 0 \<and> reported_drops w = wk_in_flight_drops w
        else reported_drops w = wk_last_in_flight_drops w)"

lemma accounts_message:
  assumes "accounts md5_hex m mx ls w" "wk_phase w \<noteq> Exited" "handle_message P a d msg (deliver_responses P w) = (w', go)" "p \<noteq> Exited"
  shows "accounts md5_hex m mx (ls @ [GotMessage msg]) (w'\<lparr>wk_phase := p\<rparr>)"
  using assms(1,2,4) handle_message_fields[OF assms(3)] handle_message_accounts[OF assms(3)]
  by (auto simp: accounts_def slots_ok_def reported_def reported_drops_def)

lemma accounts_final:
  assumes "accounts md5_hex m mx ls w" "wk_phase w \<noteq> Exited"
  shows "accounts md5_hex m mx ls ((send_snapshot H now pkt w)\<lparr>wk_phase := Exited\<rparr>)"
  using assms by (auto simp: accounts_def slots_ok_def)

lemma accounts_report:
  assumes "accounts md5_hex m mx ls w" "wk_phase w \<noteq> Exited" "p \<noteq> Exited"
  shows "accounts md5_hex m mx ls ((report_snapshot H now pkt w)\<lparr>wk_phase := p\<rparr>)"
  using assms by (auto simp: accounts_def slots_ok_def report_snapshot_def)

lemma accounts_task:
  assumes "accounts md5_hex m mx ls w" "wk_phase w \<noteq> Exited" "i < length (wk_tasks w)" "finish_task H md5_hex i r full w = Some w'"
  shows "accounts md5_hex m mx (ls @ [TaskDone r]) w'"
proof -
  have "slots_ok w" using assms(1) by (simp add: accounts_def)
  note f = finish_task_fields[OF assms(4) this assms(3)]
  have "contribution md5_hex (wk_metrics w) r = contribution md5_hex m r" using assms(1) by (simp add: accounts_def)
  then show ?thesis using assms(1,2) f contribution_config(1)[of md5_hex H r "wk_metrics w"]
    by (simp add: accounts_def record_counters reported_def reported_drops_def add.assoc[symmetric])
qed

lemma accounts_skip: "\<lbrakk>accounts md5_hex m mx ls w; l = Disconnected \<or> l = BurstOver \<or> l = Left\<rbrakk> \<Longrightarrow> accounts md5_hex m mx (ls @ [l]) w"
  by (auto simp: accounts_def)

lemma accounts_phase: "\<lbrakk>accounts md5_hex m mx ls w; wk_phase w \<noteq> Exited; p \<noteq> Exited\<rbrakk> \<Longrightarrow> accounts md5_hex m mx ls (w\<lparr>wk_phase := p\<rparr>)"
  by (auto simp: accounts_def slots_ok_def)

lemma accounts_deliver: "accounts md5_hex m mx ls w \<Longrightarrow> accounts md5_hex m mx ls (deliver_responses P w)"
  by (auto simp: accounts_def slots_ok_def reported_def reported_drops_def)

lemma phase_id: "wk_phase w = p \<Longrightarrow> w\<lparr>wk_phase := p\<rparr> = w"
  by (cases w) simp

lemma step_accounts:
  assumes "worker_step P H md5_hex interval w l w'" "accounts md5_hex m mx ls w"
  shows "accounts md5_hex m mx (ls @ [l]) w'"
  using assms
proof (induction rule: worker_step.induct)
  case (receive w actual dispatch msg w' go)
  then show ?case by (intro accounts_message) auto
next
  case (closed w)
  then show ?case by (intro accounts_phase accounts_skip accounts_deliver) auto
next
  case (drain w actual dispatch msg w')
  then have "accounts md5_hex m mx (ls @ [GotMessage msg]) (w'\<lparr>wk_phase := wk_phase w\<rparr>)" by (intro accounts_message) auto
  moreover have "w'\<lparr>wk_phase := wk_phase w\<rparr> = w'" using handle_message_fields(4)[OF drain(2)] by (intro phase_id) simp
  ultimately show ?case by metis
next
  case (drain_stop w actual dispatch msg w' now pkt)
  then have a: "accounts md5_hex m mx (ls @ [GotMessage msg]) (w'\<lparr>wk_phase := wk_phase w\<rparr>)" by (intro accounts_message) auto
  have p: "wk_phase w' = wk_phase w" using handle_message_fields(4)[OF drain_stop(2)] by simp
  have "accounts md5_hex m mx (ls @ [GotMessage msg]) w'" using a phase_id[OF p] by metis
  then show ?case using p drain_stop(1) by (intro accounts_final) simp_all
next
  case (burst_over w now)
  then show ?case by (intro accounts_phase accounts_skip) auto
next
  case (burst_report w now pkt)
  then show ?case by (intro accounts_report accounts_skip) auto
next
  case (task w i result full w')
  then show ?case by (intro accounts_task) auto
next
  case (leave w now pkt)
  then show ?case by (intro accounts_final accounts_skip accounts_deliver) auto
qed

lemma run_accounts:
  assumes "worker_run P H md5_hex interval w0 ls w" "accounts md5_hex m mx [] w0"
  shows "accounts md5_hex m mx ls w"
  using assms by (induction rule: worker_run.induct) (auto intro: step_accounts)

lemma start_accounts: "collector_counters m = 0 \<Longrightarrow> accounts md5_hex m mx [] (worker_start P core now g t m mx)"
  by (simp add: accounts_def worker_start_def slots_ok_def InFlightLimit_new_def fires_def done_results_def reported_def
      reported_drops_def map_filter_def)

section \<open>Property of the worker\<close>

text \<open>
  C4. However fire messages, control messages, reports and completions interleave: a worker never runs more
  requests than its limit; every fire message it handled is in flight, completed or counted as dropped; no
  completion finds the in-flight count at zero; and once the worker has exited, the snapshots it sent add
  up to exactly the completed requests and exactly the dropped ones.
\<close>

theorem worker_accounts:
  assumes "worker_run P H md5_hex interval (worker_start P core now g t m mx) ls w" "collector_counters m = 0"
  shows "(mx > 0 \<longrightarrow> length (wk_tasks w) \<le> mx)
    \<and> of_nat (fires ls) = of_nat (length (wk_tasks w)) + of_nat (length (done_results ls)) + wk_in_flight_drops w
    \<and> (\<forall>i < length (wk_tasks w). finish_task H md5_hex i r full w \<noteq> None)
    \<and> (wk_phase w = Exited \<longrightarrow>
        sum_list (map snapshot_counters (wk_snapshots w)) = sum_list (map (contribution md5_hex m) (done_results ls))
      \<and> sum_list (map sn_in_flight_drops (wk_snapshots w)) = wk_in_flight_drops w)"
proof -
  have "accounts md5_hex m mx ls w" using run_accounts[OF assms(1) start_accounts[OF assms(2)]] .
  then show ?thesis
    by (auto simp: accounts_def slots_ok_def finish_task_def drop_permit_def reported_def reported_drops_def)
qed

section \<open>Example run\<close>

definition demo_pipeline :: "(unit, unit, nat) pipeline" where
  "demo_pipeline = \<lparr>pl_wants_responses = \<lambda>_. False, pl_generate = \<lambda>_ g. (7, g), pl_on_response = \<lambda>_ g. g,
     pl_update_targets = \<lambda>_ g. g, pl_transform = \<lambda>s _ t. (s, t), pl_update_metadata = \<lambda>_ t. t\<rparr>"

definition demo_metrics :: "u64 multiset HdrMetricsCollector" where
  "demo_metrics = with_packet_source mset_hist 0 400 [] False []"

definition demo_worker :: "(unit, unit, nat, u64 multiset) worker" where
  "demo_worker = worker_start demo_pipeline 0 0 () () demo_metrics 1"

definition demo_labels :: "wlabel list" where
  "demo_labels = [GotMessage (Fire 1 2), GotMessage (Fire 3 4), TaskDone (demo_result 7 None), GotMessage SR_Stop]"

text \<open>Two fire messages for one slot, a completion, and the final snapshot on \<^verbatim>\<open>Stop\<close>.\<close>

definition demo_w1 :: "(unit, unit, nat, u64 multiset) worker" where
  "demo_w1 = (fst (handle_message demo_pipeline 2 2 (Fire 1 2) demo_worker))\<lparr>wk_phase := Draining\<rparr>"

definition demo_w2 :: "(unit, unit, nat, u64 multiset) worker" where
  "demo_w2 = fst (handle_message demo_pipeline 4 4 (Fire 3 4) demo_w1)"

definition demo_w3 :: "(unit, unit, nat, u64 multiset) worker" where
  "demo_w3 = demo_w2\<lparr>wk_metrics := collector_record mset_hist (\<lambda>_. []) (demo_result 7 None) (wk_metrics demo_w2),
     wk_tasks := [], wk_limit := \<lparr>il_count = 0, il_max = 1\<rparr>\<rparr>"

definition demo_w4 :: "(unit, unit, nat, u64 multiset) worker" where
  "demo_w4 = (send_snapshot mset_hist 9 \<lparr>pcd_sent = 0, pcd_received = 0, pcd_lost = 0\<rparr> demo_w3)\<lparr>wk_phase := Exited\<rparr>"

lemmas demo_worker_defs = demo_w1_def demo_w2_def demo_w3_def demo_worker_def worker_start_def demo_pipeline_def
  handle_message_def try_acquire_def InFlightLimit_new_def spawn_request_def deliver_responses_def finish_task_def drop_permit_def

lemma demo_run: "worker_run demo_pipeline mset_hist (\<lambda>_. []) 0 demo_worker demo_labels demo_w4"
proof -
  note step = worker_run.run_step
  have 1: "worker_run demo_pipeline mset_hist (\<lambda>_. []) 0 demo_worker ([] @ [GotMessage (Fire 1 2)]) demo_w1"
    using worker_step.receive[of demo_worker demo_pipeline 2 2 "Fire 1 2" "fst (handle_message demo_pipeline 2 2 (Fire 1 2) demo_worker)" True]
    by (intro step[OF worker_run.run_refl]) (simp add: demo_worker_defs)
  have 2: "worker_run demo_pipeline mset_hist (\<lambda>_. []) 0 demo_worker (([] @ [GotMessage (Fire 1 2)]) @ [GotMessage (Fire 3 4)]) demo_w2"
    by (rule step[OF 1]) (rule worker_step.drain[of _ _ 4 4], simp_all add: demo_worker_defs)
  have 3: "worker_run demo_pipeline mset_hist (\<lambda>_. []) 0 demo_worker ((([] @ [GotMessage (Fire 1 2)]) @ [GotMessage (Fire 3 4)]) @ [TaskDone (demo_result 7 None)]) demo_w3"
    by (rule step[OF 2]) (rule worker_step.task[of _ 0 _ _ _ False], simp_all add: demo_worker_defs)
  have "worker_run demo_pipeline mset_hist (\<lambda>_. []) 0 demo_worker
    (((([] @ [GotMessage (Fire 1 2)]) @ [GotMessage (Fire 3 4)]) @ [TaskDone (demo_result 7 None)]) @ [GotMessage SR_Stop]) demo_w4"
    unfolding demo_w4_def by (rule step[OF 3]) (rule worker_step.drain_stop[of _ _ 5 5], simp_all add: demo_worker_defs)
  then show ?thesis by (simp add: demo_labels_def)
qed

theorem worker_accounts_witness:
  "collector_counters demo_metrics = 0 \<and> length (wk_tasks demo_w4) \<le> 1
    \<and> sum_list (map sn_in_flight_drops (wk_snapshots demo_w4)) = 1
    \<and> cn_requests (sum_list (map snapshot_counters (wk_snapshots demo_w4))) = 1"
proof -
  have m: "collector_counters demo_metrics = 0" by (simp add: demo_metrics_def with_packet_source_fresh)
  have p: "wk_phase demo_w4 = Exited" "wk_in_flight_drops demo_w4 = 1" by (simp_all add: demo_w4_def demo_worker_defs)
  have c: "done_results demo_labels = [demo_result 7 None]" by (simp add: done_results_def demo_labels_def map_filter_def)
  have "cn_requests (contribution (\<lambda>_. []) demo_metrics (demo_result 7 None)) = 1"
    by (simp add: contribution_def is_timeout_def demo_result_def Let_def)
  then show ?thesis
    using worker_accounts[OF demo_run[unfolded demo_worker_def] m] p c m by simp
qed

end
