(* ===== verification/Coordinator.thy ===== *)
theory Coordinator
  imports Builder Io_Worker
begin

text \<open>
  The coordinator (\<^verbatim>\<open>netanvil-core/src/coordinator.rs\<close>): the control loop that drains the snapshots of the
  workers, asks the rate controller for a rate, sends it to the timer thread, assesses saturation and ends
  the test. A tick is given what it reads from the other threads, the signal sources and the clock; what it
  sends is logged in the state. The progress callback and log output are not modelled.
\<close>

section \<open>Sliding window\<close>

record SlidingWindow =
  sw_timestamps :: "instant list"
  sw_total_requests :: "u64 list"
  sw_total_errors :: "u64 list"
  sw_bytes_sent :: "u64 list"
  sw_bytes_received :: "u64 list"
  sw_window_duration :: duration

definition SlidingWindow_new :: "duration \<Rightarrow> SlidingWindow" where
  "SlidingWindow_new d = \<lparr>sw_timestamps = [], sw_total_requests = [], sw_total_errors = [], sw_bytes_sent = [],
     sw_bytes_received = [], sw_window_duration = d\<rparr>"

text \<open>The eviction loop over the queue of timestamps; \<^verbatim>\<open>pop_front\<close> of an empty queue does nothing.\<close>

definition pop_fronts :: "SlidingWindow \<Rightarrow> SlidingWindow" where
  "pop_fronts w = w\<lparr>sw_timestamps := tl (sw_timestamps w), sw_total_requests := tl (sw_total_requests w),
     sw_total_errors := tl (sw_total_errors w), sw_bytes_sent := tl (sw_bytes_sent w), sw_bytes_received := tl (sw_bytes_received w)\<rparr>"

function window_evict :: "instant \<Rightarrow> SlidingWindow \<Rightarrow> SlidingWindow" where
  "window_evict cutoff w = (case sw_timestamps w of
     [] \<Rightarrow> w
   | ts # _ \<Rightarrow> if ts \<ge> cutoff then w else window_evict cutoff (pop_fronts w))"
  by pat_completeness auto

termination
  by (relation "measure (\<lambda>(_, w). length (sw_timestamps w))") (auto simp: pop_fronts_def)

declare window_evict.simps [simp del]

definition window_push :: "instant \<Rightarrow> u64 \<Rightarrow> u64 \<Rightarrow> u64 \<Rightarrow> u64 \<Rightarrow> SlidingWindow \<Rightarrow> SlidingWindow" where
  "window_push now requests errors sent received w =
     window_evict (now - int (sw_window_duration w))
       (w\<lparr>sw_timestamps := sw_timestamps w @ [now], sw_total_requests := sw_total_requests w @ [requests],
          sw_total_errors := sw_total_errors w @ [errors], sw_bytes_sent := sw_bytes_sent w @ [sent],
          sw_bytes_received := sw_bytes_received w @ [received]\<rparr>)"

definition window_request_rate :: "SlidingWindow \<Rightarrow> f64" where
  "window_request_rate w =
     (if length (sw_timestamps w) < 2 then
        f64_of_word (if sw_total_requests w = [] then 0 else last (sw_total_requests w))
          / fmax (as_secs_f64 (sw_window_duration w)) (lit (1/1000))
      else f64_of_word (sum_list (tl (sw_total_requests w)))
          / fmax (as_secs_f64 (duration_since (last (sw_timestamps w)) (hd (sw_timestamps w)))) (lit (1/1000)))"

section \<open>State and messages\<close>

datatype SaturationAssessment = Healthy | ClientSaturated | ServerSaturated | BothSaturated

record SaturationInfo =
  si_backpressure_drops :: u64
  si_backpressure_ratio :: f64
  si_timer_lag_mean_ns :: u64
  si_timer_lag_max_ns :: u64
  si_channel_transit_mean_ns :: u64
  si_channel_transit_max_ns :: u64
  si_dispatch_gap_mean_ns :: u64
  si_dispatch_gap_max_ns :: u64
  si_scheduling_delay_mean_ns :: u64
  si_scheduling_delay_max_ns :: u64
  si_delayed_request_ratio :: f64
  si_rate_achievement :: f64
  si_cpu_affinity_ratio :: f64
  si_tcp_rtt_mean_ms :: f64
  si_tcp_rtt_max_ms :: f64
  si_tcp_retransmit_ratio :: f64
  si_assessment :: SaturationAssessment
  si_in_flight_drops :: u64
  si_in_flight_count :: u64
  si_in_flight_capacity :: u64

record ControllerView =
  cv_info :: ControllerInfo
  cv_held :: bool
  cv_held_rps :: "f64 option"

datatype WorkerCommand =
  WC_UpdateRate f64 | WC_UpdateTargets "string list" | WC_UpdateMetadata "(string \<times> string) list" | WC_Stop
| WC_Hold HoldCommand | WC_ControllerUpdate string params | WC_ControllerInfo

datatype Reply = UpdateReply update_result | InfoReply ControllerView

text \<open>
  The coordinator; \<open>co_timer_commands\<close> logs what is sent to the timer thread, \<open>co_replies\<close> what is answered
  on the one-shot channels of the API.
\<close>

record 'h Coordinator =
  co_rate_controller :: RateController
  co_tick_aggregate :: "'h AggregateMetrics"
  co_total_aggregate :: "'h AggregateMetrics"
  co_test_duration :: duration
  co_control_interval :: duration
  co_start_time :: instant
  co_stopped :: bool
  co_hold_state :: HoldState
  co_last_timer_dispatched :: u64
  co_last_timer_dropped :: u64
  co_max_requests :: "u64 option"
  co_autostop_threshold :: "u64 option"
  co_refusestop_threshold :: "u64 option"
  co_warmup_duration :: "duration option"
  co_warmup_complete :: bool
  co_target_bytes :: "u64 option"
  co_sliding_window :: SlidingWindow
  co_last_assessment :: SaturationAssessment
  co_timer_commands :: "TimerCommand list"
  co_replies :: "Reply list"

definition Coordinator_new :: "'h hist_ops \<Rightarrow> instant \<Rightarrow> RateController \<Rightarrow> duration \<Rightarrow> duration \<Rightarrow> 'h Coordinator" where
  "Coordinator_new H now rc test_duration control_interval = \<lparr>
     co_rate_controller = rc, co_tick_aggregate = AggregateMetrics_new H, co_total_aggregate = AggregateMetrics_new H,
     co_test_duration = test_duration, co_control_interval = control_interval, co_start_time = now, co_stopped = False,
     co_hold_state = Released, co_last_timer_dispatched = 0, co_last_timer_dropped = 0, co_max_requests = None,
     co_autostop_threshold = None, co_refusestop_threshold = None, co_warmup_duration = None, co_warmup_complete = False,
     co_target_bytes = None, co_sliding_window = SlidingWindow_new (control_interval * 3), co_last_assessment = Healthy,
     co_timer_commands = [], co_replies = []\<rparr>"

definition set_max_requests :: "u64 \<Rightarrow> 'h Coordinator \<Rightarrow> 'h Coordinator" where
  "set_max_requests n c = c\<lparr>co_max_requests := Some n\<rparr>"

definition set_target_bytes :: "u64 \<Rightarrow> 'h Coordinator \<Rightarrow> 'h Coordinator" where
  "set_target_bytes n c = c\<lparr>co_target_bytes := Some n\<rparr>"

definition set_autostop_threshold :: "u64 \<Rightarrow> 'h Coordinator \<Rightarrow> 'h Coordinator" where
  "set_autostop_threshold n c = c\<lparr>co_autostop_threshold := Some n\<rparr>"

definition set_refusestop_threshold :: "u64 \<Rightarrow> 'h Coordinator \<Rightarrow> 'h Coordinator" where
  "set_refusestop_threshold n c = c\<lparr>co_refusestop_threshold := Some n\<rparr>"

definition set_warmup_duration :: "duration \<Rightarrow> 'h Coordinator \<Rightarrow> 'h Coordinator" where
  "set_warmup_duration d c = c\<lparr>co_warmup_duration := Some d\<rparr>"

definition set_response_signal_configs :: "ResponseSignalConfig list \<Rightarrow> 'h Coordinator \<Rightarrow> 'h Coordinator" where
  "set_response_signal_configs configs c = c\<lparr>co_tick_aggregate := set_signal_configs configs (co_tick_aggregate c),
     co_total_aggregate := set_signal_configs configs (co_total_aggregate c)\<rparr>"

definition send_timer :: "TimerCommand \<Rightarrow> 'h Coordinator \<Rightarrow> 'h Coordinator" where
  "send_timer cmd c = c\<lparr>co_timer_commands := co_timer_commands c @ [cmd]\<rparr>"

definition distribute_rate :: "f64 \<Rightarrow> 'h Coordinator \<Rightarrow> 'h Coordinator" where
  "distribute_rate rps c = send_timer (TC_UpdateRate rps) c"

definition stop_workers :: "'h Coordinator \<Rightarrow> 'h Coordinator" where
  "stop_workers c = send_timer TC_Stop c"

definition reply :: "Reply \<Rightarrow> 'h Coordinator \<Rightarrow> 'h Coordinator" where
  "reply r c = c\<lparr>co_replies := co_replies c @ [r]\<rparr>"

definition handle_external_command :: "instant \<Rightarrow> WorkerCommand \<Rightarrow> 'h Coordinator \<Rightarrow> 'h Coordinator" where
  "handle_external_command now cmd c = (case cmd of
     WC_UpdateRate rps \<Rightarrow> send_timer (TC_UpdateRate rps) (c\<lparr>co_hold_state := Held rps\<rparr>)
   | WC_UpdateTargets ts \<Rightarrow> send_timer (TC_UpdateTargets ts) c
   | WC_UpdateMetadata hs \<Rightarrow> send_timer (TC_UpdateMetadata hs) c
   | WC_Stop \<Rightarrow> send_timer TC_Stop (c\<lparr>co_stopped := True\<rparr>)
   | WC_Hold (Hold rps) \<Rightarrow> c\<lparr>co_hold_state := Held rps\<rparr>
   | WC_Hold Release \<Rightarrow> c\<lparr>co_hold_state := Released\<rparr>
   | WC_ControllerUpdate action ps \<Rightarrow>
       (let (rc, r) = RateController_apply_update now action ps (co_rate_controller c)
        in reply (UpdateReply r) (c\<lparr>co_rate_controller := rc\<rparr>))
   | WC_ControllerInfo \<Rightarrow> reply (InfoReply \<lparr>cv_info = RateController_controller_info now (co_rate_controller c),
        cv_held = (case co_hold_state c of Held _ \<Rightarrow> True | Released \<Rightarrow> False),
        cv_held_rps = (case co_hold_state c of Held rps \<Rightarrow> Some rps | Released \<Rightarrow> None)\<rparr>) c)"

definition upsert :: "string \<times> f64 \<Rightarrow> (string \<times> f64) list \<Rightarrow> (string \<times> f64) list" where
  "upsert s target = (case update_first (\<lambda>(k, _). k = fst s) (\<lambda>(k, _). ((k, snd s), ())) target of
     Some (target', _) \<Rightarrow> target'
   | None \<Rightarrow> target @ [s])"

definition upsert_signals :: "(string \<times> f64) list \<Rightarrow> (string \<times> f64) list \<Rightarrow> (string \<times> f64) list" where
  "upsert_signals target source = fold upsert source target"

section \<open>Saturation\<close>

definition mean :: "u64 \<Rightarrow> u64 \<Rightarrow> u64" where
  "mean s n = (if n > 0 then s div n else 0)"

text \<open>The counters of the timer thread are read as they are at that moment.\<close>

definition compute_saturation ::
  "TimerStats \<Rightarrow> MetricsSummary \<Rightarrow> f64 \<Rightarrow> f64 \<Rightarrow> 'h Coordinator \<Rightarrow> 'h Coordinator \<times> SaturationInfo" where
  "compute_saturation stats summary target smoothed_rps c =
     (let a = co_tick_aggregate c;
          tick_dispatched = dispatched stats - co_last_timer_dispatched c;
          tick_dropped = dropped stats - co_last_timer_dropped c;
          backpressure = ratio tick_dropped (tick_dispatched + tick_dropped);
          n = ms_total_requests summary;
          delay_mean = mean (ag_total_delay_sum_ns a) n;
          delayed = ratio (ag_total_delay_count_over_1ms a) n;
          achievement = (if target > 0 then fmin (smoothed_rps / target) (lit 2) else 1);
          underachieving = (n > 0 \<and> achievement < lit (90/100));
          client = (backpressure > lit (1/100) \<or> delay_mean > 5000000 \<or> delayed > lit (10/100) \<or> underachieving);
          server = (ms_error_rate summary > lit (5/100) \<or> ms_latency_p99_ns summary > 5000000000);
          assessment = (if client then (if server then BothSaturated else ClientSaturated) else if server then ServerSaturated else Healthy)
      in (c\<lparr>co_last_timer_dispatched := dispatched stats, co_last_timer_dropped := dropped stats, co_last_assessment := assessment\<rparr>,
          \<lparr>si_backpressure_drops = tick_dropped, si_backpressure_ratio = backpressure,
           si_timer_lag_mean_ns = mean (ag_timer_lag_sum_ns a) n, si_timer_lag_max_ns = ag_timer_lag_max_ns a,
           si_channel_transit_mean_ns = mean (ag_channel_transit_sum_ns a) n, si_channel_transit_max_ns = ag_channel_transit_max_ns a,
           si_dispatch_gap_mean_ns = mean (ag_dispatch_gap_sum_ns a) n, si_dispatch_gap_max_ns = ag_dispatch_gap_max_ns a,
           si_scheduling_delay_mean_ns = delay_mean, si_scheduling_delay_max_ns = ag_total_delay_max_ns a,
           si_delayed_request_ratio = delayed, si_rate_achievement = achievement, si_cpu_affinity_ratio = cpu_affinity_ratio a,
           si_tcp_rtt_mean_ms = tcp_rtt_mean_us a / lit 1000, si_tcp_rtt_max_ms = f64_of_word (ag_tcp_rtt_max_us a) / lit 1000,
           si_tcp_retransmit_ratio = tcp_retransmit_ratio a, si_assessment = assessment,
           si_in_flight_drops = ag_in_flight_drops a, si_in_flight_count = ag_in_flight_count a,
           si_in_flight_capacity = ag_in_flight_capacity a\<rparr>))"

section \<open>Control tick\<close>

text \<open>
  What a tick reads: the queued commands, the snapshots of each worker, the polled and the pushed signals
  when such a source is set, the counters of the timer thread and the clock at the points where it is read.
\<close>

record 'h tick_input =
  ti_commands :: "WorkerCommand list"
  ti_snapshots :: "'h MetricsSnapshot list list"
  ti_polled :: "(string \<times> f64) list option"
  ti_pushed :: "(string \<times> f64) list option"
  ti_stats :: TimerStats
  ti_now :: instant
  ti_control_now :: instant
  ti_window_now :: instant
  ti_end :: instant

definition check_warmup :: "instant \<Rightarrow> 'h Coordinator \<Rightarrow> 'h Coordinator" where
  "check_warmup now c =
     (if co_warmup_complete c then c
      else case co_warmup_duration c of
          Some w \<Rightarrow> if duration_since now (co_start_time c) \<ge> w then c\<lparr>co_warmup_complete := True\<rparr> else c
        | None \<Rightarrow> c\<lparr>co_warmup_complete := True\<rparr>)"

definition collect_snapshot :: "'h hist_ops \<Rightarrow> 'h MetricsSnapshot \<Rightarrow> 'h Coordinator \<Rightarrow> 'h Coordinator" where
  "collect_snapshot H s c =
     (let c1 = c\<lparr>co_tick_aggregate := aggregate_merge H s (co_tick_aggregate c)\<rparr>
      in if co_warmup_complete c1 then c1\<lparr>co_total_aggregate := aggregate_merge H s (co_total_aggregate c1)\<rparr> else c1)"

definition tick_summary :: "'h hist_ops \<Rightarrow> 'h tick_input \<Rightarrow> 'h Coordinator \<Rightarrow> MetricsSummary" where
  "tick_summary H ti c =
     (let s = to_summary H (co_tick_aggregate c);
          s1 = (case ti_polled ti of None \<Rightarrow> s | Some xs \<Rightarrow> s\<lparr>ms_external_signals := upsert_signals (ms_external_signals s) xs\<rparr>)
      in case ti_pushed ti of None \<Rightarrow> s1 | Some xs \<Rightarrow> s1\<lparr>ms_external_signals := upsert_signals (ms_external_signals s1) xs\<rparr>)"

text \<open>\<open>None\<close> is a panic of the rate controller.\<close>

definition coordinator_tick :: "libm \<Rightarrow> 'h hist_ops \<Rightarrow> 'h tick_input \<Rightarrow> 'h Coordinator \<Rightarrow> ('h Coordinator \<times> RateDecision \<times> SaturationInfo) option" where
  "coordinator_tick m H ti c =
     (let c1 = check_warmup (ti_now ti) (fold (handle_external_command (ti_now ti)) (ti_commands ti) c);
          c2 = fold (collect_snapshot H) (concat (ti_snapshots ti)) (c1\<lparr>co_tick_aggregate := aggregate_reset H (co_tick_aggregate c1)\<rparr>);
          summary = tick_summary H ti c2
      in do {
           (rc, decision) \<leftarrow> (case co_hold_state c2 of
               Held rps \<Rightarrow> Some (co_rate_controller c2, \<lparr>target_rps = rps\<rparr>)
             | Released \<Rightarrow> RateController_update m (ti_control_now ti) summary (co_rate_controller c2));
           let w = window_push (ti_window_now ti) (ms_total_requests summary) (ms_total_errors summary) (ms_bytes_sent summary)
                 (ms_bytes_received summary) (co_sliding_window c2);
               c3 = distribute_rate (target_rps decision) (c2\<lparr>co_rate_controller := rc, co_sliding_window := w\<rparr>);
               (c4, sat) = compute_saturation (ti_stats ti) summary (target_rps decision) (window_request_rate w) c3
           in Some (c4, decision, sat)
         })"

definition reached :: "u64 option \<Rightarrow> u64 \<Rightarrow> bool" where
  "reached limit value = (case limit of None \<Rightarrow> False | Some l \<Rightarrow> value \<ge> l)"

definition is_test_complete :: "instant \<Rightarrow> 'h Coordinator \<Rightarrow> bool" where
  "is_test_complete now c \<longleftrightarrow> co_stopped c \<or> duration_since now (co_start_time c) \<ge> co_test_duration c
     \<or> reached (co_max_requests c) (ag_total_requests (co_total_aggregate c))
     \<or> reached (co_autostop_threshold c) (ag_total_errors (co_total_aggregate c))
     \<or> reached (co_refusestop_threshold c) (ag_total_errors (co_total_aggregate c))
     \<or> reached (co_target_bytes c) (ag_bytes_received (co_total_aggregate c))"

section \<open>The run\<close>

text \<open>The ticks until the test is complete; the flag tells whether it is, or the inputs have ended before.\<close>

fun coordinator_loop :: "libm \<Rightarrow> 'h hist_ops \<Rightarrow> 'h tick_input list \<Rightarrow> 'h Coordinator \<Rightarrow> ('h Coordinator \<times> bool) option" where
  "coordinator_loop m H [] c = Some (c, False)"
| "coordinator_loop m H (ti # tis) c = do {
     (c', _) \<leftarrow> coordinator_tick m H ti c;
     if is_test_complete (ti_end ti) c' then Some (c', True) else coordinator_loop m H tis c'
   }"

record TestResult =
  tres_total_requests :: u64
  tres_total_errors :: u64
  tres_duration :: duration
  tres_latency_p50 :: duration
  tres_latency_p90 :: duration
  tres_latency_p99 :: duration
  tres_latency_max :: duration
  tres_request_rate :: f64
  tres_error_rate :: f64
  tres_total_bytes_sent :: u64
  tres_total_bytes_received :: u64
  tres_throughput_send_mbps :: f64
  tres_throughput_recv_mbps :: f64
  tres_saturation :: SaturationInfo

definition final_saturation :: "TimerStats \<Rightarrow> 'h AggregateMetrics \<Rightarrow> SaturationInfo" where
  "final_saturation stats a =
     (let n = ag_total_requests a; delay_over_1ms = ag_total_delay_count_over_1ms a in
      \<lparr>si_backpressure_drops = dropped stats, si_backpressure_ratio = ratio (dropped stats) (dispatched stats + dropped stats),
       si_timer_lag_mean_ns = mean (ag_timer_lag_sum_ns a) n, si_timer_lag_max_ns = ag_timer_lag_max_ns a,
       si_channel_transit_mean_ns = mean (ag_channel_transit_sum_ns a) n, si_channel_transit_max_ns = ag_channel_transit_max_ns a,
       si_dispatch_gap_mean_ns = mean (ag_dispatch_gap_sum_ns a) n, si_dispatch_gap_max_ns = ag_dispatch_gap_max_ns a,
       si_scheduling_delay_mean_ns = mean (ag_total_delay_sum_ns a) n, si_scheduling_delay_max_ns = ag_total_delay_max_ns a,
       si_delayed_request_ratio = ratio delay_over_1ms n, si_rate_achievement = 1, si_cpu_affinity_ratio = cpu_affinity_ratio a,
       si_tcp_rtt_mean_ms = tcp_rtt_mean_us a / lit 1000, si_tcp_rtt_max_ms = f64_of_word (ag_tcp_rtt_max_us a) / lit 1000,
       si_tcp_retransmit_ratio = tcp_retransmit_ratio a,
       si_assessment = (if dropped stats > 0 \<or> f64_of_word delay_over_1ms / f64_of_word (max n 1) > lit (10/100) then ClientSaturated else Healthy),
       si_in_flight_drops = 0, si_in_flight_count = 0, si_in_flight_capacity = 0\<rparr>)"

text \<open>
  \<open>before\<close> and \<open>after\<close> are the snapshots found before and after the threads are joined; what happens during
  the joins is the other threads' business.
\<close>

definition collect_final_metrics ::
  "'h hist_ops \<Rightarrow> 'h MetricsSnapshot list list \<Rightarrow> 'h MetricsSnapshot list list \<Rightarrow> instant \<Rightarrow> TimerStats \<Rightarrow> 'h Coordinator \<Rightarrow> 'h Coordinator \<times> TestResult" where
  "collect_final_metrics H before after now stats c =
     (let a = fold (aggregate_merge H) (concat before @ concat after) (co_total_aggregate c);
          elapsed = duration_since now (co_start_time c); s = as_secs_f64 elapsed; n = ag_total_requests a; h = ag_histogram a
      in (c\<lparr>co_total_aggregate := a\<rparr>,
          \<lparr>tres_total_requests = n, tres_total_errors = ag_total_errors a, tres_duration = elapsed,
           tres_latency_p50 = unat (hist_value_at_quantile H (lit (50/100)) h), tres_latency_p90 = unat (hist_value_at_quantile H (lit (90/100)) h),
           tres_latency_p99 = unat (hist_value_at_quantile H (lit (99/100)) h), tres_latency_max = unat (hist_max H h),
           tres_request_rate = f64_of_word n / s, tres_error_rate = ratio (ag_total_errors a) n,
           tres_total_bytes_sent = ag_bytes_sent a, tres_total_bytes_received = ag_bytes_received a,
           tres_throughput_send_mbps = f64_of_word (ag_bytes_sent a) * lit 8 / s / lit 1000000,
           tres_throughput_recv_mbps = f64_of_word (ag_bytes_received a) * lit 8 / s / lit 1000000,
           tres_saturation = final_saturation stats a\<rparr>))"

record 'h final_input =
  fi_before :: "'h MetricsSnapshot list list"
  fi_after :: "'h MetricsSnapshot list list"
  fi_now :: instant
  fi_stats :: TimerStats

text \<open>The whole run: \<open>None\<close> a panic, \<open>Some (c, None)\<close> still running when the inputs end.\<close>

definition coordinator_run ::
  "libm \<Rightarrow> 'h hist_ops \<Rightarrow> 'h tick_input list \<Rightarrow> 'h final_input \<Rightarrow> 'h Coordinator \<Rightarrow> ('h Coordinator \<times> TestResult option) option" where
  "coordinator_run m H tis fi c = do {
     (c', complete) \<leftarrow> coordinator_loop m H tis (distribute_rate (RateController_current_rate (co_rate_controller c)) c);
     Some (if complete then map_prod id Some (collect_final_metrics H (fi_before fi) (fi_after fi) (fi_now fi) (fi_stats fi) (stop_workers c'))
           else (c', None))
   }"

section \<open>Live progress\<close>

definition PROMETHEUS_BUCKET_BOUNDS_NS :: "u64 list" where
  "PROMETHEUS_BUCKET_BOUNDS_NS = [1000000, 5000000, 10000000, 25000000, 50000000, 100000000, 250000000, 500000000,
     1000000000, 2500000000, 5000000000, 10000000000]"

definition histogram_to_prometheus_buckets :: "'h hist_ops \<Rightarrow> 'h \<Rightarrow> (f64 \<times> u64) list" where
  "histogram_to_prometheus_buckets H h =
     map (\<lambda>bound. (f64_of_word bound, hist_count_between H 0 bound h)) PROMETHEUS_BUCKET_BOUNDS_NS @ [(f64_infinity, hist_len H h)]"

end
