(* ===== verification/Coordinator_Safety.thy ===== *)
theory Coordinator_Safety
  imports Coordinator
begin

text \<open>
  What the coordinator guarantees over a whole run: its state stays well formed, it never panics and sends
  only finite, non-negative rates, it ends, and its result counts every snapshot once. The rate controller
  enters through the interpretation \<open>dyn_rate\<close> of its contract, the metrics through the homomorphisms into
  \<open>counters\<close>.
\<close>

section \<open>The sliding window as a list of entries\<close>

type_synonym window_entry = "instant \<times> u64 \<times> u64 \<times> u64 \<times> u64"

definition window_wf :: "SlidingWindow \<Rightarrow> bool" where
  "window_wf w \<longleftrightarrow> length (sw_total_requests w) = length (sw_timestamps w) \<and> length (sw_total_errors w) = length (sw_timestamps w)
     \<and> length (sw_bytes_sent w) = length (sw_timestamps w) \<and> length (sw_bytes_received w) = length (sw_timestamps w)"

definition window_entries :: "SlidingWindow \<Rightarrow> window_entry list" where
  "window_entries w = zip (sw_timestamps w) (zip (sw_total_requests w) (zip (sw_total_errors w) (zip (sw_bytes_sent w) (sw_bytes_received w))))"

lemma zip_tl: "zip (tl xs) (tl ys) = tl (zip xs ys)"
  by (cases xs; cases ys) simp_all

lemma pop_fronts_entries: "window_entries (pop_fronts w) = tl (window_entries w)"
  by (simp add: window_entries_def pop_fronts_def zip_tl)

lemma pop_fronts_wf: "window_wf w \<Longrightarrow> window_wf (pop_fronts w)"
  by (simp add: window_wf_def pop_fronts_def)

lemma evict_entries:
  "window_wf w \<Longrightarrow> window_wf (window_evict cutoff w) \<and> window_entries (window_evict cutoff w) = dropWhile (\<lambda>x. fst x < cutoff) (window_entries w)"
proof (induction cutoff w rule: window_evict.induct)
  case (1 cutoff w)
  show ?case
  proof (cases "sw_timestamps w")
    case Nil
    then show ?thesis using 1(2) by (subst (1 2) window_evict.simps) (simp add: window_entries_def)
  next
    case (Cons t ts)
    then obtain e es where e: "window_entries w = (t, e) # es"
      using 1(2) by (auto simp: window_entries_def window_wf_def length_Suc_conv)
    show ?thesis
    proof (cases "t \<ge> cutoff")
      case True
      then show ?thesis using 1(2) Cons e by (subst (1 2) window_evict.simps) simp
    next
      case False
      then have "window_evict cutoff w = window_evict cutoff (pop_fronts w)" using Cons by (subst window_evict.simps) simp
      then show ?thesis using 1(1)[OF Cons False pop_fronts_wf[OF 1(2)]] False e by (simp add: pop_fronts_entries)
    qed
  qed
qed

lemma window_push_entries:
  assumes "window_wf w"
  shows "window_wf (window_push now r e s v w) \<and> window_entries (window_push now r e s v w)
    = dropWhile (\<lambda>x. fst x < now - int (sw_window_duration w)) (window_entries w @ [(now, r, e, s, v)])"
proof -
  let ?w = "w\<lparr>sw_timestamps := sw_timestamps w @ [now], sw_total_requests := sw_total_requests w @ [r],
      sw_total_errors := sw_total_errors w @ [e], sw_bytes_sent := sw_bytes_sent w @ [s], sw_bytes_received := sw_bytes_received w @ [v]\<rparr>"
  have "window_wf ?w" "window_entries ?w = window_entries w @ [(now, r, e, s, v)]"
    using assms by (simp_all add: window_wf_def window_entries_def)
  then show ?thesis using evict_entries[of ?w "now - int (sw_window_duration w)"] by (simp add: window_push_def)
qed

section \<open>Well-formed coordinators\<close>

definition rate_command_ok :: "TimerCommand \<Rightarrow> bool" where
  "rate_command_ok x = (case x of TC_UpdateRate r \<Rightarrow> rate_ok r | _ \<Rightarrow> True)"

definition coordinator_ok :: "'h Coordinator \<Rightarrow> bool" where
  "coordinator_ok c \<longleftrightarrow> controller_ok (co_rate_controller c) \<and> (case co_hold_state c of Held r \<Rightarrow> rate_ok r | Released \<Rightarrow> True)
     \<and> list_all rate_command_ok (co_timer_commands c) \<and> window_wf (co_sliding_window c)"

text \<open>
  Commands of an operator with finite, non-negative rates. The arbiter's \<^verbatim>\<open>set_min_rps\<close> is excluded: it accepts
  a minimum above the maximum.
\<close>

definition command_fine :: "WorkerCommand \<Rightarrow> bool" where
  "command_fine cmd = (case cmd of
     WC_UpdateRate r \<Rightarrow> rate_ok r
   | WC_Hold (Hold r) \<Rightarrow> rate_ok r
   | WC_ControllerUpdate action ps \<Rightarrow> action \<noteq> ''set_min_rps'' \<and> (\<forall>k v. p_f64 ps k = Some v \<longrightarrow> rate_ok v)
   | _ \<Rightarrow> True)"

lemma Arbiter_apply_update_fine:
  assumes "arbiter_ok ab" "action \<noteq> ''set_min_rps''" "\<forall>k v. p_f64 ps k = Some v \<longrightarrow> rate_ok v"
  shows "arbiter_ok (fst (Arbiter_apply_update action ps ab))"
proof -
  consider "action = ''set_max_rps''" | rest where "action = ''constraint.'' @ rest"
    | "action \<noteq> ''set_max_rps''" "strip_prefix ''constraint.'' action = None"
    using strip_prefix_Some by (cases "strip_prefix ''constraint.'' action") blast+
  then show ?thesis
  proof cases
    case 1
    then show ?thesis using apply_update_set_max_ok[OF assms(1), of ps] assms(3) by (metis prod.collapse rate_ok_def)
  next
    case 2
    then show ?thesis using apply_update_constraint_ok[OF assms(1)] by (metis prod.collapse)
  next
    case 3
    then show ?thesis using assms(1,2) by (simp add: Arbiter_apply_update_def)
  qed
qed

lemma RateController_apply_update_fine:
  assumes "controller_ok c" "action \<noteq> ''set_min_rps''" "\<forall>k v. p_f64 ps k = Some v \<longrightarrow> rate_ok v"
  shows "controller_ok (fst (RateController_apply_update now action ps c))"
proof (cases c)
  case (StaticRate s)
  then show ?thesis using assms
    by (auto simp: static_apply_update_def static_set_rate_def Let_def split: option.split)
next
  case (StepRate s)
  then show ?thesis using assms
    by (auto simp: step_apply_update_def step_set_rate_def jump_to_step_def step_ok_def Let_def split: option.split prod.split sum.split)
next
  case (ArbiterRate a)
  then show ?thesis using Arbiter_apply_update_fine[of a action ps] assms by simp
qed

lemma handle_external_command_ok:
  assumes "coordinator_ok c" "command_fine cmd" shows "coordinator_ok (handle_external_command now cmd c)"
proof (cases cmd)
  case (WC_ControllerUpdate action ps)
  then show ?thesis using assms RateController_apply_update_fine[of "co_rate_controller c" action ps now]
    by (auto simp: handle_external_command_def coordinator_ok_def command_fine_def reply_def split_beta Let_def)
qed (use assms in \<open>auto simp: handle_external_command_def coordinator_ok_def command_fine_def reply_def send_timer_def
      rate_command_ok_def split: HoldCommand.splits\<close>)

lemma fold_commands_ok:
  "\<lbrakk>coordinator_ok c; \<forall>cmd \<in> set cmds. command_fine cmd\<rbrakk> \<Longrightarrow> coordinator_ok (fold (handle_external_command now) cmds c)"
  by (induction cmds arbitrary: c) (auto intro: handle_external_command_ok)

lemma check_warmup_fields [simp]:
  "co_rate_controller (check_warmup now c) = co_rate_controller c" "co_hold_state (check_warmup now c) = co_hold_state c"
  "co_timer_commands (check_warmup now c) = co_timer_commands c" "co_sliding_window (check_warmup now c) = co_sliding_window c"
  "co_start_time (check_warmup now c) = co_start_time c" "co_test_duration (check_warmup now c) = co_test_duration c"
  "co_total_aggregate (check_warmup now c) = co_total_aggregate c" "co_warmup_duration (check_warmup now c) = co_warmup_duration c"
  "co_control_interval (check_warmup now c) = co_control_interval c"
  by (simp_all add: check_warmup_def split: option.split)

lemma collect_snapshots_fields [simp]:
  "co_rate_controller (fold (collect_snapshot H) ss c) = co_rate_controller c" "co_hold_state (fold (collect_snapshot H) ss c) = co_hold_state c"
  "co_timer_commands (fold (collect_snapshot H) ss c) = co_timer_commands c" "co_sliding_window (fold (collect_snapshot H) ss c) = co_sliding_window c"
  "co_start_time (fold (collect_snapshot H) ss c) = co_start_time c" "co_test_duration (fold (collect_snapshot H) ss c) = co_test_duration c"
  "co_warmup_complete (fold (collect_snapshot H) ss c) = co_warmup_complete c" "co_warmup_duration (fold (collect_snapshot H) ss c) = co_warmup_duration c"
  "co_control_interval (fold (collect_snapshot H) ss c) = co_control_interval c"
  by (induction ss arbitrary: c) (simp_all add: collect_snapshot_def Let_def)

lemma collect_snapshots_total:
  "co_total_aggregate (fold (collect_snapshot H) ss c) =
     (if co_warmup_complete c then fold (aggregate_merge H) ss (co_total_aggregate c) else co_total_aggregate c)"
  by (induction ss arbitrary: c) (simp_all add: collect_snapshot_def Let_def)

lemma compute_saturation_fields [simp]:
  "co_rate_controller (fst (compute_saturation st su t r c)) = co_rate_controller c" "co_hold_state (fst (compute_saturation st su t r c)) = co_hold_state c"
  "co_timer_commands (fst (compute_saturation st su t r c)) = co_timer_commands c"
  "co_sliding_window (fst (compute_saturation st su t r c)) = co_sliding_window c"
  "co_start_time (fst (compute_saturation st su t r c)) = co_start_time c" "co_test_duration (fst (compute_saturation st su t r c)) = co_test_duration c"
  "co_total_aggregate (fst (compute_saturation st su t r c)) = co_total_aggregate c"
  "co_warmup_complete (fst (compute_saturation st su t r c)) = co_warmup_complete c"
  "co_warmup_duration (fst (compute_saturation st su t r c)) = co_warmup_duration c"
  by (simp_all add: compute_saturation_def Let_def)

lemma handle_external_fields [simp]:
  "co_start_time (handle_external_command now cmd c) = co_start_time c" "co_test_duration (handle_external_command now cmd c) = co_test_duration c"
  "co_total_aggregate (handle_external_command now cmd c) = co_total_aggregate c"
  "co_warmup_complete (handle_external_command now cmd c) = co_warmup_complete c"
  "co_warmup_duration (handle_external_command now cmd c) = co_warmup_duration c"
  by (auto simp: handle_external_command_def send_timer_def reply_def split_beta Let_def split: WorkerCommand.split HoldCommand.split)

lemma fold_commands_fields [simp]:
  "co_start_time (fold (handle_external_command now) cmds c) = co_start_time c"
  "co_test_duration (fold (handle_external_command now) cmds c) = co_test_duration c"
  "co_total_aggregate (fold (handle_external_command now) cmds c) = co_total_aggregate c"
  "co_warmup_complete (fold (handle_external_command now) cmds c) = co_warmup_complete c"
  "co_warmup_duration (fold (handle_external_command now) cmds c) = co_warmup_duration c"
  by (induction cmds arbitrary: c) simp_all

text \<open>What a tick that does not panic leaves.\<close>

lemma coordinator_tick_Some:
  assumes "coordinator_tick m H ti c = Some (c', d, sat)"
  shows "co_start_time c' = co_start_time c" "co_test_duration c' = co_test_duration c" "co_warmup_duration c' = co_warmup_duration c"
    "co_warmup_complete c' = co_warmup_complete (check_warmup (ti_now ti) c)"
    "co_total_aggregate c' = (if co_warmup_complete c' then fold (aggregate_merge H) (concat (ti_snapshots ti)) (co_total_aggregate c)
      else co_total_aggregate c)"
proof -
  have w: "co_warmup_complete (check_warmup now (fold (handle_external_command now) cmds c)) = co_warmup_complete (check_warmup now c)" for now cmds
    by (simp add: check_warmup_def split: option.split)
  define c2 where "c2 = fold (collect_snapshot H) (concat (ti_snapshots ti))
    ((check_warmup (ti_now ti) (fold (handle_external_command (ti_now ti)) (ti_commands ti) c))
      \<lparr>co_tick_aggregate := aggregate_reset H (co_tick_aggregate (check_warmup (ti_now ti) (fold (handle_external_command (ti_now ti)) (ti_commands ti) c)))\<rparr>)"
  obtain rc wn st su t r where c': "c' = fst (compute_saturation st su t r (distribute_rate t (c2\<lparr>co_rate_controller := rc, co_sliding_window := wn\<rparr>)))"
    using assms by (auto simp: coordinator_tick_def Let_def bind_Some_iff split_beta c2_def[symmetric])
  show "co_start_time c' = co_start_time c" "co_test_duration c' = co_test_duration c" "co_warmup_duration c' = co_warmup_duration c"
    "co_warmup_complete c' = co_warmup_complete (check_warmup (ti_now ti) c)"
    "co_total_aggregate c' = (if co_warmup_complete c' then fold (aggregate_merge H) (concat (ti_snapshots ti)) (co_total_aggregate c)
      else co_total_aggregate c)"
    by (simp_all add: c' c2_def distribute_rate_def send_timer_def w collect_snapshots_total)
qed

lemma coordinator_tick_ok:
  assumes "coordinator_ok c" "\<forall>cmd \<in> set (ti_commands ti). command_fine cmd"
  shows "\<exists>c' d sat. coordinator_tick m H ti c = Some (c', d, sat) \<and> coordinator_ok c'"
proof -
  define c1 where "c1 = check_warmup (ti_now ti) (fold (handle_external_command (ti_now ti)) (ti_commands ti) c)"
  define c2 where "c2 = fold (collect_snapshot H) (concat (ti_snapshots ti)) (c1\<lparr>co_tick_aggregate := aggregate_reset H (co_tick_aggregate c1)\<rparr>)"
  define summary where "summary = tick_summary H ti c2"
  have ok2: "coordinator_ok c2"
    using fold_commands_ok[OF assms] by (simp add: c2_def c1_def coordinator_ok_def)
  obtain rc d where d: "(case co_hold_state c2 of Held rps \<Rightarrow> Some (co_rate_controller c2, \<lparr>target_rps = rps\<rparr>)
      | Released \<Rightarrow> RateController_update m (ti_control_now ti) summary (co_rate_controller c2)) = Some (rc, d)"
    "controller_ok rc" "rate_ok (target_rps d)"
  proof (cases "co_hold_state c2")
    case Released
    then show thesis using that dyn_rate.update_total[of "co_rate_controller c2" m "ti_control_now ti" summary] ok2
      by (auto simp: coordinator_ok_def)
  next
    case (Held r)
    then show thesis using that[of "co_rate_controller c2" "\<lparr>target_rps = r\<rparr>"] ok2 by (simp add: coordinator_ok_def)
  qed
  define w where "w = window_push (ti_window_now ti) (ms_total_requests summary) (ms_total_errors summary) (ms_bytes_sent summary)
                 (ms_bytes_received summary) (co_sliding_window c2)"
  have "window_wf w" using ok2 window_push_entries unfolding w_def coordinator_ok_def by blast
  then have "coordinator_ok (fst (compute_saturation (ti_stats ti) summary (target_rps d) (window_request_rate w)
      (distribute_rate (target_rps d) (c2\<lparr>co_rate_controller := rc, co_sliding_window := w\<rparr>))))"
    using ok2 d(2,3) by (simp add: coordinator_ok_def distribute_rate_def send_timer_def rate_command_ok_def)
  moreover have "coordinator_tick m H ti c = (let (c4, sat) = compute_saturation (ti_stats ti) summary (target_rps d) (window_request_rate w)
      (distribute_rate (target_rps d) (c2\<lparr>co_rate_controller := rc, co_sliding_window := w\<rparr>)) in Some (c4, d, sat))"
    unfolding coordinator_tick_def Let_def c1_def[symmetric] c2_def[symmetric] summary_def[symmetric] d(1) w_def by simp
  ultimately show ?thesis by (simp add: split_beta Let_def)
qed

section \<open>Runs\<close>

definition inputs_fine :: "'h tick_input list \<Rightarrow> bool" where
  "inputs_fine tis \<longleftrightarrow> (\<forall>ti \<in> set tis. \<forall>cmd \<in> set (ti_commands ti). command_fine cmd)"

lemma coordinator_loop_ok:
  "\<lbrakk>coordinator_ok c; inputs_fine tis\<rbrakk> \<Longrightarrow> \<exists>c' b. coordinator_loop m H tis c = Some (c', b) \<and> coordinator_ok c'"
proof (induction tis arbitrary: c)
  case (Cons ti tis)
  obtain c1 d sat where t: "coordinator_tick m H ti c = Some (c1, d, sat)" "coordinator_ok c1"
    using coordinator_tick_ok[OF Cons.prems(1), of ti m H] Cons.prems(2) by (auto simp: inputs_fine_def)
  then show ?case using Cons.IH[OF t(2)] Cons.prems(2) by (auto simp: inputs_fine_def)
qed auto

lemma build_current_rate_ok:
  assumes "config_ok rate" "build_rate_controller trace_ok rate ci start td now path = Inr rc"
  shows "rate_ok (RateController_current_rate rc)"
proof (cases rc)
  case (StaticRate s)
  then show ?thesis using build_rate_controller_ok[OF assms] by simp
next
  case (StepRate s)
  then show ?thesis using assms
    by (auto simp: build_rate_controller_def StepRateController_new_def config_ok_def split: RateConfig.splits list.splits sum.splits)
next
  case (ArbiterRate a)
  then show ?thesis using build_rate_controller_ok[OF assms] by (simp add: arbiter_ok_def)
qed

lemma coordinator_start_ok:
  assumes "config_ok rate" "build_rate_controller trace_ok rate ci start td now path = Inr rc"
  shows "coordinator_ok (distribute_rate (RateController_current_rate rc) (Coordinator_new H t rc dur interval))"
  using build_rate_controller_ok[OF assms] build_current_rate_ok[OF assms]
  by (simp add: coordinator_ok_def distribute_rate_def send_timer_def Coordinator_new_def rate_command_ok_def
      SlidingWindow_new_def window_wf_def)

lemma coordinator_loop_completes:
  assumes "coordinator_ok c" "inputs_fine tis" "0 < length tis"
    "\<forall>k < length tis. co_start_time c + int k0 * int interval + int (Suc k) * int interval \<le> ti_end (tis ! k)"
    "int (co_test_duration c) \<le> int (k0 + length tis) * int interval"
  shows "\<exists>c'. coordinator_loop m H tis c = Some (c', True) \<and> coordinator_ok c'"
  using assms
proof (induction tis arbitrary: c k0)
  case (Cons ti tis)
  obtain c1 d sat where t: "coordinator_tick m H ti c = Some (c1, d, sat)" "coordinator_ok c1"
    using coordinator_tick_ok[OF Cons.prems(1), of ti m H] Cons.prems(2) by (auto simp: inputs_fine_def)
  note f = coordinator_tick_Some[OF t(1)]
  show ?case
  proof (cases "is_test_complete (ti_end ti) c1")
    case True
    then show ?thesis using t by simp
  next
    case False
    have "tis \<noteq> []"
    proof
      assume "tis = []"
      then have "int (co_test_duration c1) \<le> ti_end ti - co_start_time c1"
        using Cons.prems(4,5) f by (fastforce simp: distrib_right)
      then show False using False by (auto simp: is_test_complete_def duration_since_def)
    qed
    moreover have "\<forall>k < length tis. co_start_time c1 + int (Suc k0) * int interval + int (Suc k) * int interval \<le> ti_end (tis ! k)"
    proof (intro allI impI)
      fix k assume "k < length tis"
      then show "co_start_time c1 + int (Suc k0) * int interval + int (Suc k) * int interval \<le> ti_end (tis ! k)"
        using Cons.prems(4)[rule_format, of "Suc k"] f(1) by (simp add: algebra_simps)
    qed
    moreover have "int (co_test_duration c1) \<le> int (Suc k0 + length tis) * int interval" using Cons.prems(5) f(2) by simp
    ultimately show ?thesis using Cons.IH[OF t(2), of "Suc k0"] Cons.prems(2) t False by (simp add: inputs_fine_def)
  qed
qed simp

lemma coordinator_run_Some_iff:
  "coordinator_run m H tis fi c = Some (c', Some r) \<longleftrightarrow>
     (\<exists>c1. coordinator_loop m H tis (distribute_rate (RateController_current_rate (co_rate_controller c)) c) = Some (c1, True)
       \<and> collect_final_metrics H (fi_before fi) (fi_after fi) (fi_now fi) (fi_stats fi) (stop_workers c1) = (c', r))"
proof (cases "coordinator_loop m H tis (distribute_rate (RateController_current_rate (co_rate_controller c)) c)")
  case None
  then show ?thesis by (simp add: coordinator_run_def)
next
  case (Some x)
  obtain c1 b where x: "x = (c1, b)" by fastforce
  obtain c2 r2 where "collect_final_metrics H (fi_before fi) (fi_after fi) (fi_now fi) (fi_stats fi) (stop_workers c1) = (c2, r2)" by fastforce
  then show ?thesis using Some x by (cases b) (simp_all add: coordinator_run_def)
qed

text \<open>
  The ticks whose snapshots count: without a warmup all, otherwise those from the end of the warmup on.
\<close>

definition counts :: "'h Coordinator \<Rightarrow> 'h tick_input \<Rightarrow> bool" where
  "counts c ti = (case co_warmup_duration c of None \<Rightarrow> True | Some w \<Rightarrow> duration_since (ti_now ti) (co_start_time c) \<ge> w)"

definition counted_snapshots :: "'h Coordinator \<Rightarrow> 'h tick_input list \<Rightarrow> 'h MetricsSnapshot list" where
  "counted_snapshots c tis = concat (map (concat \<circ> ti_snapshots) (filter (counts c) tis))"

lemma counts_cong: "\<lbrakk>co_warmup_duration c' = co_warmup_duration c; co_start_time c' = co_start_time c\<rbrakk> \<Longrightarrow> counts c' = counts c"
  by (simp add: counts_def fun_eq_iff split: option.split)

text \<open>\<open>n\<close> ticks are made: after fewer the loop goes on, and the later inputs are not read.\<close>

lemma coordinator_loop_total:
  assumes "coordinator_loop m H tis c = Some (c', b)" "sorted (map ti_now tis)"
    "co_warmup_complete c \<longrightarrow> (\<forall>ti \<in> set tis. counts c ti)"
  shows "\<exists>n \<le> length tis. (\<forall>k < n. \<exists>c1. coordinator_loop m H (take k tis) c = Some (c1, False)) \<and> coordinator_loop m H (take n tis) c = Some (c', b)
    \<and> co_total_aggregate c' = fold (aggregate_merge H) (counted_snapshots c (take n tis)) (co_total_aggregate c)"
  using assms
proof (induction tis arbitrary: c)
  case Nil
  then show ?case by (simp add: counted_snapshots_def)
next
  case (Cons ti tis)
  obtain c1 d sat where t: "coordinator_tick m H ti c = Some (c1, d, sat)"
    "(if is_test_complete (ti_end ti) c1 then Some (c1, True) else coordinator_loop m H tis c1) = Some (c', b)"
    using Cons.prems(1) by (auto simp: bind_Some_iff)
  note f = coordinator_tick_Some[OF t(1)]
  have cnt: "counts c1 = counts c" using f(1,3) by (intro counts_cong)
  have w: "co_warmup_complete c1 \<longleftrightarrow> counts c ti"
    using Cons.prems(3) f(4) by (auto simp: check_warmup_def counts_def split: option.splits)
  have one: "co_total_aggregate c1 = fold (aggregate_merge H) (counted_snapshots c [ti]) (co_total_aggregate c)"
    using f(5) w by (simp add: counted_snapshots_def)
  show ?case
  proof (cases "is_test_complete (ti_end ti) c1")
    case True
    then show ?thesis using t one by (intro exI[of _ 1]) simp
  next
    case False
    have "\<forall>ti' \<in> set tis. ti_now ti \<le> ti_now ti'" using Cons.prems(2) by simp
    then have "counts c ti \<Longrightarrow> \<forall>ti' \<in> set tis. counts c ti'"
      by (auto simp: counts_def split: option.splits dest: duration_since_mono order_trans)
    then obtain n where n: "n \<le> length tis" "\<forall>k < n. \<exists>c2. coordinator_loop m H (take k tis) c1 = Some (c2, False)"
      "coordinator_loop m H (take n tis) c1 = Some (c', b)"
      "co_total_aggregate c' = fold (aggregate_merge H) (counted_snapshots c1 (take n tis)) (co_total_aggregate c1)"
      using Cons.IH[of c1] t(2) False Cons.prems(2) w cnt by auto
    have "\<exists>c2. coordinator_loop m H (take k (ti # tis)) c = Some (c2, False)" if "k < Suc n" for k
      using that n(2) t(1) False by (cases k) simp_all
    then show ?thesis using one cnt n t(1) False
      by (intro exI[of _ "Suc n"]) (simp add: counted_snapshots_def)
  qed
qed

lemma run_totals:
  assumes "coordinator_run m H tis fi c0 = Some (c, Some r)" "sorted (map ti_now tis)"
    "c0 = (case warmup of None \<Rightarrow> Coordinator_new H t rc dur interval | Some d \<Rightarrow> set_warmup_duration d (Coordinator_new H t rc dur interval))"
  shows "\<exists>n \<le> length tis. (\<forall>k < n. \<exists>c1. coordinator_run m H (take k tis) fi c0 = Some (c1, None)) \<and> coordinator_run m H (take n tis) fi c0 = Some (c, Some r)
    \<and> aggregate_counters (co_total_aggregate c) = sum_list (map snapshot_counters
        (counted_snapshots c0 (take n tis) @ concat (fi_before fi) @ concat (fi_after fi)))"
proof -
  let ?c = "distribute_rate (RateController_current_rate (co_rate_controller c0)) c0"
  have c0: "co_warmup_complete ?c = False" "co_total_aggregate ?c = AggregateMetrics_new H" "counts ?c = counts c0"
    using assms(3) by (auto simp: Coordinator_new_def distribute_rate_def send_timer_def set_warmup_duration_def counts_def
        split: option.splits)
  obtain c1 where c1: "coordinator_loop m H tis ?c = Some (c1, True)"
    "collect_final_metrics H (fi_before fi) (fi_after fi) (fi_now fi) (fi_stats fi) (stop_workers c1) = (c, r)"
    using assms(1) unfolding coordinator_run_Some_iff by blast
  obtain n where n: "n \<le> length tis" "\<forall>k < n. \<exists>c2. coordinator_loop m H (take k tis) ?c = Some (c2, False)"
    "coordinator_loop m H (take n tis) ?c = Some (c1, True)"
    "co_total_aggregate c1 = fold (aggregate_merge H) (counted_snapshots ?c (take n tis)) (AggregateMetrics_new H)"
    using coordinator_loop_total[OF c1(1) assms(2)] c0 by auto
  let ?ss = "counted_snapshots c0 (take n tis) @ concat (fi_before fi) @ concat (fi_after fi)"
  have "co_total_aggregate c = fold (aggregate_merge H) ?ss (AggregateMetrics_new H)"
    using c1(2) n(4) c0(3) by (auto simp: collect_final_metrics_def stop_workers_def send_timer_def counted_snapshots_def Let_def)
  moreover have "aggregate_counters (AggregateMetrics_new H) = 0"
    by (simp add: AggregateMetrics_new_def aggregate_counters_def zero_counters_def)
  ultimately have "aggregate_counters (co_total_aggregate c) = sum_list (map snapshot_counters ?ss)"
    by (simp only: merge_all_counters add_0)
  moreover have "\<exists>c2. coordinator_run m H (take k tis) fi c0 = Some (c2, None)" if "k < n" for k
    using n(2)[rule_format, OF that] by (auto simp: coordinator_run_def)
  moreover have "coordinator_run m H (take n tis) fi c0 = Some (c, Some r)" using n(3) c1(2) unfolding coordinator_run_Some_iff by blast
  ultimately show ?thesis using n(1) by blast
qed

lemma result_counters:
  assumes "coordinator_run m H tis fi c0 = Some (c, Some r)"
  shows "tres_total_requests r = cn_requests (aggregate_counters (co_total_aggregate c))"
    "tres_total_errors r = cn_errors (aggregate_counters (co_total_aggregate c))"
    "tres_total_bytes_sent r = cn_sent (aggregate_counters (co_total_aggregate c))"
    "tres_total_bytes_received r = cn_received (aggregate_counters (co_total_aggregate c))"
  using assms by (auto simp: coordinator_run_Some_iff collect_final_metrics_def aggregate_counters_def Let_def)

section \<open>Properties of the coordinator\<close>

text \<open>
  The five queues of the sliding window always have the same length, and read together they are exactly
  the entries pushed, without the oldest ones that have left the window.
\<close>

theorem sliding_window_well_formed:
  assumes "window_wf w"
  shows "window_wf (window_push now r e s v w) \<and> window_entries (window_push now r e s v w)
    = dropWhile (\<lambda>x. fst x < now - int (sw_window_duration w)) (window_entries w @ [(now, r, e, s, v)])"
  by (rule window_push_entries[OF assms])

theorem sliding_window_well_formed_witness:
  "window_entries (window_push 30 7 0 1 2 \<lparr>sw_timestamps = [5, 20], sw_total_requests = [3, 4], sw_total_errors = [0, 0],
     sw_bytes_sent = [8, 9], sw_bytes_received = [6, 6], sw_window_duration = 15\<rparr>) = [(20, 4, 0, 9, 6), (30, 7, 0, 1, 2)]"
  using sliding_window_well_formed[of "\<lparr>sw_timestamps = [5, 20], sw_total_requests = [3, 4], sw_total_errors = [0, 0],
     sw_bytes_sent = [8, 9], sw_bytes_received = [6, 6], sw_window_duration = 15\<rparr>" 30 7 0 1 2]
  by (simp add: window_wf_def window_entries_def)


text \<open>
  C6. A test ends: when every tick ends at least one control interval after the one before (the thread
  sleeps that long), the run returns a result within as many ticks as control intervals fit the test
  duration, rounded up, and its last command tells the timer thread to stop.
\<close>

theorem run_completes:
  assumes "config_ok rate" "build_rate_controller trace_ok rate ci start td now path = Inr rc" "inputs_fine tis"
    "0 < length tis" "\<forall>k < length tis. t + int (Suc k) * int interval \<le> ti_end (tis ! k)" "dur \<le> length tis * interval"
  shows "\<exists>c r. coordinator_run m H tis fi (Coordinator_new H t rc dur interval) = Some (c, Some r)
    \<and> last (co_timer_commands c) = TC_Stop"
proof -
  let ?c = "distribute_rate (RateController_current_rate rc) (Coordinator_new H t rc dur interval)"
  have f: "co_start_time ?c = t" "co_test_duration ?c = dur" "co_rate_controller (Coordinator_new H t rc dur interval) = rc"
    by (simp_all add: distribute_rate_def send_timer_def Coordinator_new_def)
  have "int dur \<le> int (0 + length tis) * int interval" using assms(6) by (simp flip: of_nat_mult)
  then obtain c where "coordinator_loop m H tis ?c = Some (c, True)"
    using coordinator_loop_completes[OF coordinator_start_ok[OF assms(1,2), of H t dur interval] assms(3,4), of 0 interval m H] assms(5) f by auto
  then show ?thesis using f(3) by (simp add: coordinator_run_def collect_final_metrics_def stop_workers_def send_timer_def Let_def)
qed

text \<open>
  C7. The result of a test counts every snapshot exactly once: the totals of a completed run are those of all
  snapshots received in the \<open>n\<close> ticks it made, without the ticks before the end of the warmup, and of the
  snapshots that arrive while the threads are joined. The run made \<open>n\<close> ticks: with fewer inputs it is still running,
  and with just these it ends.
\<close>

theorem run_counts_snapshots_once:
  assumes "coordinator_run m H tis fi c0 = Some (c, Some r)" "sorted (map ti_now tis)"
    "c0 = (case warmup of None \<Rightarrow> Coordinator_new H t rc dur interval | Some d \<Rightarrow> set_warmup_duration d (Coordinator_new H t rc dur interval))"
  shows "\<exists>n \<le> length tis. (\<forall>k < n. \<exists>c1. coordinator_run m H (take k tis) fi c0 = Some (c1, None)) \<and> coordinator_run m H (take n tis) fi c0 = Some (c, Some r)
    \<and> (let total = sum_list (map snapshot_counters (counted_snapshots c0 (take n tis) @ concat (fi_before fi) @ concat (fi_after fi)))
       in aggregate_counters (co_total_aggregate c) = total \<and> tres_total_requests r = cn_requests total \<and> tres_total_errors r = cn_errors total
      \<and> tres_total_bytes_sent r = cn_sent total \<and> tres_total_bytes_received r = cn_received total)"
proof -
  obtain n where "n \<le> length tis" "\<forall>k < n. \<exists>c1. coordinator_run m H (take k tis) fi c0 = Some (c1, None)"
    "coordinator_run m H (take n tis) fi c0 = Some (c, Some r)" "aggregate_counters (co_total_aggregate c) = sum_list (map snapshot_counters
        (counted_snapshots c0 (take n tis) @ concat (fi_before fi) @ concat (fi_after fi)))"
    using run_totals[OF assms] by blast
  then show ?thesis using result_counters[OF assms(1)] unfolding Let_def by metis
qed

section \<open>Example run\<close>

definition demo_snapshot :: "u64 multiset MetricsSnapshot" where
  "demo_snapshot = snd (collector_snapshot mset_hist 5 \<lparr>pcd_sent = 0, pcd_received = 0, pcd_lost = 0\<rparr>
     (collector_record mset_hist (\<lambda>_. []) (demo_result 7 None) demo_metrics))"

definition demo_tick :: "instant \<Rightarrow> u64 multiset tick_input" where
  "demo_tick t = \<lparr>ti_commands = [WC_Hold (Hold (lit 50))], ti_snapshots = [[demo_snapshot]], ti_polled = Some [(''load'', lit 3)], ti_pushed = None,
     ti_stats = TimerStats_new, ti_now = t, ti_control_now = t, ti_window_now = t, ti_end = t\<rparr>"

definition demo_final :: "u64 multiset final_input" where
  "demo_final = \<lparr>fi_before = [], fi_after = [[demo_snapshot]], fi_now = 25, fi_stats = TimerStats_new\<rparr>"

abbreviation demo_rc :: RateController where
  "demo_rc \<equiv> StaticRate (StaticRateController_new (lit 100))"

lemma demo_build: "config_ok (RC_Static (lit 100))" "build_rate_controller False (RC_Static (lit 100)) 10 0 20 0 None = Inr demo_rc"
  by (simp_all add: config_ok_def rate_ok_def f64_eval build_rate_controller_def flip: lit_01)

lemma demo_inputs: "inputs_fine [demo_tick 10, demo_tick 20]"
  by (simp add: inputs_fine_def demo_tick_def command_fine_def rate_ok_def f64_eval flip: lit_01)


theorem run_completes_witness:
  "\<exists>c r. coordinator_run demo_libm mset_hist [demo_tick 10, demo_tick 20] demo_final (Coordinator_new mset_hist 0 demo_rc 20 10) = Some (c, Some r)
    \<and> last (co_timer_commands c) = TC_Stop"
  by (rule run_completes[OF demo_build demo_inputs]) (auto simp: demo_tick_def less_Suc_eq)

lemma demo_completes:
  "\<exists>c r. coordinator_run demo_libm mset_hist [demo_tick 10, demo_tick 20] demo_final (Coordinator_new mset_hist 0 demo_rc 20 10) = Some (c, Some r)"
proof -
  let ?c = "distribute_rate (RateController_current_rate demo_rc) (Coordinator_new mset_hist 0 demo_rc 20 10)"
  have "\<exists>c'. coordinator_loop demo_libm mset_hist [demo_tick 10, demo_tick 20] ?c = Some (c', True) \<and> coordinator_ok c'"
    by (rule coordinator_loop_completes[OF coordinator_start_ok[OF demo_build] demo_inputs, where interval = 10 and ?k0.0 = 0])
      (auto simp: demo_tick_def less_Suc_eq distribute_rate_def send_timer_def Coordinator_new_def)
  moreover have "co_rate_controller (Coordinator_new mset_hist 0 demo_rc 20 10) = demo_rc" by (simp add: Coordinator_new_def)
  ultimately show ?thesis unfolding coordinator_run_Some_iff by (metis prod.collapse)
qed

theorem run_counts_snapshots_once_witness:
  "\<exists>c r n. coordinator_run demo_libm mset_hist [demo_tick 10, demo_tick 20] demo_final (Coordinator_new mset_hist 0 demo_rc 20 10) = Some (c, Some r)
    \<and> n \<le> 2 \<and> tres_total_requests r = of_nat (n + 1)"
proof -
  let ?c0 = "Coordinator_new mset_hist 0 demo_rc 20 10"
  obtain c r where r: "coordinator_run demo_libm mset_hist [demo_tick 10, demo_tick 20] demo_final ?c0 = Some (c, Some r)"
    using demo_completes by blast
  obtain n where n: "n \<le> length [demo_tick 10, demo_tick 20]"
    "tres_total_requests r = cn_requests (sum_list (map snapshot_counters
      (counted_snapshots ?c0 (take n [demo_tick 10, demo_tick 20]) @ concat (fi_before demo_final) @ concat (fi_after demo_final))))"
    using run_counts_snapshots_once[OF r, where warmup = None and t = 0 and rc = demo_rc and dur = 20 and interval = 10]
    by (auto simp: demo_tick_def Let_def)
  have plus: "cn_requests (a + b) = cn_requests a + cn_requests b" for a b by (cases a; cases b) simp
  have one: "cn_requests (snapshot_counters demo_snapshot) = 1"
    by (simp add: demo_snapshot_def snapshot_counters_eq record_counters demo_metrics_def with_packet_source_fresh contribution_def
        is_timeout_def demo_result_def Let_def)
  have "tres_total_requests r = of_nat (n + 1)"
    using n by (auto simp: counted_snapshots_def counts_def Coordinator_new_def demo_tick_def demo_final_def plus one le_Suc_eq numeral_2_eq_2
        zero_counters_def)
  moreover have "n \<le> 2" using n(1) by simp
  ultimately show ?thesis using r by blast
qed

end
