(* ===== verification/Test_Spec.thy ===== *)
theory Test_Spec
  imports Builder Metrics Schedulers
begin

text \<open>
  Test specifications of the leader (\<^verbatim>\<open>netanvil-distributed/src/test_spec.rs\<close>) and the test configuration they become
  (\<^verbatim>\<open>netanvil-types/src/config.rs\<close>): test ids and time stamps, duration texts, and the conversion of a specification.
  Texts are ASCII. Shown: the calendar conversion and the duration parser are exact, when two ids coincide, and
  that a converted specification keeps its rates.
\<close>

section \<open>Numbers as text\<close>

text \<open>Formatting in base \<open>b\<close> with zero padding (\<^verbatim>\<open>{:02}\<close>, \<^verbatim>\<open>{:04x}\<close>), and \<^verbatim>\<open>str::parse::<u64>\<close>.\<close>

definition digit_char :: "nat \<Rightarrow> char" where
  "digit_char n = char_of (if n < 10 then 48 + n else 87 + n)"

fun radix :: "nat \<Rightarrow> nat \<Rightarrow> string" where
  "radix b n = (if n < b \<or> b < 2 then [digit_char n] else radix b (n div b) @ [digit_char (n mod b)])"

declare radix.simps [simp del]

abbreviation dec :: "nat \<Rightarrow> string" where
  "dec \<equiv> radix 10"

definition pad :: "nat \<Rightarrow> string \<Rightarrow> string" where
  "pad w s = replicate (w - length s) (CHR ''0'') @ s"

definition parse_u64 :: "string \<Rightarrow> nat option" where
  "parse_u64 s =
     (let ds = (case s of c # d # ds \<Rightarrow> if c = CHR ''+'' then d # ds else s | _ \<Rightarrow> s)
      in if ds \<noteq> [] \<and> list_all is_digit ds \<and> digits_value ds < 2 ^ 64 then Some (digits_value ds) else None)"

definition is_space :: "char \<Rightarrow> bool" where
  "is_space c \<longleftrightarrow> (of_char c :: nat) \<in> {9, 10, 11, 12, 13, 32}"

definition trim :: "string \<Rightarrow> string" where
  "trim s = rev (dropWhile is_space (rev (dropWhile is_space s)))"

definition strip_suffix :: "string \<Rightarrow> string \<Rightarrow> string option" where
  "strip_suffix p s = map_option rev (strip_prefix (rev p) (rev s))"

section \<open>Calendar and test ids\<close>

definition is_leap :: "nat \<Rightarrow> bool" where
  "is_leap y \<longleftrightarrow> y mod 4 = 0 \<and> (y mod 100 \<noteq> 0 \<or> y mod 400 = 0)"

function year_loop :: "nat \<Rightarrow> nat \<Rightarrow> nat \<times> nat" where
  "year_loop days year =
     (let days_in_year = (if is_leap year then 366 else 365)
      in if days < days_in_year then (year, days) else year_loop (days - days_in_year) (year + 1))"
  by pat_completeness auto

termination
  by (relation "measure fst") auto

declare year_loop.simps [simp del]

fun month_loop :: "nat list \<Rightarrow> nat \<Rightarrow> nat \<Rightarrow> nat \<times> nat" where
  "month_loop [] days month = (month, days)"
| "month_loop (md # mds) days month = (if days < md then (month, days) else month_loop mds (days - md) (month + 1))"

definition month_days :: "bool \<Rightarrow> nat list" where
  "month_days leap = [31, if leap then 29 else 28, 31, 30, 31, 30, 31, 31, 30, 31, 30, 31]"

type_synonym utc = "nat \<times> nat \<times> nat \<times> nat \<times> nat \<times> nat"

text \<open>No intermediate value exceeds the argument by more than the epoch, so the 64-bit arithmetic is exact.\<close>

definition secs_to_utc :: "nat \<Rightarrow> utc" where
  "secs_to_utc t =
     (let total_mins = t div 60; total_hours = total_mins div 60;
          (year, days) = year_loop (total_hours div 24) 1970;
          (month, days') = month_loop (month_days (is_leap year)) days 1
      in (year, month, days' + 1, total_hours mod 24, total_mins mod 60, t mod 60))"

text \<open>A point of system time is its distance from the epoch; times before it become zero (\<^verbatim>\<open>unwrap_or_default\<close>).\<close>

type_synonym system_time = int

definition since_epoch :: "system_time \<Rightarrow> duration" where
  "since_epoch t = nat t"

definition TestId_generate :: "system_time \<Rightarrow> string" where
  "TestId_generate t =
     (let now = since_epoch t; s = now div 1000000000; nanos = now mod 1000000000;
          (y, m, d, hh, mm, ss) = secs_to_utc s;
          rand_suffix = ucast ((word_of_nat nanos :: u32) XOR (word_of_nat s * 2654435761)) :: u16
      in ''t-'' @ pad 4 (dec y) @ pad 2 (dec m) @ pad 2 (dec d) @ ''-'' @ pad 2 (dec hh) @ pad 2 (dec mm) @ pad 2 (dec ss)
         @ ''-'' @ pad 4 (radix 16 (unat rand_suffix)))"

definition format_timestamp :: "system_time \<Rightarrow> string" where
  "format_timestamp t =
     (let (y, mo, d, h, mi, s) = secs_to_utc (since_epoch t div 1000000000)
      in pad 4 (dec y) @ ''-'' @ pad 2 (dec mo) @ ''-'' @ pad 2 (dec d) @ ''T'' @ pad 2 (dec h) @ '':'' @ pad 2 (dec mi) @ '':''
         @ pad 2 (dec s) @ ''Z'')"

section \<open>Durations\<close>

datatype DurationError =
  EmptyDuration | InvalidMillis string | InvalidHours string | InvalidMinutes string | InvalidSeconds string | InvalidDuration string

text \<open>The outer \<open>None\<close> is the panic of \<^verbatim>\<open>Duration::from_secs_f64\<close>.\<close>

definition in_secs :: "f64 option \<Rightarrow> DurationError \<Rightarrow> (DurationError + duration) option" where
  "in_secs n e = (case n of None \<Rightarrow> Some (Inl e) | Some x \<Rightarrow> map_option Inr (from_secs_f64 x))"

definition parse_duration :: "string \<Rightarrow> (DurationError + duration) option" where
  "parse_duration str =
     (let s = trim str in
      if s = [] then Some (Inl EmptyDuration)
      else case strip_suffix ''ms'' s of
        Some ms \<Rightarrow> Some (case parse_u64 ms of None \<Rightarrow> Inl (InvalidMillis ms) | Some n \<Rightarrow> Inr (millis n))
      | None \<Rightarrow> (case strip_suffix ''h'' s of
        Some h \<Rightarrow> in_secs (map_option (\<lambda>n. n * lit 3600) (parse_f64 h)) (InvalidHours h)
      | None \<Rightarrow> (case strip_suffix ''m'' s of
        Some m \<Rightarrow> in_secs (map_option (\<lambda>n. n * lit 60) (parse_f64 m)) (InvalidMinutes m)
      | None \<Rightarrow> (case strip_suffix ''s'' s of
        Some x \<Rightarrow> in_secs (parse_f64 x) (InvalidSeconds x)
      | None \<Rightarrow> in_secs (parse_f64 s) (InvalidDuration s)))))"


section \<open>Test specification and configuration\<close>

text \<open>
  The configuration of a test (\<^verbatim>\<open>config.rs\<close>) and the body of \<^verbatim>\<open>POST /tests\<close>. The size distributions of the TCP protocol
  and the plugin source are carried along only; distributions are a type parameter.
\<close>

datatype 'd ProtocolConfig =
    PC_Tcp (pc_mode: string) (pc_payload_hex: string) (pc_framing: string) (pc_request_size: 'd) (pc_response_size: 'd)
  | PC_Udp string bool
  | PC_Dns string string bool
  | PC_Redis "string option" "u16 option" string "string list"

datatype PluginType = PT_Hybrid | PT_Lua | PT_Wasm | PT_Js

record PluginConfig =
  pl_plugin_type :: PluginType
  pl_source :: bytes

datatype HttpVersion = Http1 | Http2 | Http2c | HttpAuto

datatype SchedulerConfig = SchedConstantRate | SchedPoisson "u64 option"

datatype DnsMode = DM_V4 | DM_V6 | DM_PreferV4 | DM_PreferV6

record ConnectionConfig =
  cc_max_connections_per_core :: nat
  cc_connect_timeout :: duration
  cc_request_timeout :: duration
  cc_connection_policy :: ConnectionPolicy
  cc_dns_mode :: "DnsMode option"
  cc_max_in_flight_per_core :: nat

definition ConnectionConfig_default :: ConnectionConfig where
  "ConnectionConfig_default = \<lparr>cc_max_connections_per_core = 100, cc_connect_timeout = secs 5, cc_request_timeout = secs 30,
     cc_connection_policy = KeepAlive, cc_dns_mode = None, cc_max_in_flight_per_core = 0\<rparr>"

record TlsClientConfig =
  tls_client_cert :: "string option"
  tls_client_key :: "string option"
  tls_ca_cert :: "string option"
  tls_verify_server :: bool
  tls_sni_override :: "string option"
  tls_cipher_list :: "string option"
  tls_disable_session_resumption :: bool

record EventLogOutput =
  el_output_dir :: string
  el_sample_rate :: f64

record 'd TestConfig =
  cfg_targets :: "string list"
  cfg_method :: string
  cfg_duration :: duration
  cfg_rate :: RateConfig
  cfg_scheduler :: SchedulerConfig
  cfg_headers :: "(string \<times> string) list"
  cfg_num_cores :: nat
  cfg_connections :: ConnectionConfig
  cfg_control_interval :: duration
  cfg_error_status_threshold :: u16
  cfg_external_metrics_url :: "string option"
  cfg_external_metrics_field :: "string option"
  cfg_bandwidth_limit_bps :: "u64 option"
  cfg_warmup_duration :: "duration option"
  cfg_max_requests :: "u64 option"
  cfg_autostop_threshold :: "u64 option"
  cfg_refusestop_threshold :: "u64 option"
  cfg_graceful_shutdown :: bool
  cfg_plugin :: "PluginConfig option"
  cfg_protocol :: "'d ProtocolConfig option"
  cfg_http_version :: HttpVersion
  cfg_tls_client :: "TlsClientConfig option"
  cfg_target_bytes :: "u64 option"
  cfg_tracked_response_headers :: "string list"
  cfg_md5_check_enabled :: bool
  cfg_response_signal_headers :: "ResponseSignalConfig list"
  cfg_event_log :: "EventLogOutput option"
  cfg_health_sample_rate :: f64
  cfg_control_trace :: "string option"

record WarmupSpecConfig =
  ws_rps :: f64
  ws_duration :: string

datatype GainsSpecConfig = GS_Auto string f64 | GS_Manual f64 f64 f64

record SetpointSpecConstraintConfig =
  ss_id :: string
  ss_metric :: MetricRef
  ss_smoother :: "SmootherConfig option"
  ss_target :: f64
  ss_gains :: GainsSpecConfig
  ss_tracking_gain :: f64

datatype ConstraintSpecConfig = CS_Threshold ThresholdConstraintConfig | CS_Setpoint SetpointSpecConstraintConfig

datatype RateSpecConfig =
    RS_Static f64
  | RS_Step "(string \<times> f64) list"
  | RS_Adaptive BoundsConfig "WarmupSpecConfig option" "f64 option" "ConstraintSpecConfig list"

record 'd TestSpec =
  spec_targets :: "string list"
  spec_method :: string
  spec_duration :: string
  spec_rate :: RateSpecConfig
  spec_headers :: "(string \<times> string) list"
  spec_num_cores :: nat
  spec_timeout :: string
  spec_error_status_threshold :: u16
  spec_scheduler :: SchedulerConfig
  spec_http_version :: HttpVersion
  spec_protocol :: "'d ProtocolConfig option"
  spec_plugin :: "PluginConfig option"
  spec_connection_policy :: "ConnectionPolicy option"
  spec_external_metrics_url :: "string option"
  spec_external_metrics_field :: "string option"
  spec_max_requests :: "u64 option"
  spec_autostop_threshold :: "u64 option"
  spec_health_sample_rate :: f64
  spec_control_trace :: "string option"

text \<open>
  A conversion gives an error naming the field that does not parse, a value, or \<open>None\<close> when it panics.
\<close>

datatype SpecError =
    BadDuration DurationError | BadTimeout DurationError | BadStepDuration DurationError | BadWarmupDuration DurationError
  | BadAutotuneDuration DurationError

type_synonym 'a spec_result = "(SpecError + 'a) option"

definition spec_bind :: "'a spec_result \<Rightarrow> ('a \<Rightarrow> 'b spec_result) \<Rightarrow> 'b spec_result" where
  "spec_bind x f = (case x of None \<Rightarrow> None | Some (Inl e) \<Rightarrow> Some (Inl e) | Some (Inr v) \<Rightarrow> f v)"

definition spec_duration_of :: "(DurationError \<Rightarrow> SpecError) \<Rightarrow> string \<Rightarrow> duration spec_result" where
  "spec_duration_of err s = map_option (map_sum err id) (parse_duration s)"

fun collect_results :: "('a \<Rightarrow> 'b spec_result) \<Rightarrow> 'a list \<Rightarrow> 'b list spec_result" where
  "collect_results f [] = Some (Inr [])"
| "collect_results f (x # xs) = spec_bind (f x) (\<lambda>y. spec_bind (collect_results f xs) (\<lambda>ys. Some (Inr (y # ys))))"

definition convert_gains_spec :: "GainsSpecConfig \<Rightarrow> GainsConfig spec_result" where
  "convert_gains_spec spec = (case spec of
     GS_Auto autotune_duration smoothing \<Rightarrow>
       spec_bind (spec_duration_of BadAutotuneDuration autotune_duration) (\<lambda>d. Some (Inr (GC_Auto d smoothing)))
   | GS_Manual kp ki kd \<Rightarrow> Some (Inr (GC_Manual kp ki kd)))"

definition convert_constraint_spec :: "ConstraintSpecConfig \<Rightarrow> ConstraintConfig spec_result" where
  "convert_constraint_spec spec = (case spec of
     CS_Threshold tc \<Rightarrow> Some (Inr (CC_Threshold tc))
   | CS_Setpoint sc \<Rightarrow> spec_bind (convert_gains_spec (ss_gains sc)) (\<lambda>gains.
       Some (Inr (CC_Setpoint \<lparr>scc_id = ss_id sc, scc_metric = ss_metric sc, scc_smoother = ss_smoother sc,
         scc_target = ss_target sc, scc_gains = gains, scc_tracking_gain = ss_tracking_gain sc\<rparr>))))"

definition convert_rate :: "RateSpecConfig \<Rightarrow> RateConfig spec_result" where
  "convert_rate spec = (case spec of
     RS_Static rps \<Rightarrow> Some (Inr (RC_Static rps))
   | RS_Step steps \<Rightarrow>
       spec_bind (collect_results (\<lambda>(dur, rps). spec_bind (spec_duration_of BadStepDuration dur) (\<lambda>d. Some (Inr (d, rps)))) steps)
         (\<lambda>parsed. Some (Inr (RC_Step parsed)))
   | RS_Adaptive bounds warmup initial constraints \<Rightarrow>
       spec_bind (case warmup of
           Some w \<Rightarrow> spec_bind (spec_duration_of BadWarmupDuration (ws_duration w))
             (\<lambda>d. Some (Inr (Some \<lparr>wc_rps = ws_rps w, wc_duration = d\<rparr>)))
         | None \<Rightarrow> Some (Inr None)) (\<lambda>wu.
       spec_bind (collect_results convert_constraint_spec constraints) (\<lambda>cs.
         Some (Inr (RC_Adaptive \<lparr>ac_bounds = bounds, ac_warmup = wu, ac_initial_rps = initial, ac_constraints = cs,
           ac_increase = None, ac_cooldown = None, ac_floor = None, ac_rate_change_limits = None\<rparr>)))))"

definition into_config :: "'d TestSpec \<Rightarrow> 'd TestConfig spec_result" where
  "into_config spec =
     spec_bind (spec_duration_of BadDuration (spec_duration spec)) (\<lambda>duration.
     spec_bind (spec_duration_of BadTimeout (spec_timeout spec)) (\<lambda>timeout.
     spec_bind (convert_rate (spec_rate spec)) (\<lambda>rate.
     let c = ConnectionConfig_default\<lparr>cc_request_timeout := timeout\<rparr>;
         connections = (case spec_connection_policy spec of Some policy \<Rightarrow> c\<lparr>cc_connection_policy := policy\<rparr> | None \<Rightarrow> c)
     in Some (Inr \<lparr>
       cfg_targets = spec_targets spec, cfg_method = spec_method spec, cfg_duration = duration, cfg_rate = rate,
       cfg_scheduler = spec_scheduler spec, cfg_headers = spec_headers spec, cfg_num_cores = spec_num_cores spec,
       cfg_connections = connections, cfg_control_interval = secs 3,
       cfg_error_status_threshold = spec_error_status_threshold spec,
       cfg_external_metrics_url = spec_external_metrics_url spec, cfg_external_metrics_field = spec_external_metrics_field spec,
       cfg_bandwidth_limit_bps = None, cfg_warmup_duration = None, cfg_max_requests = spec_max_requests spec,
       cfg_autostop_threshold = spec_autostop_threshold spec, cfg_refusestop_threshold = None, cfg_graceful_shutdown = True,
       cfg_plugin = spec_plugin spec, cfg_protocol = spec_protocol spec, cfg_http_version = spec_http_version spec,
       cfg_tls_client = None, cfg_target_bytes = None, cfg_tracked_response_headers = [], cfg_md5_check_enabled = False,
       cfg_response_signal_headers = [], cfg_event_log = None, cfg_health_sample_rate = spec_health_sample_rate spec,
       cfg_control_trace = spec_control_trace spec\<rparr>))))"

section \<open>Text round trips\<close>

definition digit_value :: "char \<Rightarrow> nat" where
  "digit_value c = (let n = of_char c in if n < 58 then n - 48 else n - 87)"

definition radix_value :: "nat \<Rightarrow> string \<Rightarrow> nat" where
  "radix_value b s = foldl (\<lambda>v c. v * b + digit_value c) 0 s"

lemma digit_value_char: "n < 36 \<Longrightarrow> digit_value (digit_char n) = n"
  by (simp add: digit_value_def digit_char_def Let_def)

lemma radix_value_radix: "\<lbrakk>2 \<le> b; b \<le> 36\<rbrakk> \<Longrightarrow> radix_value b (radix b n) = n"
proof (induction b n rule: radix.induct)
  case (1 b n)
  have "n mod b < 36" using 1(2,3) mod_less_divisor[of b n] by linarith
  then show ?case using 1 by (subst radix.simps) (auto simp: radix_value_def digit_value_char)
qed

lemma radix_value_pad: "radix_value b (pad w s) = radix_value b s"
proof -
  have "foldl (\<lambda>v c. v * b + digit_value c) 0 (replicate k (CHR ''0'')) = 0" for k
    by (induction k) (simp_all add: digit_value_def)
  then show ?thesis by (simp add: radix_value_def pad_def)
qed

lemma pad_inject: "\<lbrakk>2 \<le> b; b \<le> 36\<rbrakk> \<Longrightarrow> pad w (radix b n) = pad w (radix b n') \<longleftrightarrow> n = n'"
  by (metis radix_value_pad radix_value_radix)

lemma length_radix: "\<lbrakk>2 \<le> b; n < b ^ w; 0 < w\<rbrakk> \<Longrightarrow> length (radix b n) \<le> w"
proof (induction b n arbitrary: w rule: radix.induct)
  case (1 b n)
  show ?case
  proof (cases "n < b")
    case True
    then show ?thesis using 1(4) by (subst radix.simps) simp
  next
    case False
    obtain v where v: "w = Suc v" using 1(4) by (cases w) auto
    then have "n div b < b ^ v" "0 < v"
      using 1(2,3) False by (auto simp: less_mult_imp_div_less mult.commute intro: gr0I)
    then show ?thesis using 1(1)[of v] 1(2) False v by (subst radix.simps) simp
  qed
qed

lemma length_pad: "length s \<le> w \<Longrightarrow> length (pad w s) = w"
  by (simp add: pad_def)

lemma length_pad_dec: "n < 100 \<Longrightarrow> length (pad 2 (dec n)) = 2"
  by (simp add: length_pad length_radix)

lemma dec_text_digits: "list_all is_digit (dec n)" "dec n \<noteq> []"
proof -
  have d: "is_digit (digit_char k)" if "k < 10" for k using that by (simp add: is_digit_def digit_char_def)
  show "list_all is_digit (dec n)"
  proof (induction n rule: less_induct)
    case (less n)
    then show ?case by (subst radix.simps) (simp add: d)
  qed
  show "dec n \<noteq> []" by (subst radix.simps) simp
qed

lemma digits_value_dec: "digits_value (dec n) = n"
proof -
  have "digits_value s = radix_value 10 s" if "list_all is_digit s" for s
    using that by (induction s rule: rev_induct) (auto simp: digits_value_def radix_value_def digit_value_def is_digit_def Let_def)
  then show ?thesis by (simp add: dec_text_digits radix_value_radix)
qed


section \<open>The civil calendar\<close>

text \<open>The Gregorian calendar in closed form: days before a year and before a month, and the second of a date.\<close>

definition days_before_year :: "nat \<Rightarrow> nat" where
  "days_before_year y = 365 * (y - 1970) + ((y - 1) div 4 + (y - 1) div 400 - (y - 1) div 100) - 477"

definition days_before_month :: "bool \<Rightarrow> nat \<Rightarrow> nat" where
  "days_before_month leap m = (367 * m - 362) div 12 - (if m \<le> 2 then 0 else if leap then 1 else 2)"

fun utc_to_secs :: "utc \<Rightarrow> nat" where
  "utc_to_secs (y, m, d, hh, mm, ss) =
     (((days_before_year y + days_before_month (is_leap y) m + (d - 1)) * 24 + hh) * 60 + mm) * 60 + ss"

fun utc_valid :: "utc \<Rightarrow> bool" where
  "utc_valid (y, m, d, hh, mm, ss) \<longleftrightarrow> 1970 \<le> y \<and> 1 \<le> m \<and> m \<le> 12 \<and> 1 \<le> d \<and> d \<le> month_days (is_leap y) ! (m - 1)
     \<and> hh < 24 \<and> mm < 60 \<and> ss < 60"

lemma days_before_year_Suc:
  assumes "1970 \<le> y"
  shows "days_before_year (Suc y) = days_before_year y + (if is_leap y then 366 else 365)"
proof -
  obtain x where y: "y = Suc x" "1969 \<le> x" using assms by (cases y) auto
  let ?i = "\<lambda>k. if Suc x mod k = 0 then 1 else 0 :: nat"
  have div: "Suc x div k = x div k + ?i k" for k by (simp add: div_Suc)
  have "492 \<le> x div 4" "4 \<le> x div 400" using div_le_mono[OF y(2), of 4] div_le_mono[OF y(2), of 400] by simp_all
  moreover have "x div 100 = x div 4 div 25" by (simp flip: div_mult2_eq)
  moreover have "25 * (x div 4 div 25) \<le> x div 4" by simp
  ultimately have ge: "477 + x div 100 \<le> x div 4 + x div 400" by linarith
  have i: "?i 100 \<le> ?i 4" "?i 400 \<le> ?i 100" using dvd_trans[of 4 100 "Suc x"] dvd_trans[of 100 400 "Suc x"] by auto
  have leap: "(if is_leap (Suc x) then 366 else 365) = 365 + (?i 4 + ?i 400 - ?i 100)"
    using i by (auto simp: is_leap_def split: if_splits)
  have *: "365 * Suc k + ((a + i) + (c + j) - (b + l)) - 477 = 365 * k + (a + c - b) - 477 + (365 + (i + j - l))"
    if "477 + b \<le> a + c" "l \<le> i" for a b c i j k l :: nat using that by simp
  have S: "Suc (Suc x) - 1970 = Suc (Suc x - 1970)" using y(2) by linarith
  show ?thesis unfolding days_before_year_def y(1) diff_Suc_1 div leap S by (rule *[OF ge i(1)])
qed

lemma year_loop_correct:
  assumes "1970 \<le> y0" "year_loop days0 y0 = (y, days)"
  shows "1970 \<le> y \<and> days < (if is_leap y then 366 else 365) \<and> days_before_year y + days = days_before_year y0 + days0"
  using assms
proof (induction days0 y0 rule: year_loop.induct)
  case (1 d y0)
  show ?case
  proof (cases "d < (if is_leap y0 then 366 else 365)")
    case True
    then show ?thesis using 1(2,3) year_loop.simps[of d y0] by (simp add: Let_def)
  next
    case False
    then show ?thesis using 1(1)[OF refl False] 1(2,3) year_loop.simps[of d y0] days_before_year_Suc[of y0]
      by (auto simp: Let_def split: if_splits)
  qed
qed

lemma month_loop_takes:
  assumes "month_loop mds days0 m0 = (m, d)" "days0 < sum_list mds"
  shows "m0 \<le> m \<and> m - m0 < length mds \<and> d < mds ! (m - m0) \<and> sum_list (take (m - m0) mds) + d = days0"
  using assms
proof (induction mds days0 m0 rule: month_loop.induct)
  case (2 md mds days month)
  show ?case
  proof (cases "days < md")
    case False
    then have *: "Suc month \<le> m \<and> m - Suc month < length mds \<and> d < mds ! (m - Suc month) \<and> sum_list (take (m - Suc month) mds) + d = days - md"
      using 2 by simp
    then have "m - month = Suc (m - Suc month)" by linarith
    then show ?thesis using * False by (simp, linarith)
  qed (use 2 in simp)
qed simp

lemma sum_month_days: "sum_list (month_days leap) = (if leap then 366 else 365)"
  by (simp add: month_days_def)

lemma days_before_month_take: "1 \<le> m \<Longrightarrow> m \<le> 12 \<Longrightarrow> days_before_month leap m = sum_list (take (m - 1) (month_days leap))"
proof -
  have "list_all (\<lambda>m. days_before_month leap m = sum_list (take (m - 1) (month_days leap))) [1..<13]"
    by (simp add: upt_rec days_before_month_def month_days_def)
  then show "1 \<le> m \<Longrightarrow> m \<le> 12 \<Longrightarrow> ?thesis" unfolding list_all_iff set_upt by simp
qed

lemma month_loop_correct:
  assumes "month_loop (month_days leap) days 1 = (m, d)" "days < (if leap then 366 else 365)"
  shows "1 \<le> m \<and> m \<le> 12 \<and> d < month_days leap ! (m - 1) \<and> days_before_month leap m + d = days"
proof -
  have "length (month_days leap) = 12" by (simp add: month_days_def)
  then show ?thesis using month_loop_takes[OF assms(1)] assms(2) days_before_month_take[of m leap] by (auto simp: sum_month_days)
qed

lemma days_before_1970: "days_before_year 1970 = 0"
  by (simp add: days_before_year_def)

lemma secs_to_utc_correct: "utc_valid (secs_to_utc t) \<and> utc_to_secs (secs_to_utc t) = t"
proof -
  obtain y days where y: "year_loop (t div 60 div 60 div 24) 1970 = (y, days)" by fastforce
  obtain m d where m: "month_loop (month_days (is_leap y)) days 1 = (m, d)" by fastforce
  note yc = year_loop_correct[OF _ y] and mc = month_loop_correct[OF m]
  have "((t div 60 div 60 div 24 * 24 + t div 60 div 60 mod 24) * 60 + t div 60 mod 60) * 60 + t mod 60 = t"
    by (simp only: div_mult_mod_eq)
  moreover have "days_before_year y + days_before_month (is_leap y) m + d = t div 60 div 60 div 24"
    using yc mc by (simp add: days_before_1970)
  ultimately show ?thesis using y m yc mc by (simp add: secs_to_utc_def Let_def Suc_le_eq)
qed


section \<open>Test ids\<close>

text \<open>The id as one text of its parts, and that the parts can be read back.\<close>

definition id_text :: "utc \<Rightarrow> u16 \<Rightarrow> string" where
  "id_text u x = (let (y, m, d, hh, mm, ss) = u in
     ''t-'' @ pad 4 (dec y) @ pad 2 (dec m) @ pad 2 (dec d) @ ''-'' @ pad 2 (dec hh) @ pad 2 (dec mm) @ pad 2 (dec ss)
       @ ''-'' @ pad 4 (radix 16 (unat x)))"

lemma utc_small:
  assumes "utc_valid (y, m, d, hh, mm, ss)" shows "m < 100" "d < 100" "hh < 100" "mm < 100" "ss < 100"
proof -
  have l: "list_all (\<lambda>n. n \<le> 31) (month_days leap)" "length (month_days leap) = 12" for leap by (simp_all add: month_days_def)
  have "m - 1 < 12" using assms by auto
  then have "month_days (is_leap y) ! (m - 1) \<le> 31" using l unfolding list_all_length by metis
  then show "m < 100" "d < 100" "hh < 100" "mm < 100" "ss < 100" using assms by auto
qed

lemma pad2_append:
  assumes "pad 2 (dec a) @ r = pad 2 (dec a') @ r'" "a < 100" "a' < 100" shows "a = a' \<and> r = r'"
proof -
  have "pad 2 (dec a) = pad 2 (dec a') \<and> r = r'"
    using assms(1) length_pad_dec[OF assms(2)] length_pad_dec[OF assms(3)] by (metis append_eq_append_conv)
  then show ?thesis by (simp add: pad_inject)
qed

lemma id_text_inject:
  assumes "utc_valid u" "utc_valid u'" "id_text u x = id_text u' x'" shows "u = u' \<and> x = x'"
proof -
  obtain y m d hh mm ss y' m' d' hh' mm' ss' where u: "u = (y, m, d, hh, mm, ss)" "u' = (y', m', d', hh', mm', ss')"
    by (metis prod_cases6)
  note v = utc_small[of y m d hh mm ss] utc_small[of y' m' d' hh' mm' ss']
  have x4: "length (pad 4 (radix 16 (unat z))) = 4" for z :: u16
    using length_radix[of 16 "unat z" 4] unsigned_less[of z] by (intro length_pad) simp
  let ?t = "\<lambda>m d hh mm ss x. pad 2 (dec m) @ pad 2 (dec d) @ ''-'' @ pad 2 (dec hh) @ pad 2 (dec mm) @ pad 2 (dec ss)
       @ ''-'' @ pad 4 (radix 16 (unat (x :: u16)))"
  have len: "length (?t m d hh mm ss x) = length (?t m' d' hh' mm' ss' x')"
    using assms(1,2) v u by (simp add: length_pad_dec x4)
  have "pad 4 (dec y) @ ?t m d hh mm ss x = pad 4 (dec y') @ ?t m' d' hh' mm' ss' x'"
    using assms(3) u by (simp add: id_text_def)
  then have y: "pad 4 (dec y) = pad 4 (dec y')" and t: "?t m d hh mm ss x = ?t m' d' hh' mm' ss' x'"
    using len append_eq_append_conv by blast+
  have m: "m = m'" "pad 2 (dec d) @ ''-'' @ pad 2 (dec hh) @ pad 2 (dec mm) @ pad 2 (dec ss) @ ''-'' @ pad 4 (radix 16 (unat x))
      = pad 2 (dec d') @ ''-'' @ pad 2 (dec hh') @ pad 2 (dec mm') @ pad 2 (dec ss') @ ''-'' @ pad 4 (radix 16 (unat x'))"
    using pad2_append[OF t] v assms(1,2) u by simp_all
  have d: "d = d'" "pad 2 (dec hh) @ pad 2 (dec mm) @ pad 2 (dec ss) @ ''-'' @ pad 4 (radix 16 (unat x))
      = pad 2 (dec hh') @ pad 2 (dec mm') @ pad 2 (dec ss') @ ''-'' @ pad 4 (radix 16 (unat x'))"
    using pad2_append[OF m(2)] v assms(1,2) u by simp_all
  have h: "hh = hh'" "pad 2 (dec mm) @ pad 2 (dec ss) @ ''-'' @ pad 4 (radix 16 (unat x))
      = pad 2 (dec mm') @ pad 2 (dec ss') @ ''-'' @ pad 4 (radix 16 (unat x'))"
    using pad2_append[OF d(2)] v assms(1,2) u by simp_all
  have mi: "mm = mm'" "pad 2 (dec ss) @ ''-'' @ pad 4 (radix 16 (unat x)) = pad 2 (dec ss') @ ''-'' @ pad 4 (radix 16 (unat x'))"
    using pad2_append[OF h(2)] v assms(1,2) u by simp_all
  have "ss = ss'" "pad 4 (radix 16 (unat x)) = pad 4 (radix 16 (unat x'))"
    using pad2_append[OF mi(2)] v assms(1,2) u by simp_all
  then show ?thesis using y m(1) d(1) h(1) mi(1) u by (simp add: pad_inject unsigned_word_eqI)
qed

lemma TestId_text:
  "TestId_generate t = id_text (secs_to_utc (since_epoch t div 1000000000))
     (ucast ((word_of_nat (since_epoch t mod 1000000000) :: u32) XOR (word_of_nat (since_epoch t div 1000000000) * 2654435761)))"
  by (simp add: TestId_generate_def id_text_def Let_def split: prod.split)

lemma suffix_eq_iff:
  fixes c :: u32
  shows "(ucast (word_of_nat a XOR c) :: u16) = ucast (word_of_nat b XOR c) \<longleftrightarrow> a mod 65536 = b mod 65536"
proof -
  have "ucast (x XOR c) = (ucast x XOR ucast c :: u16)" for x by (rule bit_word_eqI) (auto simp: bit_simps)
  moreover have "x XOR z = y XOR z \<longleftrightarrow> x = y" for x y z :: u16 by (metis xor.assoc xor_self_eq xor.right_neutral)
  moreover have "(ucast (word_of_nat n :: u32) :: u16) = word_of_nat n" for n
    by (rule bit_word_eqI) (auto simp: bit_simps)
  moreover have "(word_of_nat a :: u16) = word_of_nat b \<longleftrightarrow> a mod 65536 = b mod 65536"
    by (simp add: word_of_nat_eq_iff take_bit_eq_mod)
  ultimately show ?thesis by simp
qed

lemma id_text_eq_iff:
  fixes k :: u32
  shows "id_text (secs_to_utc s) (ucast (word_of_nat n XOR (word_of_nat s * k))) = id_text (secs_to_utc s') (ucast (word_of_nat n' XOR (word_of_nat s' * k)))
     \<longleftrightarrow> s = s' \<and> n mod 65536 = n' mod 65536" (is "?l = ?r \<longleftrightarrow> _")
proof
  assume l: "?l = ?r"
  have v: "utc_valid (secs_to_utc s)" "utc_valid (secs_to_utc s')" using secs_to_utc_correct by blast+
  then have *: "secs_to_utc s = secs_to_utc s'" "(ucast (word_of_nat n XOR (word_of_nat s * k)) :: u16) = ucast (word_of_nat n' XOR (word_of_nat s' * k))"
    using id_text_inject[OF v l] by blast+
  have s: "s = s'" using arg_cong[OF *(1), of utc_to_secs] secs_to_utc_correct by simp
  show "s = s' \<and> n mod 65536 = n' mod 65536" using s *(2) unfolding s suffix_eq_iff by blast
next
  assume "s = s' \<and> n mod 65536 = n' mod 65536"
  then show "?l = ?r" using suffix_eq_iff[of n "word_of_nat s' * k" n'] by auto
qed

text \<open>
  C37. Test ids identify the second of their creation and the nanosecond within it modulo 65536, and nothing
  more: two tests created in the same second get the same id exactly when their creation times differ by a
  multiple of 65536 ns, and tests created in different seconds never do.
\<close>

theorem test_ids_equal_iff:
  "TestId_generate t = TestId_generate t' \<longleftrightarrow>
     since_epoch t div 1000000000 = since_epoch t' div 1000000000
     \<and> since_epoch t mod 1000000000 mod 65536 = since_epoch t' mod 1000000000 mod 65536"
  unfolding TestId_text by (rule id_text_eq_iff)


section \<open>Durations\<close>

lemma dec_ends:
  obtains c r d q where "dec n = c # r" "is_digit c" "rev (dec n) = d # q" "is_digit d"
proof -
  obtain c r where c: "dec n = c # r" using dec_text_digits(2) by (cases "dec n") auto
  obtain d q where d: "rev (dec n) = d # q" using c by (cases "rev (dec n)") auto
  have "d \<in> set (dec n)" using d by (metis list.set_intros(1) set_rev)
  then show ?thesis using that[OF c _ d] dec_text_digits(1)[of n] c unfolding list_all_iff by auto
qed

lemma not_digit:
  "is_digit c \<Longrightarrow> c \<notin> {CHR ''m'', CHR ''s'', CHR ''h'', CHR ''+'', CHR ''-''} \<and> \<not> is_space c"
  by (auto simp: is_digit_def is_space_def)

lemma dec_not_word: "to_lowercase (dec n) \<notin> {''inf'', ''infinity'', ''nan''}"
proof -
  obtain c r where c: "dec n = c # r" "is_digit c" by (rule dec_ends)
  then have "lower_char c = c" "c \<noteq> CHR ''i''" "c \<noteq> CHR ''n''" by (auto simp: lower_char_def is_digit_def Let_def)
  then show ?thesis using c by (simp add: to_lowercase_def)
qed

lemma parse_decimal_dec: "parse_decimal (dec n) = Some (of_nat n)"
proof -
  have tw: "takeWhile is_digit (dec n) = dec n" "dropWhile is_digit (dec n) = []"
    using dec_text_digits(1)[of n] by (simp_all add: list_all_iff takeWhile_eq_all_conv)
  show ?thesis using dec_text_digits(2)[of n] by (simp add: parse_decimal_def tw parse_exponent_def digits_value_dec Let_def)
qed

lemma parse_f64_dec:
  "parse_f64 (dec n) = Some (lit (of_nat n))" "parse_f64 (CHR ''-'' # dec n) = Some (lit (- of_nat n))"
proof -
  obtain c r where c: "dec n = c # r" "is_digit c" by (rule dec_ends)
  then have "parse_sign (dec n) = (False, dec n)" using not_digit by simp
  then show "parse_f64 (dec n) = Some (lit (of_nat n))" "parse_f64 (CHR ''-'' # dec n) = Some (lit (- of_nat n))"
    using dec_not_word[of n] by (simp_all add: parse_f64_def parse_decimal_dec)
qed

lemma parse_u64_dec: "n < 2 ^ 64 \<Longrightarrow> parse_u64 (dec n) = Some n"
proof -
  assume n: "n < 2 ^ 64"
  obtain c r d q where c: "dec n = c # r" "is_digit c" by (rule dec_ends)
  then have "(case dec n of c # d # ds \<Rightarrow> if c = CHR ''+'' then d # ds else dec n | _ \<Rightarrow> dec n) = dec n"
    using not_digit[OF c(2)] by (auto split: list.split)
  then show ?thesis using n dec_text_digits[of n] by (simp add: parse_u64_def digits_value_dec)
qed

lemma trim_dec:
  assumes "list_all is_space ws" "list_all is_space ws'" "list_all (\<lambda>c. \<not> is_space c) u"
  shows "trim (ws @ (dec n @ u) @ ws') = dec n @ u"
proof -
  obtain c r d q where c: "dec n = c # r" "is_digit c" "rev (dec n) = d # q" "is_digit d" by (rule dec_ends)
  have 1: "dropWhile is_space (ws @ (dec n @ u) @ ws') = (dec n @ u) @ ws'"
    using assms(1) c(1) not_digit[OF c(2)] by (simp add: dropWhile_append2 list_all_iff)
  have "dropWhile is_space (rev u @ rev (dec n)) = rev u @ rev (dec n)"
    using assms(3) c(3) not_digit[OF c(4)] by (cases "rev u") (auto simp: list_all_iff simp flip: set_rev[of u])
  moreover have "dropWhile is_space (rev ws' @ zs) = dropWhile is_space zs" for zs
    using assms(2) by (intro dropWhile_append2) (simp add: list_all_iff)
  ultimately have "dropWhile is_space (rev ((dec n @ u) @ ws')) = rev (dec n @ u)" by simp
  then show ?thesis unfolding trim_def 1 by simp
qed

lemma strip_suffix_append: "strip_suffix p (s @ p) = Some s"
  by (simp add: strip_suffix_def)

lemma strip_suffix_dec:
  "strip_suffix ''ms'' (dec n @ ''s'') = None" "strip_suffix ''ms'' (dec n @ ''m'') = None" "strip_suffix ''ms'' (dec n @ ''h'') = None"
  "strip_suffix ''ms'' (dec n) = None" "strip_suffix ''h'' (dec n @ ''s'') = None" "strip_suffix ''h'' (dec n @ ''m'') = None"
  "strip_suffix ''m'' (dec n @ ''s'') = None" "strip_suffix ''h'' (dec n) = None" "strip_suffix ''m'' (dec n) = None"
  "strip_suffix ''s'' (dec n) = None"
proof -
  obtain c r d q where c: "rev (dec n) = d # q" "is_digit d" by (rule dec_ends)
  note nd = not_digit[OF c(2)]
  show "strip_suffix ''ms'' (dec n @ ''s'') = None" "strip_suffix ''ms'' (dec n @ ''m'') = None" "strip_suffix ''ms'' (dec n @ ''h'') = None"
    "strip_suffix ''ms'' (dec n) = None" "strip_suffix ''h'' (dec n @ ''s'') = None" "strip_suffix ''h'' (dec n @ ''m'') = None"
    "strip_suffix ''m'' (dec n @ ''s'') = None" "strip_suffix ''h'' (dec n) = None" "strip_suffix ''m'' (dec n) = None"
    "strip_suffix ''s'' (dec n) = None"
    using c(1) nd by (auto simp: strip_suffix_def)
qed

lemma from_secs_whole: "n \<le> 2 ^ 53 \<Longrightarrow> from_secs_f64 (lit (of_nat n)) = Some (secs n)"
proof -
  assume n: "n \<le> 2 ^ 53"
  then have r: "rep (of_nat n)" by (rule f64_of_nat_rep)
  have k: "key (lit (of_nat n)) = of_nat n" "is_finite (lit (of_nat n))" using rep_lit[OF r] by blast+
  have "(of_nat n :: rat) < 2 ^ 64" using n by (simp add: of_nat_less_iff[of n "2 ^ 64", where 'a = rat, simplified])
  moreover have "rne (of_nat n * 1000000000) = int n * 1000000000"
    using rne_of_int[of "int n * 1000000000"] by simp
  ultimately show ?thesis using k by (simp add: from_secs_f64_def flt_iff secs_def nat_mult_distrib)
qed


lemma parse_seconds:
  assumes "n * k \<le> 2 ^ 53" "rep (of_nat k)" "0 < k"
  shows "in_secs (map_option (\<lambda>x. x * lit (of_nat k)) (parse_f64 (dec n))) e = Some (Inr (secs (n * k)))"
proof -
  have n: "n \<le> 2 ^ 53" using assms(1,3) by (metis le_trans mult.right_neutral mult_le_mono2 Suc_leI One_nat_def)
  have "lit (of_nat n) * lit (of_nat k) = lit (of_nat (n * k))"
    using rep_lit[OF f64_of_nat_rep[OF n]] rep_lit[OF assms(2)] by (simp add: fmul_lit)
  then show ?thesis using from_secs_whole[OF assms(1)] by (simp add: in_secs_def parse_f64_dec)
qed

lemma parse_duration_dec:
  assumes "list_all is_space ws" "list_all is_space ws'" "n * 3600 \<le> 2 ^ 53"
  shows "parse_duration (ws @ (dec n @ ''ms'') @ ws') = Some (Inr (millis n))
    \<and> parse_duration (ws @ (dec n @ ''s'') @ ws') = Some (Inr (secs n))
    \<and> parse_duration (ws @ (dec n @ []) @ ws') = Some (Inr (secs n))
    \<and> parse_duration (ws @ (dec n @ ''m'') @ ws') = Some (Inr (secs (n * 60)))
    \<and> parse_duration (ws @ (dec n @ ''h'') @ ws') = Some (Inr (secs (n * 3600)))"
proof -
  have t: "trim (ws @ (dec n @ u) @ ws') = dec n @ u" if "u \<in> {''ms'', ''s'', [], ''m'', ''h''}" for u
    using that by (intro trim_dec assms) (auto simp: is_space_def)
  have n: "n \<le> 2 ^ 53" "n < 2 ^ 64" "n * 60 \<le> 2 ^ 53" using assms(3) by simp_all
  have sec: "in_secs (parse_f64 (dec n)) e = Some (Inr (secs n))" for e
    by (simp add: in_secs_def parse_f64_dec from_secs_whole[OF n(1)])
  have mul: "in_secs (map_option (\<lambda>x. x * lit 60) (parse_f64 (dec n))) e = Some (Inr (secs (n * 60)))"
    "in_secs (map_option (\<lambda>x. x * lit 3600) (parse_f64 (dec n))) e = Some (Inr (secs (n * 3600)))" for e
    using parse_seconds[of n 60 e] parse_seconds[of n 3600 e] n(3) assms(3) f64_of_nat_rep[of 60] f64_of_nat_rep[of 3600] by simp_all
  have t': "trim (ws @ (dec n @ ''ms'') @ ws') = dec n @ ''ms''" "trim (ws @ (dec n @ ''s'') @ ws') = dec n @ ''s''"
    "trim (ws @ (dec n @ []) @ ws') = dec n" "trim (ws @ (dec n @ ''m'') @ ws') = dec n @ ''m''"
    "trim (ws @ (dec n @ ''h'') @ ws') = dec n @ ''h''"
    using t[of "''ms''"] t[of "''s''"] t[of "[]"] t[of "''m''"] t[of "''h''"] by simp_all
  show ?thesis unfolding parse_duration_def t' Let_def
    by (simp add: dec_text_digits(2) strip_suffix_dec strip_suffix_append sec mul parse_u64_dec[OF n(2)])
qed



text \<open>A negative number is not an error but a panic.\<close>

lemma parse_duration_negative_panics:
  assumes "0 < n" "n \<le> 2 ^ 53" shows "parse_duration (CHR ''-'' # dec n @ ''s'') = None"
proof -
  obtain c r d q where c: "rev (dec n) = d # q" "is_digit d" by (rule dec_ends)
  have "dropWhile is_space (CHR ''s'' # rev (dec n) @ ''-'') = CHR ''s'' # rev (dec n) @ ''-''"
    "dropWhile is_space (CHR ''-'' # dec n @ ''s'') = CHR ''-'' # dec n @ ''s''" by (simp_all add: is_space_def)
  then have t: "trim (CHR ''-'' # dec n @ ''s'') = CHR ''-'' # dec n @ ''s''" by (simp add: trim_def)
  have ss: "strip_suffix ''ms'' (CHR ''-'' # dec n @ ''s'') = None" "strip_suffix ''h'' (CHR ''-'' # dec n @ ''s'') = None"
    "strip_suffix ''m'' (CHR ''-'' # dec n @ ''s'') = None" "strip_suffix ''s'' (CHR ''-'' # dec n @ ''s'') = Some (CHR ''-'' # dec n)"
    using c not_digit[OF c(2)] by (auto simp: strip_suffix_def)
  have r: "rep (of_nat n)" by (rule f64_of_nat_rep[OF assms(2)])
  have "lit (- of_nat n) = - lit (of_nat n)" using lit_unary(1)[OF r] by simp
  then have "key (lit (- of_nat n)) < 0" using rep_lit[OF r] assms(1) by simp
  then have "from_secs_f64 (lit (- of_nat n)) = None" by (simp add: from_secs_f64_def flt_iff)
  then show ?thesis using t ss by (simp add: parse_duration_def in_secs_def parse_f64_dec Let_def)
qed


section \<open>Conversion keeps the rates\<close>

lemma spec_bind_Inr: "spec_bind x f = Some (Inr y) \<longleftrightarrow> (\<exists>v. x = Some (Inr v) \<and> f v = Some (Inr y))"
  by (auto simp: spec_bind_def split: option.splits sum.splits)

lemma collect_results_Inr:
  "collect_results f xs = Some (Inr ys) \<longleftrightarrow> list_all2 (\<lambda>x y. f x = Some (Inr y)) xs ys"
proof (induction xs arbitrary: ys)
  case (Cons x xs)
  then show ?case by (cases ys) (auto simp: spec_bind_Inr)
qed auto

definition spec_rate_ok :: "RateSpecConfig \<Rightarrow> bool" where
  "spec_rate_ok spec = (case spec of
     RS_Static rps \<Rightarrow> rate_ok rps
   | RS_Step steps \<Rightarrow> list_all (\<lambda>(_, rps). rate_ok rps) steps
   | RS_Adaptive bounds warmup initial _ \<Rightarrow> rate_ok (bounds_min_rps bounds) \<and> rate_ok (bounds_max_rps bounds)
       \<and> bounds_min_rps bounds \<le> bounds_max_rps bounds \<and> pred_option rate_ok initial \<and> pred_option (rate_ok \<circ> ws_rps) warmup)"

lemma convert_rate_ok:
  assumes "convert_rate spec = Some (Inr rate)" "spec_rate_ok spec" shows "config_ok rate"
proof (cases spec)
  case (RS_Step steps)
  then obtain parsed where p: "rate = RC_Step parsed"
    "list_all2 (\<lambda>(dur, rps) y. spec_bind (spec_duration_of BadStepDuration dur) (\<lambda>d. Some (Inr (d, rps))) = Some (Inr y)) steps parsed"
    using assms(1) by (auto simp: convert_rate_def spec_bind_Inr collect_results_Inr split_def)
  have "list_all2 (\<lambda>x y. snd x = snd y) steps parsed"
    using p(2) by (rule list_all2_mono) (auto simp: spec_bind_Inr)
  moreover have "list_all (\<lambda>x. rate_ok (snd x)) steps" using assms(2) RS_Step by (simp add: spec_rate_ok_def split_def)
  ultimately have "list_all (\<lambda>x. rate_ok (snd x)) parsed" by (induction rule: list_all2_induct) auto
  then show ?thesis using p(1) by (simp add: config_ok_def split_def)
qed (use assms in \<open>auto simp: convert_rate_def spec_bind_Inr spec_rate_ok_def config_ok_def split: option.splits\<close>)

lemma into_config_rate: "into_config spec = Some (Inr cfg) \<Longrightarrow> convert_rate (spec_rate spec) = Some (Inr (cfg_rate cfg))"
  by (auto simp: into_config_def spec_bind_Inr Let_def split: option.splits)


text \<open>
  C35. The conversion of a Unix time to a UTC date is right for every time: the date exists in the Gregorian
  calendar, and counting the seconds from 1970 to it, with the number of leap years in closed form, gives the
  time back.
\<close>

theorem secs_to_utc_roundtrip: "utc_valid (secs_to_utc t) \<and> utc_to_secs (secs_to_utc t) = t"
  by (rule secs_to_utc_correct)

end
