(* ===== verification/Dist_Coordinator.thy ===== *)
theory Dist_Coordinator
  imports Coordinator_Safety Test_Spec
begin

text \<open>
  The leader's coordinator over several agents (\<^verbatim>\<open>netanvil-distributed/src/coordinator.rs\<close>) with the static node
  discovery of \<^verbatim>\<open>http_cluster.rs\<close>: each tick reads the metrics of all agents, marks those that do not answer as failed,
  asks the rate controller for a rate and sends every agent its share by cores. The agents, the channels of the
  API and the clock are inputs; the commands sent are logged in the state.
\<close>

section \<open>Nodes and discovery\<close>

datatype NodeState = NS_Idle | NS_Running | NS_Completed | NS_Failed

record NodeInfo =
  ni_id :: string
  ni_addr :: string
  ni_cores :: u64
  ni_state :: NodeState

text \<open>\<^verbatim>\<open>probe_node_info\<close> of each address is an HTTP request: \<open>probe\<close> is its answer.\<close>

record StaticDiscovery =
  sd_nodes :: "NodeInfo list"
  sd_failed :: "string list"

definition StaticDiscovery_new :: "(string \<Rightarrow> NodeInfo option) \<Rightarrow> string list \<Rightarrow> StaticDiscovery" where
  "StaticDiscovery_new probe addrs = \<lparr>sd_nodes = map (\<lambda>addr. case probe addr of
       Some info \<Rightarrow> info
     | None \<Rightarrow> \<lparr>ni_id = addr, ni_addr = addr, ni_cores = 1, ni_state = NS_Idle\<rparr>) addrs, sd_failed = []\<rparr>"

definition discover :: "StaticDiscovery \<Rightarrow> NodeInfo list" where
  "discover d = filter (\<lambda>n. ni_id n \<notin> set (sd_failed d)) (sd_nodes d)"

definition mark_failed :: "string \<Rightarrow> StaticDiscovery \<Rightarrow> StaticDiscovery" where
  "mark_failed i d = (if i \<in> set (sd_failed d) then d else d\<lparr>sd_failed := sd_failed d @ [i]\<rparr>)"

section \<open>State\<close>

record RemoteMetrics =
  rm_node_id :: string
  rm_current_rps :: f64
  rm_target_rps :: f64
  rm_total_requests :: u64
  rm_total_errors :: u64
  rm_error_rate :: f64
  rm_latency_p50_ms :: f64
  rm_latency_p90_ms :: f64
  rm_latency_p99_ms :: f64
  rm_timeout_count :: u64
  rm_in_flight_drops :: u64
  rm_in_flight_count :: u64
  rm_in_flight_capacity :: u64

text \<open>The commands sent to the agents, in order.\<close>

datatype 'd NodeCommand = StartTest NodeInfo "'d TestConfig" | SetRate NodeInfo f64 | StopTest NodeInfo

record DistributedProgressUpdate =
  dp_elapsed :: duration
  dp_remaining :: duration
  dp_target_rps :: f64
  dp_total_requests :: u64
  dp_total_errors :: u64
  dp_active_nodes :: nat
  dp_per_node :: "(string \<times> RemoteMetrics) list"
  dp_controller_state :: "(string \<times> f64) list"

record DistributedTestResult =
  dr_total_requests :: u64
  dr_total_errors :: u64
  dr_duration :: duration
  dr_nodes :: "(string \<times> RemoteMetrics) list"

record 'd DistributedCoordinator =
  dc_discovery :: StaticDiscovery
  dc_config :: "'d TestConfig"
  dc_rate_controller :: RateController
  dc_node_metrics :: "string \<rightharpoonup> RemoteMetrics"
  dc_node_weights :: "string \<rightharpoonup> f64"
  dc_hold_state :: HoldState
  dc_commands :: "'d NodeCommand list"
  dc_replies :: "Reply list"
  dc_progress :: "DistributedProgressUpdate list"

definition DistributedCoordinator_new :: "StaticDiscovery \<Rightarrow> 'd TestConfig \<Rightarrow> RateController \<Rightarrow> 'd DistributedCoordinator" where
  "DistributedCoordinator_new d config rc = \<lparr>dc_discovery = d, dc_config = config, dc_rate_controller = rc,
     dc_node_metrics = Map.empty, dc_node_weights = Map.empty, dc_hold_state = Released, dc_commands = [], dc_replies = [],
     dc_progress = []\<rparr>"

text \<open>
  A hash map is iterated in an order that is not specified: \<open>iter\<close> gives the entries of a map in the order the
  program sees them. \<open>hash_order\<close> says that it lists them all, each once.
\<close>

type_synonym iter_order = "(string \<rightharpoonup> RemoteMetrics) \<Rightarrow> (string \<times> RemoteMetrics) list"

definition hash_order :: "iter_order \<Rightarrow> bool" where
  "hash_order iter \<longleftrightarrow> (\<forall>m. finite (dom m) \<longrightarrow> distinct (map fst (iter m)) \<and> map_of (iter m) = m)"

text \<open>What a tick reads from the channels, the agents and the clock.\<close>

record dist_input =
  di_holds :: "HoldCommand list"
  di_updates :: "(string \<times> params) list"
  di_infos :: nat
  di_overrides :: "f64 list"
  di_command_now :: instant
  di_fetch :: "NodeInfo \<Rightarrow> RemoteMetrics option"
  di_polled :: "(string \<times> f64) list"
  di_pushed :: "(string \<times> f64) list"
  di_control_now :: instant
  di_end :: instant
  di_cancel :: bool

section \<open>Operations\<close>

definition send_node :: "'d NodeCommand \<Rightarrow> 'd DistributedCoordinator \<Rightarrow> 'd DistributedCoordinator" where
  "send_node cmd c = c\<lparr>dc_commands := dc_commands c @ [cmd]\<rparr>"

definition compute_weights :: "NodeInfo list \<Rightarrow> 'd DistributedCoordinator \<Rightarrow> 'd DistributedCoordinator" where
  "compute_weights nodes c =
     (let total_cores = sum_list (map ni_cores nodes) in
      if total_cores = 0 then c
      else c\<lparr>dc_node_weights := fold (\<lambda>n w. w(ni_id n \<mapsto> f64_of_word (ni_cores n) / f64_of_word total_cores)) nodes Map.empty\<rparr>)"

definition node_share :: "f64 \<Rightarrow> 'd DistributedCoordinator \<Rightarrow> NodeInfo \<Rightarrow> f64" where
  "node_share total_rps c node = total_rps * the_or (lit 0) (dc_node_weights c (ni_id node))"

definition distribute_node_rates :: "NodeInfo list \<Rightarrow> f64 \<Rightarrow> 'd DistributedCoordinator \<Rightarrow> 'd DistributedCoordinator" where
  "distribute_node_rates nodes total_rps c = fold (\<lambda>n. send_node (SetRate n (node_share total_rps c n))) nodes c"

definition handle_hold :: "HoldCommand \<Rightarrow> HoldState \<Rightarrow> HoldState" where
  "handle_hold cmd h = (case cmd of Hold rps \<Rightarrow> Held rps | Release \<Rightarrow> Released)"

definition controller_view :: "instant \<Rightarrow> 'd DistributedCoordinator \<Rightarrow> ControllerView" where
  "controller_view now c = \<lparr>cv_info = RateController_controller_info now (dc_rate_controller c),
     cv_held = (case dc_hold_state c of Held _ \<Rightarrow> True | Released \<Rightarrow> False),
     cv_held_rps = (case dc_hold_state c of Held rps \<Rightarrow> Some rps | Released \<Rightarrow> None)\<rparr>"

definition process_commands :: "dist_input \<Rightarrow> 'd DistributedCoordinator \<Rightarrow> 'd DistributedCoordinator" where
  "process_commands di c =
     (let c1 = c\<lparr>dc_hold_state := fold handle_hold (di_holds di) (dc_hold_state c)\<rparr>;
          c2 = fold (\<lambda>(action, ps) c. let (rc, r) = RateController_apply_update (di_command_now di) action ps (dc_rate_controller c)
                 in c\<lparr>dc_rate_controller := rc, dc_replies := dc_replies c @ [UpdateReply r]\<rparr>) (di_updates di) c1;
          c3 = c2\<lparr>dc_replies := dc_replies c2 @ replicate (di_infos di) (InfoReply (controller_view (di_command_now di) c2))\<rparr>
      in if di_overrides di = [] then c3 else c3\<lparr>dc_hold_state := Held (last (di_overrides di))\<rparr>)"

definition fetch_node :: "(NodeInfo \<Rightarrow> RemoteMetrics option) \<Rightarrow> NodeInfo \<Rightarrow> 'd DistributedCoordinator \<Rightarrow> 'd DistributedCoordinator" where
  "fetch_node fetch n c = (case fetch n of
     Some m \<Rightarrow> c\<lparr>dc_node_metrics := (dc_node_metrics c)(ni_id n \<mapsto> m)\<rparr>
   | None \<Rightarrow> c\<lparr>dc_discovery := mark_failed (ni_id n) (dc_discovery c)\<rparr>)"

definition metric_max :: "(RemoteMetrics \<Rightarrow> f64) \<Rightarrow> RemoteMetrics list \<Rightarrow> f64" where
  "metric_max f ms = foldl fmax (lit 0) (map f ms)"

definition aggregate_metrics :: "iter_order \<Rightarrow> 'd DistributedCoordinator \<Rightarrow> MetricsSummary" where
  "aggregate_metrics iter c =
     (let ms = map snd (iter (dc_node_metrics c));
          total_requests = sum_list (map rm_total_requests ms);
          total_errors = sum_list (map rm_total_errors ms)
      in \<lparr>ms_total_requests = total_requests, ms_total_errors = total_errors, ms_error_rate = ratio total_errors total_requests,
          ms_request_rate = foldl (+) (lit 0) (map rm_current_rps ms),
          ms_latency_p50_ns = f64_to_u64 (metric_max rm_latency_p50_ms ms * lit 1000000),
          ms_latency_p90_ns = f64_to_u64 (metric_max rm_latency_p90_ms ms * lit 1000000),
          ms_latency_p99_ns = f64_to_u64 (metric_max rm_latency_p99_ms ms * lit 1000000),
          ms_window_duration = cfg_control_interval (dc_config c), ms_bytes_sent = 0, ms_bytes_received = 0,
          ms_throughput_send_bps = lit 0, ms_throughput_recv_bps = lit 0, ms_external_signals = [],
          ms_timeout_count = sum_list (map rm_timeout_count ms), ms_in_flight_drops = sum_list (map rm_in_flight_drops ms)\<rparr>)"

text \<open>\<open>None\<close> is a panic of the rate controller.\<close>

definition dist_tick :: "libm \<Rightarrow> iter_order \<Rightarrow> NodeInfo list \<Rightarrow> dist_input \<Rightarrow> 'd DistributedCoordinator \<Rightarrow> ('d DistributedCoordinator \<times> RateDecision) option" where
  "dist_tick m iter nodes di c =
     (let c1 = fold (fetch_node (di_fetch di)) nodes (process_commands di c);
          summary = (aggregate_metrics iter c1)\<lparr>ms_external_signals := upsert_signals (di_polled di) (di_pushed di)\<rparr>
      in do {
           (rc, decision) \<leftarrow> (case dc_hold_state c1 of
               Held rps \<Rightarrow> Some (dc_rate_controller c1, \<lparr>target_rps = rps\<rparr>)
             | Released \<Rightarrow> RateController_update m (di_control_now di) summary (dc_rate_controller c1));
           Some (distribute_node_rates nodes (target_rps decision) (compute_weights nodes (c1\<lparr>dc_rate_controller := rc\<rparr>)), decision)
         })"

definition node_totals :: "(RemoteMetrics \<Rightarrow> u64) \<Rightarrow> iter_order \<Rightarrow> 'd DistributedCoordinator \<Rightarrow> u64" where
  "node_totals f iter c = sum_list (map (f \<circ> snd) (iter (dc_node_metrics c)))"

definition report_progress :: "iter_order \<Rightarrow> instant \<Rightarrow> instant \<Rightarrow> NodeInfo list \<Rightarrow> RateDecision \<Rightarrow> 'd DistributedCoordinator \<Rightarrow> 'd DistributedCoordinator" where
  "report_progress iter start now nodes decision c =
     (let elapsed = duration_since now start in
      c\<lparr>dc_progress := dc_progress c @ [\<lparr>dp_elapsed = elapsed, dp_remaining = cfg_duration (dc_config c) - elapsed,
        dp_target_rps = target_rps decision, dp_total_requests = node_totals rm_total_requests iter c,
        dp_total_errors = node_totals rm_total_errors iter c, dp_active_nodes = length nodes,
        dp_per_node = iter (dc_node_metrics c), dp_controller_state = RateController_controller_state now (dc_rate_controller c)\<rparr>]\<rparr>)"

text \<open>The tick loop; the flag tells whether the loop has ended, or the inputs have ended before.\<close>

fun dist_loop :: "libm \<Rightarrow> iter_order \<Rightarrow> instant \<Rightarrow> dist_input list \<Rightarrow> 'd DistributedCoordinator \<Rightarrow> ('d DistributedCoordinator \<times> bool) option" where
  "dist_loop m iter start [] c = Some (c, False)"
| "dist_loop m iter start (di # dis) c =
     (let nodes = discover (dc_discovery c) in
      if nodes = [] then Some (c, True)
      else do {
        (c', decision) \<leftarrow> dist_tick m iter nodes di c;
        if duration_since (di_end di) start \<ge> cfg_duration (dc_config c') \<or> di_cancel di then Some (c', True)
        else dist_loop m iter start dis (report_progress iter start (di_end di) nodes decision c')
      })"

definition empty_result :: DistributedTestResult where
  "empty_result = \<lparr>dr_total_requests = 0, dr_total_errors = 0, dr_duration = 0, dr_nodes = []\<rparr>"

definition start_node :: "(NodeInfo \<Rightarrow> bool) \<Rightarrow> f64 \<Rightarrow> NodeInfo \<Rightarrow> 'd DistributedCoordinator \<Rightarrow> 'd DistributedCoordinator" where
  "start_node start_ok initial_rps n c =
     (let c' = send_node (StartTest n ((dc_config c)\<lparr>cfg_rate := RC_Static (node_share initial_rps c n)\<rparr>)) c
      in if start_ok n then c' else c'\<lparr>dc_discovery := mark_failed (ni_id n) (dc_discovery c')\<rparr>)"

definition dist_finish ::
  "iter_order \<Rightarrow> instant \<Rightarrow> instant \<Rightarrow> (NodeInfo \<Rightarrow> RemoteMetrics option) \<Rightarrow> 'd DistributedCoordinator \<Rightarrow> 'd DistributedCoordinator \<times> DistributedTestResult" where
  "dist_finish iter start now fetch c =
     (let nodes = discover (dc_discovery c);
          c1 = fold (\<lambda>n c. case fetch n of Some m \<Rightarrow> c\<lparr>dc_node_metrics := (dc_node_metrics c)(ni_id n \<mapsto> m)\<rparr> | None \<Rightarrow> c) nodes c;
          c2 = fold (\<lambda>n. send_node (StopTest n)) nodes c1
      in (c2, \<lparr>dr_total_requests = node_totals rm_total_requests iter c2, dr_total_errors = node_totals rm_total_errors iter c2,
               dr_duration = duration_since now start, dr_nodes = iter (dc_node_metrics c2)\<rparr>))"

record dist_env =
  de_start :: instant
  de_start_ok :: "NodeInfo \<Rightarrow> bool"
  de_final_fetch :: "NodeInfo \<Rightarrow> RemoteMetrics option"
  de_final_now :: instant

text \<open>The whole run: \<open>None\<close> a panic, \<open>Some (c, None)\<close> still running when the inputs end.\<close>

definition dist_run ::
  "libm \<Rightarrow> iter_order \<Rightarrow> dist_env \<Rightarrow> dist_input list \<Rightarrow> 'd DistributedCoordinator \<Rightarrow> ('d DistributedCoordinator \<times> DistributedTestResult option) option" where
  "dist_run m iter env dis c =
     (let nodes = discover (dc_discovery c) in
      if nodes = [] then Some (c, Some empty_result)
      else let initial_rps = RateController_current_rate (dc_rate_controller c);
               c1 = fold (start_node (de_start_ok env) initial_rps) nodes (compute_weights nodes c);
               nodes1 = discover (dc_discovery c1)
           in if nodes1 = [] then Some (c1, Some empty_result)
              else do {
                (c2, ended) \<leftarrow> dist_loop m iter (de_start env) dis (distribute_node_rates nodes1 initial_rps (compute_weights nodes1 c1));
                Some (if ended then map_prod id Some (dist_finish iter (de_start env) (de_final_now env) (de_final_fetch env) c2) else (c2, None))
              })"


end
