(* ===== verification/Dist_Safety.thy ===== *)
theory Dist_Safety
  imports Dist_Coordinator "HOL-Library.List_Lexorder" "HOL-Library.Char_ord"
begin

text \<open>
  What the leader's coordinator guarantees: every rate sent to an agent is finite and non-negative, a run ends,
  its totals are the sums of the last answers of the agents, and the shares of the agents add up to the rate.
  The locale \<open>node_discovery\<close> is the contract of the discovery: a node marked as failed is never listed again.
\<close>

section \<open>Discovery\<close>

locale node_discovery =
  fixes disc :: "'s \<Rightarrow> NodeInfo list" and mark :: "string \<Rightarrow> 's \<Rightarrow> 's"
  assumes disc_mark: "disc (mark i d) = filter (\<lambda>n. ni_id n \<noteq> i) (disc d)"
begin

lemma disc_marks: "disc (fold mark is d) = filter (\<lambda>n. ni_id n \<notin> set is) (disc d)"
  by (induction "is" arbitrary: d) (auto simp: disc_mark intro: filter_cong)

lemma marked_stays: "ni_id n \<in> set is \<Longrightarrow> n \<notin> set (disc (fold mark js (fold mark is d)))"
  by (simp add: disc_marks)

end

interpretation static_discovery: node_discovery discover mark_failed
  by unfold_locales (auto simp: discover_def mark_failed_def intro: filter_cong)

text \<open>Reading the agents, and starting the test on them, marks exactly those that fail.\<close>

lemma fetch_nodes:
  "fold (fetch_node fetch) nds c = c\<lparr>
     dc_node_metrics := fold (\<lambda>n ms. case fetch n of Some m \<Rightarrow> ms(ni_id n \<mapsto> m) | None \<Rightarrow> ms) nds (dc_node_metrics c),
     dc_discovery := fold mark_failed (map ni_id (filter (\<lambda>n. fetch n = None) nds)) (dc_discovery c)\<rparr>"
  by (induction nds arbitrary: c) (auto simp: fetch_node_def split: option.split)

lemma send_nodes: "fold (\<lambda>n. send_node (f n)) nds c = c\<lparr>dc_commands := dc_commands c @ map f nds\<rparr>"
  by (induction nds arbitrary: c) (auto simp: send_node_def)

lemma start_nodes:
  "fold (start_node ok r) nds c = c\<lparr>
     dc_commands := dc_commands c @ map (\<lambda>n. StartTest n ((dc_config c)\<lparr>cfg_rate := RC_Static (node_share r c n)\<rparr>)) nds,
     dc_discovery := fold mark_failed (map ni_id (filter (Not \<circ> ok) nds)) (dc_discovery c)\<rparr>"
  by (induction nds arbitrary: c) (auto simp: start_node_def send_node_def node_share_def Let_def)

section \<open>Weights\<close>

lemma fold_update: "fold (\<lambda>n w. w(k n \<mapsto> v n)) nds w0 = w0 ++ map_of (rev (map (\<lambda>n. (k n, v n)) nds))"
proof (induction nds arbitrary: w0)
  case (Cons n nds)
  then show ?case by (simp add: fun_eq_iff map_add_def split: option.split)
qed simp

lemma fold_update_Some:
  "fold (\<lambda>n w. w(k n \<mapsto> v n)) nds Map.empty i = Some x \<Longrightarrow> \<exists>n \<in> set nds. k n = i \<and> v n = x"
  by (auto simp: fold_update dest!: map_of_SomeD)

lemma fold_update_distinct:
  assumes "distinct (map k nds)" "n \<in> set nds"
  shows "fold (\<lambda>n w. w(k n \<mapsto> v n)) nds Map.empty (k n) = Some (v n)"
proof -
  have "distinct (map fst (rev (map (\<lambda>n. (k n, v n)) nds)))" using assms(1) by (simp add: o_def flip: rev_map)
  then show ?thesis using assms(2) by (simp add: fold_update map_of_eq_Some_iff)
qed

lemma is_finite_of_u64: "is_finite (f64_of_word (w :: u64))"
proof -
  have r: "f64_rnd (18446744073709551616) = 18446744073709551616"
    using f64_rnd_representable[of 1 64] by (simp add: power_int_def)
  have "(18446744073709551616 :: rat) < f64_huge" by (simp add: f64_huge_def)
  then have "is_finite (lit 18446744073709551616)" using r by (simp add: finite_lit)
  moreover have "(of_nat (unat w) :: rat) \<le> 18446744073709551616"
    using unat_u64_less[of w] of_nat_mono[of "unat w" "18446744073709551616", where 'a = rat] by simp
  then have "f64_of_word w \<le> lit 18446744073709551616" by (simp add: f64_of_word_def f64_of_nat_def lit_mono)
  ultimately show ?thesis using finite_between[of 0 "f64_of_word w" "lit 18446744073709551616"] by simp
qed

definition weight_ok :: "f64 \<Rightarrow> bool" where
  "weight_ok w \<longleftrightarrow> is_finite w \<and> 0 \<le> w \<and> w \<le> 1"

lemma weight_quotient_ok:
  assumes "c \<le> t" "t \<noteq> 0" shows "weight_ok (f64_of_word (c :: u64) / f64_of_word t)"
proof -
  let ?c = "f64_of_word c" and ?t = "f64_of_word t"
  have "1 \<le> unat t" using assms(2) by (simp add: Suc_leI unat_gt_0)
  then have "lit (of_nat 1) \<le> ?t" unfolding f64_of_word_def f64_of_nat_def by (intro lit_mono of_nat_mono)
  then have t: "1 \<le> key ?t" by (simp add: fle_iff lit_01)
  have c: "0 \<le> key ?c" "key ?c \<le> key ?t"
    using f64_of_nat_mono[of "unat c" "unat t"] f64_of_word_props(2)[of c] assms(1) by (simp_all add: word_le_nat_alt f64_of_word_def fle_iff)
  have d: "?c / ?t = lit (key ?c / key ?t)" using fdiv_lit is_finite_of_u64 t by fastforce
  have q: "0 \<le> key ?c / key ?t" "key ?c / key ?t \<le> 1" using c t by simp_all
  then have "lit 0 \<le> ?c / ?t" "?c / ?t \<le> lit 1" unfolding d by (auto intro: lit_mono)
  moreover have "is_finite (lit 0)" "is_finite (lit 1)" by (simp_all add: f64_eval)
  ultimately show ?thesis using finite_between by (auto simp: weight_ok_def lit_01)
qed

lemma rate_ok_share: "\<lbrakk>rate_ok r; weight_ok w\<rbrakk> \<Longrightarrow> rate_ok (r * w) \<and> r * w \<le> r"
proof -
  assume *: "rate_ok r" "weight_ok w"
  then have l: "0 \<le> r * w" "r * w \<le> r" using fmul_nonneg fmul_le_self by (auto simp: rate_ok_def weight_ok_def)
  moreover have "is_finite 0" using rep_lit(1)[OF rep_01(1)] by (simp add: lit_01)
  ultimately show ?thesis using finite_between[OF l] * by (auto simp: rate_ok_def)
qed


section \<open>Well-formed coordinators\<close>

definition node_command_ok :: "'d NodeCommand \<Rightarrow> bool" where
  "node_command_ok cmd = (case cmd of
     StartTest _ cfg \<Rightarrow> (case cfg_rate cfg of RC_Static r \<Rightarrow> rate_ok r | _ \<Rightarrow> False)
   | SetRate _ r \<Rightarrow> rate_ok r
   | StopTest _ \<Rightarrow> True)"

text \<open>The cores of all nodes together fit a machine word.\<close>

definition cores_fit :: "NodeInfo list \<Rightarrow> bool" where
  "cores_fit nodes \<longleftrightarrow> sum_list (map (unat \<circ> ni_cores) nodes) < 2 ^ 64"

definition dist_ok :: "'d DistributedCoordinator \<Rightarrow> bool" where
  "dist_ok c \<longleftrightarrow> controller_ok (dc_rate_controller c) \<and> (case dc_hold_state c of Held r \<Rightarrow> rate_ok r | Released \<Rightarrow> True)
     \<and> (\<forall>i w. dc_node_weights c i = Some w \<longrightarrow> weight_ok w) \<and> list_all node_command_ok (dc_commands c)
     \<and> cores_fit (sd_nodes (dc_discovery c))"

lemma mark_failed_nodes [simp]: "sd_nodes (fold mark_failed is d) = sd_nodes d"
  by (induction "is" arbitrary: d) (auto simp: mark_failed_def)

lemma cores_fit_filter: "cores_fit nds \<Longrightarrow> cores_fit (filter P nds)"
  using sum_list_filter_le_nat[of "unat \<circ> ni_cores" P nds] by (simp add: cores_fit_def)

lemma cores_fit_discover: "cores_fit (sd_nodes d) \<Longrightarrow> cores_fit (discover d)"
  by (simp add: discover_def cores_fit_filter)

lemma unat_sum_list: "sum_list (map unat xs) < 2 ^ 64 \<Longrightarrow> unat (sum_list xs) = sum_list (map unat xs)" for xs :: "u64 list"
proof (induction xs)
  case (Cons x xs)
  then have "unat x + unat (sum_list xs) < 2 ^ 64" by simp
  then show ?case using Cons by (simp add: unat_add_lem[where 'a = 64, simplified])
qed simp

lemma cores_sum:
  assumes "cores_fit nds"
  shows "unat (sum_list (map ni_cores nds)) = sum_list (map (unat \<circ> ni_cores) nds)" "n \<in> set nds \<Longrightarrow> ni_cores n \<le> sum_list (map ni_cores nds)"
proof -
  show u: "unat (sum_list (map ni_cores nds)) = sum_list (map (unat \<circ> ni_cores) nds)"
    using unat_sum_list[of "map ni_cores nds"] assms by (simp add: cores_fit_def o_def)
  show "n \<in> set nds \<Longrightarrow> ni_cores n \<le> sum_list (map ni_cores nds)"
    using member_le_sum_list[of "unat (ni_cores n)" "map (unat \<circ> ni_cores) nds"] by (simp add: word_le_nat_alt u)
qed

lemma compute_weights_ok:
  assumes "dist_ok c" "cores_fit nds" shows "dist_ok (compute_weights nds c)"
proof -
  have "weight_ok w" if "sum_list (map ni_cores nds) \<noteq> 0"
    "fold (\<lambda>n w. w(ni_id n \<mapsto> f64_of_word (ni_cores n) / f64_of_word (sum_list (map ni_cores nds)))) nds Map.empty i = Some w" for i w
    using fold_update_Some[OF that(2)] weight_quotient_ok[OF cores_sum(2)[OF assms(2)] that(1)] by auto
  then show ?thesis using assms(1) by (auto simp: compute_weights_def dist_ok_def Let_def)
qed

lemma node_share_ok: "\<lbrakk>dist_ok c; rate_ok r\<rbrakk> \<Longrightarrow> rate_ok (node_share r c n) \<and> node_share r c n \<le> r"
proof -
  assume *: "dist_ok c" "rate_ok r"
  have "weight_ok (lit 0)" by (simp add: weight_ok_def f64_eval flip: lit_01)
  then have "weight_ok (the_or (lit 0) (dc_node_weights c (ni_id n)))"
    using * by (cases "dc_node_weights c (ni_id n)") (auto simp: dist_ok_def)
  then show ?thesis unfolding node_share_def by (rule rate_ok_share[OF *(2)])
qed

lemma node_rates_ok:
  assumes "dist_ok c" "rate_ok r"
  shows "dist_ok (distribute_node_rates nds r c)" "dist_ok (fold (start_node ok r) nds c)"
proof -
  have "rate_ok (node_share r c n)" for n using node_share_ok[OF assms] by blast
  then show "dist_ok (distribute_node_rates nds r c)" "dist_ok (fold (start_node ok r) nds c)" using assms(1)
    by (auto simp: distribute_node_rates_def send_nodes start_nodes dist_ok_def node_command_ok_def list_all_iff)
qed

text \<open>Inputs with finite non-negative rates, and without the arbiter's unchecked \<^verbatim>\<open>set_min_rps\<close>.\<close>

definition dist_input_fine :: "dist_input \<Rightarrow> bool" where
  "dist_input_fine di \<longleftrightarrow> (\<forall>r. Hold r \<in> set (di_holds di) \<longrightarrow> rate_ok r) \<and> (\<forall>r \<in> set (di_overrides di). rate_ok r)
     \<and> (\<forall>(action, ps) \<in> set (di_updates di). command_fine (WC_ControllerUpdate action ps))"

definition update_step :: "instant \<Rightarrow> string \<times> params \<Rightarrow> 'd DistributedCoordinator \<Rightarrow> 'd DistributedCoordinator" where
  "update_step now x c = (let (rc, r) = RateController_apply_update now (fst x) (snd x) (dc_rate_controller c)
     in c\<lparr>dc_rate_controller := rc, dc_replies := dc_replies c @ [UpdateReply r]\<rparr>)"

lemma update_steps_ok:
  "\<lbrakk>dist_ok c; \<forall>(action, ps) \<in> set us. command_fine (WC_ControllerUpdate action ps)\<rbrakk> \<Longrightarrow> dist_ok (fold (update_step now) us c)"
proof (induction us arbitrary: c)
  case (Cons u us)
  obtain action ps where u: "u = (action, ps)" by fastforce
  have "controller_ok (fst (RateController_apply_update now action ps (dc_rate_controller c)))"
    using RateController_apply_update_fine[of "dc_rate_controller c" action ps now] Cons.prems u by (auto simp: dist_ok_def command_fine_def)
  then have "dist_ok (update_step now u c)" using Cons.prems(1) u by (auto simp: update_step_def dist_ok_def split: prod.split)
  then show ?case using Cons by simp
qed simp

lemma holds_ok:
  "\<lbrakk>case h of Held r \<Rightarrow> rate_ok r | Released \<Rightarrow> True; \<forall>r. Hold r \<in> set cmds \<longrightarrow> rate_ok r\<rbrakk> \<Longrightarrow>
    (case fold handle_hold cmds h of Held r \<Rightarrow> rate_ok r | Released \<Rightarrow> True)"
  by (induction cmds arbitrary: h) (auto simp: handle_hold_def split: HoldCommand.split)

lemma process_commands_eq:
  "process_commands di c =
     (let c2 = fold (update_step (di_command_now di)) (di_updates di) (c\<lparr>dc_hold_state := fold handle_hold (di_holds di) (dc_hold_state c)\<rparr>);
          c3 = c2\<lparr>dc_replies := dc_replies c2 @ replicate (di_infos di) (InfoReply (controller_view (di_command_now di) c2))\<rparr>
      in if di_overrides di = [] then c3 else c3\<lparr>dc_hold_state := Held (last (di_overrides di))\<rparr>)"
  by (simp add: process_commands_def update_step_def[abs_def] split_def Let_def)

lemma process_commands_ok:
  assumes "dist_ok c" "dist_input_fine di" shows "dist_ok (process_commands di c)"
proof -
  let ?c = "c\<lparr>dc_hold_state := fold handle_hold (di_holds di) (dc_hold_state c)\<rparr>"
  have "dist_ok ?c" using assms holds_ok[of "dc_hold_state c" "di_holds di"] by (simp add: dist_ok_def dist_input_fine_def)
  then have "dist_ok (fold (update_step (di_command_now di)) (di_updates di) ?c)"
    using update_steps_ok assms(2) by (auto simp: dist_input_fine_def)
  then show ?thesis using assms(2) by (auto simp: process_commands_eq dist_ok_def dist_input_fine_def Let_def)
qed

lemma update_steps_fields [simp]:
  "dc_discovery (fold (update_step now) us c) = dc_discovery c" "dc_config (fold (update_step now) us c) = dc_config c"
  "dc_node_metrics (fold (update_step now) us c) = dc_node_metrics c" "dc_commands (fold (update_step now) us c) = dc_commands c"
  by (induction us arbitrary: c) (auto simp: update_step_def split: prod.split)

lemma process_commands_fields [simp]:
  "dc_discovery (process_commands di c) = dc_discovery c" "dc_config (process_commands di c) = dc_config c"
  "dc_node_metrics (process_commands di c) = dc_node_metrics c" "dc_commands (process_commands di c) = dc_commands c"
  by (simp_all add: process_commands_eq Let_def)

text \<open>What a tick leaves behind.\<close>

lemma compute_weights_fields [simp]:
  "dc_discovery (compute_weights nds c) = dc_discovery c" "dc_config (compute_weights nds c) = dc_config c"
  "dc_node_metrics (compute_weights nds c) = dc_node_metrics c" "dc_commands (compute_weights nds c) = dc_commands c"
  "dc_rate_controller (compute_weights nds c) = dc_rate_controller c"
  by (simp_all add: compute_weights_def Let_def)

definition latest_metrics :: "(NodeInfo \<Rightarrow> RemoteMetrics option) \<Rightarrow> NodeInfo list \<Rightarrow> (string \<rightharpoonup> RemoteMetrics) \<Rightarrow> (string \<rightharpoonup> RemoteMetrics)" where
  "latest_metrics fetch nds ms = fold (\<lambda>n ms. case fetch n of Some m \<Rightarrow> ms(ni_id n \<mapsto> m) | None \<Rightarrow> ms) nds ms"

lemma dist_tick_Some:
  assumes "dist_tick m iter nds di c = Some (c', d)"
  shows "dc_discovery c' = fold mark_failed (map ni_id (filter (\<lambda>n. di_fetch di n = None) nds)) (dc_discovery c)"
    "dc_config c' = dc_config c" "dc_node_metrics c' = latest_metrics (di_fetch di) nds (dc_node_metrics c)"
proof -
  let ?c1 = "fold (fetch_node (di_fetch di)) nds (process_commands di c)"
  obtain rc where "c' = distribute_node_rates nds (target_rps d) (compute_weights nds (?c1\<lparr>dc_rate_controller := rc\<rparr>))"
    using assms by (auto simp: dist_tick_def Let_def bind_Some_iff split: prod.splits)
  then show "dc_discovery c' = fold mark_failed (map ni_id (filter (\<lambda>n. di_fetch di n = None) nds)) (dc_discovery c)"
    "dc_config c' = dc_config c" "dc_node_metrics c' = latest_metrics (di_fetch di) nds (dc_node_metrics c)"
    by (simp_all add: distribute_node_rates_def send_nodes fetch_nodes latest_metrics_def)
qed

lemma dist_tick_ok:
  assumes "dist_ok c" "dist_input_fine di" "cores_fit nds"
  shows "\<exists>c' d. dist_tick m iter nds di c = Some (c', d) \<and> dist_ok c'"
proof -
  define c1 where "c1 = fold (fetch_node (di_fetch di)) nds (process_commands di c)"
  define summary where "summary = (aggregate_metrics iter c1)\<lparr>ms_external_signals := upsert_signals (di_polled di) (di_pushed di)\<rparr>"
  have ok1: "dist_ok c1" using process_commands_ok[OF assms(1,2)] by (simp add: c1_def fetch_nodes dist_ok_def)
  obtain rc d where d: "(case dc_hold_state c1 of Held rps \<Rightarrow> Some (dc_rate_controller c1, \<lparr>target_rps = rps\<rparr>)
      | Released \<Rightarrow> RateController_update m (di_control_now di) summary (dc_rate_controller c1)) = Some (rc, d)"
    "controller_ok rc" "rate_ok (target_rps d)"
  proof (cases "dc_hold_state c1")
    case Released
    then show thesis using that dyn_rate.update_total[of "dc_rate_controller c1" m "di_control_now di" summary] ok1
      by (auto simp: dist_ok_def)
  next
    case (Held r)
    then show thesis using that[of "dc_rate_controller c1" "\<lparr>target_rps = r\<rparr>"] ok1 by (simp add: dist_ok_def)
  qed
  have "dist_ok (distribute_node_rates nds (target_rps d) (compute_weights nds (c1\<lparr>dc_rate_controller := rc\<rparr>)))"
    using ok1 d(2,3) assms(3) by (intro node_rates_ok compute_weights_ok) (auto simp: dist_ok_def)
  moreover have "dist_tick m iter nds di c = Some (distribute_node_rates nds (target_rps d) (compute_weights nds (c1\<lparr>dc_rate_controller := rc\<rparr>)), d)"
    unfolding dist_tick_def Let_def c1_def[symmetric] summary_def[symmetric] d(1) by simp
  ultimately show ?thesis by blast
qed


section \<open>Runs\<close>

lemma report_progress_fields [simp]:
  "dist_ok (report_progress iter start now nds d c) = dist_ok c"
  "dc_discovery (report_progress iter start now nds d c) = dc_discovery c" "dc_config (report_progress iter start now nds d c) = dc_config c"
  "dc_node_metrics (report_progress iter start now nds d c) = dc_node_metrics c"
  by (simp_all add: report_progress_def dist_ok_def Let_def)

lemma dist_loop_ok:
  "\<lbrakk>dist_ok c; \<forall>di \<in> set dis. dist_input_fine di\<rbrakk> \<Longrightarrow> \<exists>c' b. dist_loop m iter start dis c = Some (c', b) \<and> dist_ok c'"
proof (induction dis arbitrary: c)
  case (Cons di dis)
  have "cores_fit (discover (dc_discovery c))" using Cons.prems(1) cores_fit_discover by (auto simp: dist_ok_def)
  then obtain c1 d where t: "dist_tick m iter (discover (dc_discovery c)) di c = Some (c1, d)" "dist_ok c1"
    using dist_tick_ok[OF Cons.prems(1)] Cons.prems(2) by fastforce
  then show ?case using Cons.IH[of "report_progress iter start (di_end di) (discover (dc_discovery c)) d c1"] Cons.prems
    by (auto simp: Let_def)
qed auto

lemma dist_finish_fields:
  assumes "dist_finish iter start now fetch c = (c', r)"
  shows "dc_commands c' = dc_commands c @ map StopTest (discover (dc_discovery c'))" "dc_discovery c' = dc_discovery c"
    "dc_node_metrics c' = latest_metrics fetch (discover (dc_discovery c)) (dc_node_metrics c)"
    "dr_total_requests r = node_totals rm_total_requests iter c'" "dr_total_errors r = node_totals rm_total_errors iter c'"
    "dr_nodes r = iter (dc_node_metrics c')"
proof -
  have f: "fold (\<lambda>n c. case fetch n of Some m \<Rightarrow> c\<lparr>dc_node_metrics := (dc_node_metrics c)(ni_id n \<mapsto> m)\<rparr> | None \<Rightarrow> c) nds c
      = c\<lparr>dc_node_metrics := latest_metrics fetch nds (dc_node_metrics c)\<rparr>" for nds c
    by (induction nds arbitrary: c) (auto simp: latest_metrics_def split: option.split)
  show "dc_commands c' = dc_commands c @ map StopTest (discover (dc_discovery c'))" "dc_discovery c' = dc_discovery c"
    "dc_node_metrics c' = latest_metrics fetch (discover (dc_discovery c)) (dc_node_metrics c)"
    "dr_total_requests r = node_totals rm_total_requests iter c'" "dr_total_errors r = node_totals rm_total_errors iter c'"
    "dr_nodes r = iter (dc_node_metrics c')"
    using assms unfolding dist_finish_def f by (auto simp: send_nodes Let_def)
qed

text \<open>The state in which the tick loop starts.\<close>

definition dist_started :: "dist_env \<Rightarrow> 'd DistributedCoordinator \<Rightarrow> 'd DistributedCoordinator" where
  "dist_started env c =
     (let nodes = discover (dc_discovery c); initial_rps = RateController_current_rate (dc_rate_controller c);
          c1 = fold (start_node (de_start_ok env) initial_rps) nodes (compute_weights nodes c); nodes1 = discover (dc_discovery c1)
      in distribute_node_rates nodes1 initial_rps (compute_weights nodes1 c1))"

definition started_nodes :: "dist_env \<Rightarrow> 'd DistributedCoordinator \<Rightarrow> NodeInfo list" where
  "started_nodes env c = filter (\<lambda>n. ni_id n \<notin> ni_id ` {k \<in> set (discover (dc_discovery c)). \<not> de_start_ok env k}) (discover (dc_discovery c))"

lemma dist_started_fields:
  "discover (dc_discovery (dist_started env c)) = started_nodes env c"
  "dc_node_metrics (dist_started env c) = dc_node_metrics c" "dc_config (dist_started env c) = dc_config c"
  by (auto simp: dist_started_def started_nodes_def Let_def distribute_node_rates_def send_nodes start_nodes static_discovery.disc_marks
      intro!: filter_cong)

lemma dist_run_cases:
  "dist_run m iter env dis c =
     (if started_nodes env c = [] then Some (if discover (dc_discovery c) = [] then c
          else fold (start_node (de_start_ok env) (RateController_current_rate (dc_rate_controller c))) (discover (dc_discovery c))
            (compute_weights (discover (dc_discovery c)) c), Some empty_result)
      else do {
        (c2, ended) \<leftarrow> dist_loop m iter (de_start env) dis (dist_started env c);
        Some (if ended then map_prod id Some (dist_finish iter (de_start env) (de_final_now env) (de_final_fetch env) c2) else (c2, None))
      })"
  (is "_ = (if _ then Some (if ?n = [] then c else ?c1, _) else _)")
proof -
  have "discover (dc_discovery ?c1) = started_nodes env c"
    by (auto simp: started_nodes_def start_nodes static_discovery.disc_marks intro!: filter_cong)
  moreover have "?n = [] \<Longrightarrow> started_nodes env c = []" by (simp add: started_nodes_def)
  ultimately show ?thesis by (simp add: dist_run_def dist_started_def Let_def)
qed

lemma dist_started_ok:
  assumes "dist_ok c" "rate_ok (RateController_current_rate (dc_rate_controller c))" shows "dist_ok (dist_started env c)"
    "dist_ok (fold (start_node (de_start_ok env) (RateController_current_rate (dc_rate_controller c))) (discover (dc_discovery c))
            (compute_weights (discover (dc_discovery c)) c))"
proof -
  have n: "cores_fit (discover (dc_discovery c'))" if "dist_ok c'" for c' :: "'d DistributedCoordinator"
    using that cores_fit_discover by (auto simp: dist_ok_def)
  show 1: "dist_ok (fold (start_node (de_start_ok env) (RateController_current_rate (dc_rate_controller c))) (discover (dc_discovery c))
            (compute_weights (discover (dc_discovery c)) c))"
    using node_rates_ok(2)[OF compute_weights_ok[OF assms(1) n[OF assms(1)]] assms(2)] .
  show "dist_ok (dist_started env c)"
    unfolding dist_started_def Let_def by (rule node_rates_ok(1)[OF compute_weights_ok[OF 1 n[OF 1]] assms(2)])
qed

lemma DistributedCoordinator_new_ok:
  assumes "config_ok (cfg_rate cfg)" "build_rate_controller trace_ok (cfg_rate cfg) ci start td now path = Inr rc" "cores_fit (sd_nodes d)"
  shows "dist_ok (DistributedCoordinator_new d cfg rc)" "rate_ok (RateController_current_rate (dc_rate_controller (DistributedCoordinator_new d cfg rc)))"
  using build_rate_controller_ok[OF assms(1,2)] build_current_rate_ok[OF assms(1,2)] assms(3)
  by (simp_all add: dist_ok_def DistributedCoordinator_new_def)

lemma dist_run_ok:
  assumes "dist_ok c" "rate_ok (RateController_current_rate (dc_rate_controller c))" "\<forall>di \<in> set dis. dist_input_fine di"
  shows "\<exists>c' r. dist_run m iter env dis c = Some (c', r) \<and> list_all node_command_ok (dc_commands c')"
proof (cases "started_nodes env c = []")
  case True
  then show ?thesis using dist_started_ok[OF assms(1,2)] assms(1) by (auto simp: dist_run_cases dist_ok_def)
next
  case False
  obtain c2 b where l: "dist_loop m iter (de_start env) dis (dist_started env c) = Some (c2, b)" "dist_ok c2"
    using dist_loop_ok[OF dist_started_ok(1)[OF assms(1,2)] assms(3)] by blast
  obtain c3 r where f: "dist_finish iter (de_start env) (de_final_now env) (de_final_fetch env) c2 = (c3, r)" by fastforce
  show ?thesis using False l f dist_finish_fields[OF f] by (auto simp: dist_run_cases dist_ok_def node_command_ok_def list_all_iff)
qed


lemma dist_loop_completes:
  assumes "dist_ok c" "\<forall>di \<in> set dis. dist_input_fine di" "0 < length dis"
    "\<forall>k < length dis. start + int k0 * int interval + int (Suc k) * int interval \<le> di_end (dis ! k)"
    "int (cfg_duration (dc_config c)) \<le> int (k0 + length dis) * int interval"
  shows "\<exists>c'. dist_loop m iter start dis c = Some (c', True)"
  using assms
proof (induction dis arbitrary: c k0)
  case (Cons di dis)
  let ?n = "discover (dc_discovery c)"
  have "cores_fit ?n" using Cons.prems(1) cores_fit_discover by (auto simp: dist_ok_def)
  then obtain c1 d where t: "dist_tick m iter ?n di c = Some (c1, d)" "dist_ok c1"
    using dist_tick_ok[OF Cons.prems(1)] Cons.prems(2) by fastforce
  let ?c1 = "report_progress iter start (di_end di) ?n d c1"
  show ?case
  proof (cases "?n = [] \<or> duration_since (di_end di) start \<ge> cfg_duration (dc_config c1) \<or> di_cancel di")
    case True
    then show ?thesis using t by (auto simp: Let_def)
  next
    case False
    have cfg: "dc_config ?c1 = dc_config c" using dist_tick_Some(2)[OF t(1)] by simp
    have "dis \<noteq> []"
    proof
      assume "dis = []"
      then have "int (cfg_duration (dc_config c1)) \<le> di_end di - start"
        using Cons.prems(4,5) dist_tick_Some(2)[OF t(1)] by (fastforce simp: distrib_right)
      then show False using False by (auto simp: duration_since_def)
    qed
    moreover have "\<forall>k < length dis. start + int (Suc k0) * int interval + int (Suc k) * int interval \<le> di_end (dis ! k)"
    proof (intro allI impI)
      fix k assume "k < length dis"
      then show "start + int (Suc k0) * int interval + int (Suc k) * int interval \<le> di_end (dis ! k)"
        using Cons.prems(4)[rule_format, of "Suc k"] by (simp add: distrib_right)
    qed
    moreover have "int (cfg_duration (dc_config ?c1)) \<le> int (Suc k0 + length dis) * int interval" using Cons.prems(5) cfg by simp
    ultimately obtain c' where "dist_loop m iter start dis ?c1 = Some (c', True)"
      using Cons.IH[of ?c1 "Suc k0"] t(2) Cons.prems(2) by auto
    then show ?thesis using t False by (auto simp: Let_def)
  qed
qed simp

section \<open>The last answers\<close>

text \<open>The last answer of a node before its first failure to answer, given the requests for metrics in order.\<close>

fun last_answer :: "(NodeInfo \<Rightarrow> RemoteMetrics option) list \<Rightarrow> NodeInfo \<Rightarrow> RemoteMetrics option" where
  "last_answer [] n = None"
| "last_answer (f # fs) n = (case f n of None \<Rightarrow> None | Some m \<Rightarrow> (case last_answer fs n of None \<Rightarrow> Some m | Some m' \<Rightarrow> Some m'))"

definition answering :: "(NodeInfo \<Rightarrow> RemoteMetrics option) list \<Rightarrow> NodeInfo \<Rightarrow> bool" where
  "answering fs n \<longleftrightarrow> (\<forall>f \<in> set fs. f n \<noteq> None)"

lemma last_answer_snoc:
  "last_answer (fs @ [f]) n = (if answering fs n \<and> f n \<noteq> None then f n else last_answer fs n)"
  by (induction fs) (auto simp: answering_def split: option.split)

lemma latest_metrics_other: "i \<notin> ni_id ` set nds \<Longrightarrow> latest_metrics fetch nds ms i = ms i"
  by (induction nds arbitrary: ms) (auto simp: latest_metrics_def split: option.split)

lemma latest_metrics_lookup:
  assumes "distinct (map ni_id nds)" "n \<in> set nds"
  shows "latest_metrics fetch nds ms (ni_id n) = (case fetch n of Some m \<Rightarrow> Some m | None \<Rightarrow> ms (ni_id n))"
  using assms
proof (induction nds arbitrary: ms)
  case (Cons k nds)
  show ?case
  proof (cases "n = k")
    case True
    then show ?thesis using latest_metrics_other[of "ni_id k" nds] Cons.prems by (auto simp: latest_metrics_def split: option.split)
  next
    case False
    then have "ni_id n \<in> ni_id ` set nds" using Cons.prems by auto
    then have "ni_id n \<noteq> ni_id k" using Cons.prems(1) by auto
    then show ?thesis using Cons False by (auto simp: latest_metrics_def split: option.split)
  qed
qed simp

text \<open>The invariant of the tick loop over the nodes it starts with.\<close>

definition answers_inv :: "NodeInfo list \<Rightarrow> (NodeInfo \<Rightarrow> RemoteMetrics option) list \<Rightarrow> 'd DistributedCoordinator \<Rightarrow> bool" where
  "answers_inv nds fs c \<longleftrightarrow> discover (dc_discovery c) = filter (answering fs) nds
     \<and> (\<forall>n \<in> set nds. dc_node_metrics c (ni_id n) = last_answer fs n)
     \<and> (\<forall>i. i \<notin> ni_id ` set nds \<longrightarrow> dc_node_metrics c i = None)"

lemma answers_latest:
  assumes "answers_inv nds fs c" "distinct (map ni_id nds)"
    "dc_node_metrics c' = latest_metrics f (discover (dc_discovery c)) (dc_node_metrics c)"
  shows "\<forall>n \<in> set nds. dc_node_metrics c' (ni_id n) = last_answer (fs @ [f]) n"
    "\<forall>i. i \<notin> ni_id ` set nds \<longrightarrow> dc_node_metrics c' i = None"
proof -
  let ?a = "filter (answering fs) nds"
  have a: "discover (dc_discovery c) = ?a" "distinct (map ni_id ?a)" using assms(1,2) by (auto simp: answers_inv_def distinct_map_filter)
  show "\<forall>n \<in> set nds. dc_node_metrics c' (ni_id n) = last_answer (fs @ [f]) n"
  proof
    fix n assume n: "n \<in> set nds"
    show "dc_node_metrics c' (ni_id n) = last_answer (fs @ [f]) n"
    proof (cases "answering fs n")
      case True
      then show ?thesis using latest_metrics_lookup[OF a(2), of n f] n assms(1,3) a(1)
        by (auto simp: answers_inv_def last_answer_snoc split: option.split)
    next
      case False
      then have "ni_id n \<notin> ni_id ` set ?a" using n assms(2) by (auto simp: distinct_map inj_on_def)
      then show ?thesis using latest_metrics_other n assms(1,3) a(1) False by (auto simp: answers_inv_def last_answer_snoc)
    qed
  qed
  show "\<forall>i. i \<notin> ni_id ` set nds \<longrightarrow> dc_node_metrics c' i = None"
  proof (intro allI impI)
    fix i assume i: "i \<notin> ni_id ` set nds"
    then have "i \<notin> ni_id ` set ?a" by auto
    then show "dc_node_metrics c' i = None" using latest_metrics_other[of i ?a f "dc_node_metrics c"] assms(1,3) a(1) i by (simp add: answers_inv_def)
  qed
qed

lemma dist_tick_answers:
  assumes "answers_inv nds fs c" "distinct (map ni_id nds)" "dist_tick m iter (discover (dc_discovery c)) di c = Some (c', d)"
  shows "answers_inv nds (fs @ [di_fetch di]) c'"
proof -
  have "discover (dc_discovery c') = filter (\<lambda>n. ni_id n \<notin> ni_id ` {k \<in> set nds. answering fs k \<and> di_fetch di k = None}) (filter (answering fs) nds)"
    unfolding dist_tick_Some(1)[OF assms(3)] static_discovery.disc_marks using assms(1) by (auto simp: answers_inv_def intro!: filter_cong)
  also have "\<dots> = filter (answering (fs @ [di_fetch di])) nds"
    unfolding filter_filter using assms(2) by (intro filter_cong) (auto simp: answering_def distinct_map inj_on_def)
  finally show ?thesis using answers_latest[OF assms(1,2) dist_tick_Some(3)[OF assms(3)]] by (simp add: answers_inv_def)
qed

text \<open>\<open>k\<close> ticks are made: after fewer the loop goes on, and what comes after the next turn is not read.\<close>

lemma dist_loop_answers:
  assumes "answers_inv nds fs c" "distinct (map ni_id nds)" "dist_loop m iter start dis c = Some (c', True)"
  shows "\<exists>k \<le> length dis. (\<forall>j < k. \<exists>c1. dist_loop m iter start (take j dis) c = Some (c1, False))
    \<and> dist_loop m iter start (take (Suc k) dis) c = Some (c', True) \<and> answers_inv nds (fs @ map di_fetch (take k dis)) c'"
  using assms
proof (induction dis arbitrary: c fs)
  case (Cons di dis)
  show ?case
  proof (cases "discover (dc_discovery c) = []")
    case True
    then show ?thesis using Cons.prems by (intro exI[of _ 0]) simp
  next
    case nodes: False
    then obtain c1 d where t: "dist_tick m iter (discover (dc_discovery c)) di c = Some (c1, d)"
      and r: "(if duration_since (di_end di) start \<ge> cfg_duration (dc_config c1) \<or> di_cancel di then Some (c1, True)
        else dist_loop m iter start dis (report_progress iter start (di_end di) (discover (dc_discovery c)) d c1)) = Some (c', True)"
      using Cons.prems(3) by (auto simp: Let_def bind_Some_iff)
    have i: "answers_inv nds (fs @ [di_fetch di]) c1" by (rule dist_tick_answers[OF Cons.prems(1,2) t])
    then have i': "answers_inv nds (fs @ [di_fetch di]) (report_progress iter start (di_end di) (discover (dc_discovery c)) d c1)"
      by (simp add: answers_inv_def)
    show ?thesis
    proof (cases "duration_since (di_end di) start \<ge> cfg_duration (dc_config c1) \<or> di_cancel di")
      case True
      then show ?thesis using r i t nodes by (intro exI[of _ 1]) (auto simp: Let_def)
    next
      case False
      let ?c1 = "report_progress iter start (di_end di) (discover (dc_discovery c)) d c1"
      obtain k where k: "k \<le> length dis" "\<forall>j < k. \<exists>c2. dist_loop m iter start (take j dis) ?c1 = Some (c2, False)"
        "dist_loop m iter start (take (Suc k) dis) ?c1 = Some (c', True)" "answers_inv nds ((fs @ [di_fetch di]) @ map di_fetch (take k dis)) c'"
        using Cons.IH[OF i' Cons.prems(2)] r False by auto
      have "\<exists>c2. dist_loop m iter start (take j (di # dis)) c = Some (c2, False)" if "j < Suc k" for j
        using that k(2) t False nodes by (cases j) (simp_all add: Let_def)
      then show ?thesis using k t False nodes by (intro exI[of _ "Suc k"]) (simp add: Let_def)
    qed
  qed
qed simp


lemma node_totals_sum:
  assumes "hash_order iter" "distinct (map ni_id nds)" "\<forall>i. i \<notin> ni_id ` set nds \<longrightarrow> dc_node_metrics c i = None"
  shows "node_totals f iter c = sum_list (map (\<lambda>n. case dc_node_metrics c (ni_id n) of Some m \<Rightarrow> f m | None \<Rightarrow> 0) nds)"
proof -
  let ?m = "dc_node_metrics c" and ?g = "\<lambda>i. case dc_node_metrics c i of Some m \<Rightarrow> f m | None \<Rightarrow> 0"
  have dom: "dom ?m \<subseteq> ni_id ` set nds" using assms(3) unfolding dom_def by auto
  then have "finite (dom ?m)" by (rule finite_subset) simp
  then have it: "distinct (map fst (iter ?m))" "map_of (iter ?m) = ?m" using assms(1) unfolding hash_order_def by blast+
  have e: "map (f \<circ> snd) (iter ?m) = map (?g \<circ> fst) (iter ?m)"
  proof (rule map_cong[OF refl])
    fix p assume "p \<in> set (iter ?m)"
    then have "?m (fst p) = Some (snd p)" using map_of_is_SomeI[OF it(1)] it(2) by (metis prod.collapse)
    then show "(f \<circ> snd) p = (?g \<circ> fst) p" by simp
  qed
  have "node_totals f iter c = sum_list (map ?g (map fst (iter ?m)))" unfolding node_totals_def e by simp
  also have "\<dots> = sum ?g (set (map fst (iter ?m)))" by (rule sum_list_distinct_conv_sum_set[OF it(1)])
  also have "set (map fst (iter ?m)) = dom ?m" using dom_map_of_conv_image_fst[of "iter ?m"] it(2) by simp
  also have "sum ?g (dom ?m) = sum ?g (ni_id ` set nds)" using dom by (intro sum.mono_neutral_left) (auto simp: dom_def)
  also have "\<dots> = sum (?g \<circ> ni_id) (set nds)" using assms(2) by (intro sum.reindex) (simp add: distinct_map)
  also have "\<dots> = sum_list (map (?g \<circ> ni_id) nds)" using assms(2) by (simp add: sum_list_distinct_conv_sum_set distinct_map)
  finally show ?thesis by (simp add: o_def)
qed

section \<open>Rounding of the shares\<close>

lemma f64_rnd_error:
  assumes "0 < q" shows "\<bar>f64_rnd q - q\<bar> \<le> f64_ulp q / 2"
proof -
  have "f64_rnd q - q = (of_int (rne (q / f64_ulp q)) - q / f64_ulp q) * f64_ulp q"
    using assms f64_ulp_pos[of q] by (simp add: f64_rnd_def left_diff_distrib)
  then have "\<bar>f64_rnd q - q\<bar> = \<bar>of_int (rne (q / f64_ulp q)) - q / f64_ulp q\<bar> * f64_ulp q"
    using f64_ulp_pos[of q] by (simp only: abs_mult abs_of_pos)
  also have "\<dots> \<le> 1/2 * f64_ulp q" using rne_near f64_ulp_pos[of q] by (intro mult_right_mono) auto
  finally show ?thesis by simp
qed


lemma f64_rnd_error_abs:
  assumes "0 \<le> q" shows "\<bar>f64_rnd q - q\<bar> \<le> q / 2 ^ 53 + 2 powi (- 1075)"
proof (cases "q = 0")
  case False
  then have q: "0 < q" using assms by simp
  have "(2 :: rat) powi (ilog2 q - 52) = 2 powi ilog2 q / 2 ^ 52" by (simp add: power_int_diff)
  then have "2 powi (ilog2 q - 52) \<le> q / 2 ^ 52" using ilog2_bounds(1)[OF q] by (simp add: divide_right_mono)
  moreover have "f64_ulp q \<le> 2 powi (ilog2 q - 52) + 2 powi (- 1074)"
    using q by (simp add: f64_ulp_def max_def)
  moreover have "(2 :: rat) powi (- 1074) / 2 = 2 powi (- 1075)" using power_int_diff[of "2 :: rat" "- 1074" 1] by simp
  ultimately have "f64_ulp q / 2 \<le> q / 2 ^ 53 + 2 powi (- 1075)" by simp
  then show ?thesis using f64_rnd_error[OF q] by linarith
qed simp

lemma f64_rnd_error_rel:
  assumes "2 powi (- 1022) \<le> q" shows "\<bar>f64_rnd q - q\<bar> \<le> q / 2 ^ 53"
proof -
  have q: "0 < q" using assms by (rule less_le_trans[rotated]) simp
  have "(2 :: rat) powi (- 1022) < 2 powi (ilog2 q + 1)" using ilog2_bounds(2)[OF q] assms by linarith
  then have "- 1022 \<le> ilog2 q" unfolding powi2_less_iff by linarith
  then have "max (ilog2 q - 52) (- 1074) = ilog2 q - 52" by linarith
  then have "f64_ulp q = 2 powi (ilog2 q - 52)" unfolding f64_ulp_def abs_of_pos[OF q] by (simp only:)
  also have "\<dots> = 2 powi ilog2 q / 2 ^ 52" by (simp add: power_int_diff)
  also have "\<dots> \<le> q / 2 ^ 52" using ilog2_bounds(1)[OF q] by (simp add: divide_right_mono)
  finally have "f64_ulp q / 2 \<le> q / 2 ^ 53" by simp
  then show ?thesis using f64_rnd_error[OF q] by linarith
qed

lemma key_lit_finite: "is_finite (lit q) \<Longrightarrow> key (lit q) = f64_rnd q"
  by (auto simp: key_lit finite_lit)

text \<open>The rounding of a weight, and of a share of a rate.\<close>

lemma key_weight:
  fixes c t :: u64
  assumes "unat c \<le> unat t" "0 < unat t" "unat t \<le> 2 ^ 53"
  shows "\<bar>key (f64_of_word c / f64_of_word t) - of_nat (unat c) / of_nat (unat t)\<bar> \<le> of_nat (unat c) / of_nat (unat t) / 2 ^ 53"
proof -
  let ?a = "of_nat (unat c) / of_nat (unat t) :: rat"
  have k: "key (f64_of_word x) = of_nat (unat x)" if "unat x \<le> 2 ^ 53" for x :: u64
    unfolding f64_of_word_def f64_of_nat_def using rep_lit(2)[OF f64_of_nat_rep[OF that]] .
  have kc: "key (f64_of_word c) = of_nat (unat c)" "key (f64_of_word t) = of_nat (unat t)"
    by (rule k[OF le_trans[OF assms(1,3)]], rule k[OF assms(3)])
  have "key (f64_of_word t) \<noteq> 0" unfolding kc using assms(2) by (simp only: of_nat_eq_0_iff)
  then have d: "f64_of_word c / f64_of_word t = lit ?a" unfolding kc[symmetric] by (rule fdiv_lit[OF is_finite_of_u64 is_finite_of_u64])
  have "is_finite (lit ?a)" unfolding d[symmetric] using weight_quotient_ok[of c t] assms(1,2)
    by (auto simp: weight_ok_def word_le_nat_alt unat_gt_0)
  then have key: "key (f64_of_word c / f64_of_word t) = f64_rnd ?a" unfolding d by (rule key_lit_finite)
  show ?thesis
  proof (cases "unat c = 0")
    case False
    have "(of_nat (unat t) :: rat) \<le> of_nat (2 ^ 53)" using assms(3) by (rule of_nat_mono)
    then have "1 / 2 ^ 53 \<le> 1 / (of_nat (unat t) :: rat)" using assms(2) by (simp add: frac_le del: of_nat_unat)
    also have "\<dots> \<le> ?a" using False of_nat_mono[of 1 "unat c", where 'a = rat]
      by (intro divide_right_mono of_nat_0_le_iff) (simp del: of_nat_unat)
    finally have "1 / 2 ^ 53 \<le> ?a" .
    moreover have "(2 :: rat) powi (- 1022) \<le> 2 powi (- 53)" unfolding powi2_le_iff by simp
    moreover have "(2 :: rat) powi (- 53) = 1 / 2 ^ 53" by (simp add: power_int_minus)
    ultimately have "2 powi (- 1022) \<le> ?a" by linarith
    then show ?thesis unfolding key by (rule f64_rnd_error_rel)
  qed (simp add: key)
qed

lemma share_error:
  assumes "rate_ok r" "weight_ok w" "\<bar>key w - a\<bar> \<le> a / 2 ^ 53" "0 \<le> a"
  shows "\<bar>key (r * w) - key r * a\<bar> \<le> key r * a / 2 ^ 51 + 2 powi (- 1075)"
proof -
  have R: "0 \<le> key r" "is_finite r" "0 \<le> key w" "is_finite w" using assms(1,2) by (auto simp: rate_ok_def weight_ok_def fle_iff)
  have "is_finite (r * w)" using rate_ok_share[OF assms(1,2)] by (simp add: rate_ok_def)
  then have k: "key (r * w) = f64_rnd (key r * key w)" unfolding fmul_lit[OF R(2,4)] by (rule key_lit_finite)
  have "a / 2 ^ 53 \<le> a" using assms(4) by simp
  then have w: "key w \<le> 2 * a" using assms(3) unfolding abs_le_iff by linarith
  have 1: "\<bar>key (r * w) - key r * key w\<bar> \<le> key r * key w / 2 ^ 53 + 2 powi (- 1075)"
    unfolding k by (rule f64_rnd_error_abs) (use R in simp)
  have 2: "key r * key w \<le> key r * a * 2" using mult_left_mono[OF w R(1)] by simp
  have 3: "\<bar>key r * key w - key r * a\<bar> \<le> key r * a / 2 ^ 53"
    using mult_left_mono[OF assms(3) R(1)] R(1) by (simp add: abs_mult flip: right_diff_distrib)
  have 4: "0 \<le> key r * a" using R(1) assms(4) by simp
  have arith: "\<bar>x - u\<bar> \<le> u / 2 ^ 51 + e" if "\<bar>x - v\<bar> \<le> v / 2 ^ 53 + e" "v \<le> u * 2" "\<bar>v - u\<bar> \<le> u / 2 ^ 53" "0 \<le> u" for u v x e :: rat
  proof -
    have "v / 2 ^ 53 \<le> u / 2 ^ 52" using that(2) by simp
    moreover have "u / 2 ^ 52 + u / 2 ^ 53 \<le> u / 2 ^ 51" using that(4) by simp
    ultimately show ?thesis using that(1,3) unfolding abs_le_iff by linarith
  qed
  show ?thesis by (rule arith[OF 1 2 3 4])
qed


lemma shares_error:
  assumes "rate_ok r" "0 \<le> t" "\<And>n. n \<in> set nds \<Longrightarrow> \<bar>key (s n) - key r * a n\<bar> \<le> key r * a n / 2 ^ 51 + t"
  shows "\<bar>sum_list (map (key \<circ> s) nds) - key r * sum_list (map a nds)\<bar> \<le> key r * sum_list (map a nds) / 2 ^ 51 + of_nat (length nds) * t"
  using assms(3)
proof (induction nds)
  case (Cons n nds)
  have 1: "\<bar>key (s n) - key r * a n\<bar> \<le> key r * a n / 2 ^ 51 + t" using Cons.prems[of n] by simp
  have 2: "\<bar>sum_list (map (key \<circ> s) nds) - key r * sum_list (map a nds)\<bar> \<le> key r * sum_list (map a nds) / 2 ^ 51 + of_nat (length nds) * t"
    by (rule Cons.IH) (rule Cons.prems, simp)
  have 3: "key r * (a n + sum_list (map a nds)) = key r * a n + key r * sum_list (map a nds)"
    "of_nat (length (n # nds)) * t = t + of_nat (length nds) * t" by (simp_all add: distrib_left distrib_right)
  show ?case unfolding list.map sum_list.Cons 3 add_divide_distrib o_def using 1 2 unfolding abs_le_iff o_def by linarith
qed simp

lemma sum_list_div: "sum_list (map (\<lambda>n. f n / d) nds) = sum_list (map f nds) / (d :: rat)"
  by (induction nds) (simp_all add: add_divide_distrib)

lemma node_shares_add_up:
  assumes "distinct (map ni_id nds)" "rate_ok r" "0 < sum_list (map (unat \<circ> ni_cores) nds)" "sum_list (map (unat \<circ> ni_cores) nds) \<le> 2 ^ 53"
  shows "\<bar>sum_list (map (key \<circ> node_share r (compute_weights nds c)) nds) - key r\<bar> \<le> key r / 2 ^ 51 + of_nat (length nds) * 2 powi (- 1075)"
proof -
  let ?t = "sum_list (map ni_cores nds)" and ?T = "sum_list (map (unat \<circ> ni_cores) nds)"
  have fit: "cores_fit nds" using assms(4) by (simp add: cores_fit_def)
  have t: "unat ?t = ?T" "?t \<noteq> 0" using cores_sum(1)[OF fit] assms(3) by (auto simp del: sum_list_eq_0_iff)
  let ?a = "\<lambda>n. of_nat (unat (ni_cores n)) / of_nat ?T :: rat"
  have "\<bar>key (node_share r (compute_weights nds c) n) - key r * ?a n\<bar> \<le> key r * ?a n / 2 ^ 51 + 2 powi (- 1075)" if n: "n \<in> set nds" for n
  proof -
    let ?w = "f64_of_word (ni_cores n) / f64_of_word ?t"
    have share: "node_share r (compute_weights nds c) n = r * ?w"
      using t(2) fold_update_distinct[OF assms(1) n, of "\<lambda>n. f64_of_word (ni_cores n) / f64_of_word ?t"]
      by (simp add: node_share_def compute_weights_def Let_def)
    have "ni_cores n \<le> ?t" by (rule cores_sum(2)[OF fit n])
    then have w: "weight_ok ?w" "\<bar>key ?w - ?a n\<bar> \<le> ?a n / 2 ^ 53"
      using weight_quotient_ok[OF _ t(2)] key_weight[of "ni_cores n" ?t] assms(3,4) unfolding t(1) by (auto simp: word_le_nat_alt t(1))
    show ?thesis unfolding share by (rule share_error[OF assms(2) w]) (intro divide_nonneg_nonneg of_nat_0_le_iff)
  qed
  then have e: "\<bar>sum_list (map (key \<circ> node_share r (compute_weights nds c)) nds) - key r * sum_list (map ?a nds)\<bar>
      \<le> key r * sum_list (map ?a nds) / 2 ^ 51 + of_nat (length nds) * 2 powi (- 1075)"
    by (intro shares_error[OF assms(2)]) simp_all
  have "sum_list (map (\<lambda>n. of_nat (unat (ni_cores n)) :: rat) nds) = of_nat ?T" by (induction nds) simp_all
  then have "sum_list (map ?a nds) = of_nat ?T / of_nat ?T" by (simp only: sum_list_div)
  moreover have "(of_nat ?T :: rat) \<noteq> 0" using assms(3) by (simp only: of_nat_eq_0_iff)
  ultimately have one: "sum_list (map ?a nds) = 1" by (simp only: divide_self_if if_False)
  show ?thesis using e unfolding one mult_1_right .
qed


section \<open>Metrics of failed nodes\<close>

lemma metric_max_ge:
  assumes "m \<in> set ms" "\<not> is_nan (f m)" shows "f m \<le> metric_max f ms"
proof -
  have nan: "\<not> is_nan (foldl fmax a xs)" if "\<not> is_nan a" for a xs
    using that by (induction xs arbitrary: a) (auto simp: fmax_nan)
  have ge: "a \<le> foldl fmax a xs" if "\<not> is_nan a" for a xs
    using that
  proof (induction xs arbitrary: a)
    case (Cons x xs)
    then show ?case using fmax_ge(1)[of a x] fle_trans fmax_nan by fastforce
  qed simp
  have "x \<le> foldl fmax a xs" if "x \<in> set xs" "\<not> is_nan x" "\<not> is_nan a" for x a xs
    using that
  proof (induction xs arbitrary: a)
    case (Cons y xs)
    then show ?case using ge[of "fmax a y" xs] fmax_ge(2)[of x a] fle_trans fmax_nan by auto
  qed simp
  then show ?thesis using assms unfolding metric_max_def by (simp add: lit_01)
qed

lemma latest_metrics_finite: "finite (dom ms) \<Longrightarrow> finite (dom (latest_metrics fetch nds ms))"
  by (induction nds arbitrary: ms) (auto simp: latest_metrics_def split: option.split)

lemma f64_to_u64_mono: "x \<le> y \<Longrightarrow> f64_to_u64 x \<le> f64_to_u64 y"
proof -
  have u: "unat (f64_to_u64 x) = f64_to_nat (2 ^ 64 - 1) x" for x
    using f64_to_nat_le[of "2 ^ 64 - 1" x] by (simp add: f64_to_u64_def unsigned_of_nat take_bit_nat_eq_self)
  show "x \<le> y \<Longrightarrow> ?thesis" unfolding word_le_nat_alt u by (rule f64_to_nat_mono)
qed

lemma dist_loop_failed_metrics:
  assumes "dist_loop m iter start dis c = Some (c', b)" "i \<notin> ni_id ` set (discover (dc_discovery c))"
  shows "dc_node_metrics c' i = dc_node_metrics c i \<and> (finite (dom (dc_node_metrics c)) \<longrightarrow> finite (dom (dc_node_metrics c')))"
  using assms
proof (induction dis arbitrary: c)
  case (Cons di dis)
  show ?case
  proof (cases "discover (dc_discovery c) = []")
    case False
    then obtain c1 d where t: "dist_tick m iter (discover (dc_discovery c)) di c = Some (c1, d)"
      and r: "(if duration_since (di_end di) start \<ge> cfg_duration (dc_config c1) \<or> di_cancel di then Some (c1, True)
        else dist_loop m iter start dis (report_progress iter start (di_end di) (discover (dc_discovery c)) d c1)) = Some (c', b)"
      using Cons.prems(1) by (auto simp: Let_def bind_Some_iff)
    have "dc_node_metrics c1 i = dc_node_metrics c i" "finite (dom (dc_node_metrics c)) \<Longrightarrow> finite (dom (dc_node_metrics c1))"
      using latest_metrics_other[OF Cons.prems(2)] latest_metrics_finite dist_tick_Some(3)[OF t] by simp_all
    moreover have "i \<notin> ni_id ` set (discover (dc_discovery c1))"
      using Cons.prems(2) unfolding dist_tick_Some(1)[OF t] static_discovery.disc_marks by auto
    ultimately show ?thesis
      using r Cons.IH[of "report_progress iter start (di_end di) (discover (dc_discovery c)) d c1"] by (auto split: if_splits)
  qed (use Cons.prems in simp)
qed simp

lemma fmul_mono_left:
  assumes "is_finite x" "0 \<le> x" "x \<le> y" "is_finite k" "0 < k" shows "x * k \<le> y * k"
proof (cases "is_finite y")
  case True
  have "key x * key k \<le> key y * key k" using assms by (intro mult_right_mono) (auto simp: f64_order)
  then show ?thesis unfolding fmul_lit[OF assms(1,4)] fmul_lit[OF True assms(4)] by (rule lit_mono)
next
  case False
  have "y = f64_infinity"
  proof -
    have "a = RPInf" if "a \<noteq> RNaN" "0 \<le> raw_key a" "\<not> (case a of RFin _ \<Rightarrow> True | _ \<Rightarrow> False)" for a
      using that by (cases a) auto
    moreover have "\<not> is_nan y" "0 \<le> key y" using assms(2,3) by (auto simp: fle_iff)
    ultimately show ?thesis using False by transfer auto
  qed
  moreover have "f64_infinity * k = f64_infinity"
  proof -
    have "\<not> f64_huge < 0" by (simp add: not_less)
    then have "raw_mul RPInf a = RPInf" if "a \<noteq> RNaN" "0 < raw_key a" for a using that by (cases a) (auto simp: raw_inf_def)
    moreover have "\<not> is_nan k" "0 < key k" using assms(5) by (auto simp: flt_iff)
    ultimately show ?thesis by transfer auto
  qed
  moreover have "key (x * k) \<le> f64_huge" "\<not> is_nan (x * k)"
    unfolding fmul_lit[OF assms(1,4)] by (simp_all add: key_lit)
  ultimately show ?thesis by (simp add: fle_iff)
qed

lemma dist_run_ends:
  assumes "config_ok (cfg_rate cfg)" "build_rate_controller trace_ok (cfg_rate cfg) ci start td now path = Inr rc"
    "cores_fit (sd_nodes d)" "\<forall>di \<in> set dis. dist_input_fine di" "0 < length dis"
    "\<forall>k < length dis. de_start env + int (Suc k) * int interval \<le> di_end (dis ! k)" "cfg_duration cfg \<le> length dis * interval"
  shows "\<exists>c r before. dist_run m iter env dis (DistributedCoordinator_new d cfg rc) = Some (c, Some r)
    \<and> dc_commands c = before @ map StopTest (discover (dc_discovery c))"
proof (cases "started_nodes env (DistributedCoordinator_new d cfg rc) = []")
  case True
  let ?c = "DistributedCoordinator_new d cfg rc"
  let ?c1 = "fold (start_node (de_start_ok env) (RateController_current_rate (dc_rate_controller ?c))) (discover (dc_discovery ?c))
      (compute_weights (discover (dc_discovery ?c)) ?c)"
  have "discover (dc_discovery ?c1) = started_nodes env ?c"
    by (auto simp: started_nodes_def start_nodes static_discovery.disc_marks intro!: filter_cong)
  then show ?thesis using True by (auto simp: dist_run_cases)
next
  case False
  let ?c = "DistributedCoordinator_new d cfg rc"
  note ok = dist_started_ok(1)[OF DistributedCoordinator_new_ok[OF assms(1-3)], of env]
  have "dc_config (dist_started env ?c) = cfg" by (simp add: dist_started_fields DistributedCoordinator_new_def)
  moreover have "int (cfg_duration cfg) \<le> int (0 + length dis) * int interval" using assms(7) by (simp flip: of_nat_mult)
  ultimately obtain c2 where l: "dist_loop m iter (de_start env) dis (dist_started env ?c) = Some (c2, True)"
    using dist_loop_completes[OF ok assms(4,5), where start = "de_start env" and ?k0.0 = 0 and interval = interval and m = m and iter = iter] assms(6) by auto
  obtain c3 r where f: "dist_finish iter (de_start env) (de_final_now env) (de_final_fetch env) c2 = (c3, r)" by fastforce
  show ?thesis using False l f dist_finish_fields(1)[OF f] by (auto simp: dist_run_cases)
qed

section \<open>Properties\<close>


text \<open>
  C12. A distributed test ends: when every tick ends at least one control interval after the one before, the run
  returns a result within as many ticks as intervals fit the test duration, rounded up, however many agents
  fail on the way, and the last commands it sends tell every agent that has not failed to stop.
\<close>

theorem dist_run_completes:
  assumes "config_ok (cfg_rate cfg)" "build_rate_controller trace_ok (cfg_rate cfg) ci start td now path = Inr rc"
    "cores_fit (sd_nodes d)" "\<forall>di \<in> set dis. dist_input_fine di" "0 < length dis"
    "\<forall>k < length dis. de_start env + int (Suc k) * int interval \<le> di_end (dis ! k)" "cfg_duration cfg \<le> length dis * interval"
  shows "\<exists>c r before. dist_run m iter env dis (DistributedCoordinator_new d cfg rc) = Some (c, Some r)
    \<and> dc_commands c = before @ map StopTest (discover (dc_discovery c))"
  by (rule dist_run_ends[OF assms])

text \<open>
  C11. The result of a distributed test counts every agent once, with its last answer: the totals of a completed
  run are the sums, over the agents that could be started, of the counters each reported last before it
  failed to answer, or at the end. The run made \<open>k\<close> ticks: with fewer inputs it is still running, and what comes
  after the next turn of the loop is not read.
\<close>

theorem dist_result_counts_last_answers:
  assumes "dist_run m iter env dis c0 = Some (c, Some r)" "hash_order iter"
    "distinct (map ni_id (discover (dc_discovery c0)))" "dc_node_metrics c0 = Map.empty"
  shows "\<exists>k \<le> length dis. (\<forall>j < k. started_nodes env c0 \<noteq> [] \<and> (\<exists>c1. dist_run m iter env (take j dis) c0 = Some (c1, None)))
    \<and> dist_run m iter env (take (Suc k) dis) c0 = Some (c, Some r)
    \<and> (let answer = last_answer (map di_fetch (take k dis) @ [de_final_fetch env]);
           count = (\<lambda>f. sum_list (map (\<lambda>n. case answer n of Some m \<Rightarrow> f m | None \<Rightarrow> 0) (started_nodes env c0)))
       in dr_total_requests r = count rm_total_requests \<and> dr_total_errors r = count rm_total_errors)"
proof (cases "started_nodes env c0 = []")
  case True
  then show ?thesis using assms(1) by (intro exI[of _ 0]) (auto simp: dist_run_cases empty_result_def)
next
  case False
  let ?n = "started_nodes env c0"
  have dist: "distinct (map ni_id ?n)" using assms(3) by (simp add: started_nodes_def distinct_map_filter)
  obtain c2 where l: "dist_loop m iter (de_start env) dis (dist_started env c0) = Some (c2, True)"
    "dist_finish iter (de_start env) (de_final_now env) (de_final_fetch env) c2 = (c, r)"
    using assms(1) False by (auto simp: dist_run_cases bind_Some_iff map_prod_def split: if_splits prod.splits)
  have "answers_inv ?n [] (dist_started env c0)" using assms(4) by (simp add: answers_inv_def answering_def dist_started_fields)
  then obtain k where k: "k \<le> length dis" "\<forall>j < k. \<exists>c1. dist_loop m iter (de_start env) (take j dis) (dist_started env c0) = Some (c1, False)"
    "dist_loop m iter (de_start env) (take (Suc k) dis) (dist_started env c0) = Some (c2, True)" "answers_inv ?n (map di_fetch (take k dis)) c2"
    using dist_loop_answers[OF _ dist l(1), of "[]"] by auto
  note a = answers_latest[OF k(4) dist dist_finish_fields(3)[OF l(2)]]
  have "node_totals f iter c = sum_list (map (\<lambda>n. case last_answer (map di_fetch (take k dis) @ [de_final_fetch env]) n of Some m \<Rightarrow> f m | None \<Rightarrow> 0) ?n)" for f
    unfolding node_totals_sum[OF assms(2) dist a(2)] using a(1) by (intro arg_cong[of _ _ sum_list] map_cong) auto
  moreover have "\<exists>c1. dist_run m iter env (take j dis) c0 = Some (c1, None)" if "j < k" for j
    using k(2)[rule_format, OF that] False by (auto simp: dist_run_cases)
  moreover have "dist_run m iter env (take (Suc k) dis) c0 = Some (c, Some r)" using k(3) l(2) False by (simp add: dist_run_cases)
  ultimately show ?thesis using k(1) False dist_finish_fields(4,5)[OF l(2)] unfolding Let_def by auto
qed

text \<open>
  C38. The shares of the agents add up to the rate: the rates sent for one total rate differ from it in sum by at
  most one part in two to the 51, plus the smallest half unit of double precision for each agent.
\<close>

theorem shares_add_up:
  assumes "distinct (map ni_id nodes)" "rate_ok r" "0 < sum_list (map (unat \<circ> ni_cores) nodes)"
    "sum_list (map (unat \<circ> ni_cores) nodes) \<le> 2 ^ 53"
  shows "\<exists>rates. dc_commands (distribute_node_rates nodes r (compute_weights nodes c)) = dc_commands c @ map2 SetRate nodes rates
    \<and> length rates = length nodes \<and> \<bar>sum_list (map key rates) - key r\<bar> \<le> key r / 2 ^ 51 + of_nat (length nodes) * 2 powi (- 1075)"
proof (intro exI conjI)
  let ?rates = "map (node_share r (compute_weights nodes c)) nodes"
  show "dc_commands (distribute_node_rates nodes r (compute_weights nodes c)) = dc_commands c @ map2 SetRate nodes ?rates"
    by (simp add: distribute_node_rates_def send_nodes zip_map2 zip_same_conv_map)
  show "\<bar>sum_list (map key ?rates) - key r\<bar> \<le> key r / 2 ^ 51 + of_nat (length nodes) * 2 powi (- 1075)"
    unfolding map_map by (rule node_shares_add_up[OF assms])
qed simp

text \<open>
  C39. The latency of a failed agent is never forgotten: whatever the other agents report in later ticks, the p99
  latency given to the rate controller stays at or above the last one the failed agent reported.
\<close>

theorem failed_node_latency_sticks:
  assumes "dist_loop m iter start dis c = Some (c', b)" "hash_order iter" "finite (dom (dc_node_metrics c))"
    "i \<notin> ni_id ` set (discover (dc_discovery c))" "dc_node_metrics c i = Some x" "rate_ok (rm_latency_p99_ms x)"
  shows "f64_to_u64 (rm_latency_p99_ms x * lit 1000000) \<le> ms_latency_p99_ns (aggregate_metrics iter c')"
proof -
  have "dc_node_metrics c' i = Some x" "finite (dom (dc_node_metrics c'))"
    using dist_loop_failed_metrics[OF assms(1,4)] assms(3,5) by simp_all
  then have "x \<in> snd ` set (iter (dc_node_metrics c'))"
    using assms(2) map_of_SomeD[of "iter (dc_node_metrics c')" i x] unfolding hash_order_def by force
  then have le: "rm_latency_p99_ms x \<le> metric_max rm_latency_p99_ms (map snd (iter (dc_node_metrics c')))"
    using assms(6) by (intro metric_max_ge) (auto simp: rate_ok_def finite_not_nan)
  then show ?thesis using assms(6) unfolding aggregate_metrics_def Let_def
    by (auto intro!: f64_to_u64_mono fmul_mono_left simp: rate_ok_def f64_eval simp flip: lit_01)
qed


section \<open>Example run\<close>

text \<open>Hash maps iterated in the order of their keys.\<close>

definition key_order :: iter_order where
  "key_order ms = map (\<lambda>i. (i, the (ms i))) (sorted_list_of_set (dom ms))"

lemma key_order_hash: "hash_order key_order"
  unfolding hash_order_def
proof (intro allI impI conjI)
  fix ms :: "string \<rightharpoonup> RemoteMetrics" assume fin: "finite (dom ms)"
  show "distinct (map fst (key_order ms))" by (simp add: key_order_def o_def)
  show "map_of (key_order ms) = ms"
  proof
    fix i
    show "map_of (key_order ms) i = ms i"
      using fin by (cases "ms i") (auto simp: key_order_def map_of_map_restrict restrict_map_def domIff)
  qed
qed

definition demo_nodes :: "NodeInfo list" where
  "demo_nodes = [\<lparr>ni_id = ''a'', ni_addr = ''a:1'', ni_cores = 2, ni_state = NS_Idle\<rparr>,
     \<lparr>ni_id = ''b'', ni_addr = ''b:1'', ni_cores = 1, ni_state = NS_Idle\<rparr>]"

definition demo_remote :: "string \<Rightarrow> u64 \<Rightarrow> RemoteMetrics" where
  "demo_remote i n = \<lparr>rm_node_id = i, rm_current_rps = lit 10, rm_target_rps = lit 10, rm_total_requests = n, rm_total_errors = 0,
     rm_error_rate = lit 0, rm_latency_p50_ms = lit 1, rm_latency_p90_ms = lit 2, rm_latency_p99_ms = lit 3, rm_timeout_count = 0,
     rm_in_flight_drops = 0, rm_in_flight_count = 0, rm_in_flight_capacity = 0\<rparr>"

text \<open>The second node answers only in the first tick.\<close>

definition demo_dist_input :: "instant \<Rightarrow> u64 \<Rightarrow> dist_input" where
  "demo_dist_input t n = \<lparr>di_holds = [Hold (lit 50), Release], di_updates = [], di_infos = 1, di_overrides = [], di_command_now = t,
     di_fetch = (\<lambda>k. if ni_id k = ''b'' \<and> 3000000000 < t then None else Some (demo_remote (ni_id k) n)),
     di_polled = [(''load'', lit 3)], di_pushed = [], di_control_now = t, di_end = t, di_cancel = False\<rparr>"

definition demo_env :: dist_env where
  "demo_env = \<lparr>de_start = 0, de_start_ok = (\<lambda>_. True),
     de_final_fetch = (\<lambda>k. if ni_id k = ''b'' then None else Some (demo_remote (ni_id k) 9)), de_final_now = 6000000000\<rparr>"

definition demo_spec :: "unit TestSpec" where
  "demo_spec = \<lparr>spec_targets = [''http://localhost''], spec_method = ''GET'', spec_duration = ''6s'', spec_rate = RS_Static (lit 100),
     spec_headers = [], spec_num_cores = 0, spec_timeout = ''30s'', spec_error_status_threshold = 400, spec_scheduler = SchedConstantRate,
     spec_http_version = Http1, spec_protocol = None, spec_plugin = None, spec_connection_policy = None, spec_external_metrics_url = None,
     spec_external_metrics_field = None, spec_max_requests = None, spec_autostop_threshold = None, spec_health_sample_rate = lit 0,
     spec_control_trace = None\<rparr>"


definition demo_config :: "unit TestConfig" where
  "demo_config = (case into_config demo_spec of Some (Inr cfg) \<Rightarrow> cfg)"

lemma demo_config: "into_config demo_spec = Some (Inr demo_config)" "cfg_rate demo_config = RC_Static (lit 100)" "cfg_duration demo_config = secs 6"
proof -
  have "dec 6 = ''6''" "dec 30 = ''30''" by code_simp+
  then have d: "parse_duration ''6s'' = Some (Inr (secs 6))" "parse_duration ''30s'' = Some (Inr (secs 30))"
    using parse_duration_dec[of "[]" "[]" 6] parse_duration_dec[of "[]" "[]" 30] by simp_all
  show "into_config demo_spec = Some (Inr demo_config)" "cfg_rate demo_config = RC_Static (lit 100)" "cfg_duration demo_config = secs 6"
    by (simp_all add: demo_config_def into_config_def demo_spec_def spec_bind_def spec_duration_of_def d convert_rate_def Let_def)
qed

abbreviation demo_discovery :: StaticDiscovery where
  "demo_discovery \<equiv> \<lparr>sd_nodes = demo_nodes, sd_failed = []\<rparr>"

abbreviation demo_dist :: "unit DistributedCoordinator" where
  "demo_dist \<equiv> DistributedCoordinator_new demo_discovery demo_config demo_rc"

lemma demo_dist_facts:
  "build_rate_controller False (cfg_rate demo_config) 0 0 0 0 None = Inr demo_rc" "cores_fit (sd_nodes demo_discovery)"
  "\<forall>di \<in> set [demo_dist_input 3000000000 5, demo_dist_input 6000000000 8]. dist_input_fine di"
  "config_ok (cfg_rate demo_config)" "spec_rate_ok (spec_rate demo_spec)"
  by (simp_all add: demo_config build_rate_controller_def cores_fit_def demo_nodes_def dist_input_fine_def demo_dist_input_def
      config_ok_def spec_rate_ok_def demo_spec_def rate_ok_def f64_eval flip: lit_01)


lemma demo_timing:
  "\<forall>k < length [demo_dist_input 3000000000 5, demo_dist_input 6000000000 8].
     de_start demo_env + int (Suc k) * int 3000000000 \<le> di_end ([demo_dist_input 3000000000 5, demo_dist_input 6000000000 8] ! k)"
  "cfg_duration demo_config \<le> length [demo_dist_input 3000000000 5, demo_dist_input 6000000000 8] * 3000000000"
  by (auto simp: demo_env_def demo_dist_input_def less_Suc_eq demo_config secs_def)

theorem dist_run_completes_witness:
  "\<exists>c r before. dist_run demo_libm key_order demo_env [demo_dist_input 3000000000 5, demo_dist_input 6000000000 8] demo_dist = Some (c, Some r)
    \<and> dc_commands c = before @ map StopTest (discover (dc_discovery c))"
  by (rule dist_run_completes[OF demo_dist_facts(4,1,2,3) _ demo_timing]) simp

theorem dist_result_counts_last_answers_witness:
  "\<exists>c r. dist_run demo_libm key_order demo_env [demo_dist_input 3000000000 5, demo_dist_input 6000000000 8] demo_dist = Some (c, Some r)
    \<and> dr_total_requests r \<in> {9, 14}"
proof -
  obtain c r where r: "dist_run demo_libm key_order demo_env [demo_dist_input 3000000000 5, demo_dist_input 6000000000 8] demo_dist = Some (c, Some r)"
    using dist_run_ends[OF demo_dist_facts(4,1,2,3) _ demo_timing] by fastforce
  have s: "started_nodes demo_env demo_dist = demo_nodes"
    by (simp add: started_nodes_def discover_def DistributedCoordinator_new_def demo_env_def)
  have "distinct (map ni_id (discover (dc_discovery demo_dist)))" "dc_node_metrics demo_dist = Map.empty"
    by (simp_all add: discover_def DistributedCoordinator_new_def demo_nodes_def)
  from dist_result_counts_last_answers[OF r key_order_hash this]
  obtain k where k: "k \<le> length [demo_dist_input 3000000000 5, demo_dist_input 6000000000 8]" "dr_total_requests r = sum_list (map (\<lambda>n. case last_answer (map di_fetch
      (take k [demo_dist_input 3000000000 5, demo_dist_input 6000000000 8]) @ [de_final_fetch demo_env]) n of Some m \<Rightarrow> rm_total_requests m | None \<Rightarrow> 0) demo_nodes)"
    unfolding s Let_def by blast
  then have "k = 0 \<or> k = 1 \<or> k = 2" by auto
  then have "dr_total_requests r \<in> {9, 14}" using k(2)
    by (elim disjE) (simp_all add: demo_nodes_def demo_dist_input_def demo_env_def demo_remote_def)
  then show ?thesis using r by blast
qed

theorem shares_add_up_witness:
  "\<exists>rates. dc_commands (distribute_node_rates demo_nodes (lit 100) (compute_weights demo_nodes demo_dist)) = map2 SetRate demo_nodes rates
    \<and> length rates = 2 \<and> \<bar>sum_list (map key rates) - 100\<bar> \<le> 100 / 2 ^ 51 + 2 * 2 powi (- 1075)"
proof -
  have "distinct (map ni_id demo_nodes)" "rate_ok (lit 100)" "0 < sum_list (map (unat \<circ> ni_cores) demo_nodes)"
    "sum_list (map (unat \<circ> ni_cores) demo_nodes) \<le> 2 ^ 53"
    by (simp_all add: demo_nodes_def rate_ok_def f64_eval flip: lit_01)
  note share = shares_add_up[OF this, of demo_dist]
  have "key (lit 100) = 100" "dc_commands demo_dist = []" "length demo_nodes = 2"
    by (simp_all add: f64_eval DistributedCoordinator_new_def demo_nodes_def)
  then show ?thesis using share by (simp only: append_Nil of_nat_numeral)
qed

theorem failed_node_latency_sticks_witness:
  "\<exists>c' b. dist_loop demo_libm key_order 0 [demo_dist_input 3000000000 5]
      (demo_dist\<lparr>dc_discovery := \<lparr>sd_nodes = demo_nodes, sd_failed = [''b'']\<rparr>, dc_node_metrics := [''b'' \<mapsto> demo_remote ''b'' 5]\<rparr>) = Some (c', b)
    \<and> f64_to_u64 (lit 3 * lit 1000000) \<le> ms_latency_p99_ns (aggregate_metrics key_order c')"
proof -
  let ?c = "demo_dist\<lparr>dc_discovery := \<lparr>sd_nodes = demo_nodes, sd_failed = [''b'']\<rparr>, dc_node_metrics := [''b'' \<mapsto> demo_remote ''b'' 5]\<rparr>"
  have "dist_ok ?c" using DistributedCoordinator_new_ok(1)[OF demo_dist_facts(4,1,2)] by (simp add: dist_ok_def DistributedCoordinator_new_def)
  moreover have "\<forall>di \<in> set [demo_dist_input 3000000000 5]. dist_input_fine di" using demo_dist_facts(3) by simp
  ultimately obtain c' b where l: "dist_loop demo_libm key_order 0 [demo_dist_input 3000000000 5] ?c = Some (c', b)"
    using dist_loop_ok by blast
  have "f64_to_u64 (rm_latency_p99_ms (demo_remote ''b'' 5) * lit 1000000) \<le> ms_latency_p99_ns (aggregate_metrics key_order c')"
    by (rule failed_node_latency_sticks[OF l key_order_hash, where i = "''b''"])
      (auto simp: discover_def demo_remote_def rate_ok_def f64_eval simp flip: lit_01)
  then show ?thesis using l by (auto simp: demo_remote_def)
qed

end
