(* ===== verification/Result_Store.thy ===== *)
theory Result_Store
  imports Dist_Safety
begin

text \<open>
  The store of the leader for test entries and results (\<^verbatim>\<open>netanvil-distributed/src/result_store.rs\<close>) with the test
  metadata of \<^verbatim>\<open>test_spec.rs\<close>. The results directory is a map from file names to contents whose calls may fail or
  may be the last of the process; the theorems show what a reader finds in the index after any such history.
\<close>

section \<open>Test metadata and stored results\<close>

datatype TestStatus = TS_Queued | TS_Starting | TS_Running | TS_Completed | TS_Failed | TS_Cancelled

record TestInfo =
  inf_id :: string
  inf_status :: TestStatus
  inf_created_at :: string
  inf_started_at :: "string option"
  inf_completed_at :: "string option"
  inf_config_summary :: string

record StoredNodeResult =
  snr_node_id :: string
  snr_total_requests :: u64
  snr_total_errors :: u64
  snr_current_rps :: f64
  snr_target_rps :: f64
  snr_error_rate :: f64
  snr_latency_p50_ms :: f64
  snr_latency_p90_ms :: f64
  snr_latency_p99_ms :: f64

record StoredTestResult =
  str_total_requests :: u64
  str_total_errors :: u64
  str_duration_secs :: f64
  str_request_rate :: f64
  str_error_rate :: f64
  str_latency_p50_ms :: f64
  str_latency_p90_ms :: f64
  str_latency_p99_ms :: f64
  str_nodes :: "StoredNodeResult list"

record 'd StoredTestEntry =
  ste_info :: TestInfo
  ste_spec :: "'d TestSpec"
  ste_result :: "StoredTestResult option"

definition from_distributed :: "DistributedTestResult \<Rightarrow> StoredTestResult" where
  "from_distributed r =
     (let secs = fmax (as_secs_f64 (dr_duration r)) (lit (1/1000)); ms = map snd (dr_nodes r)
      in \<lparr>str_total_requests = dr_total_requests r, str_total_errors = dr_total_errors r, str_duration_secs = secs,
          str_request_rate = f64_of_word (dr_total_requests r) / secs, str_error_rate = ratio (dr_total_errors r) (dr_total_requests r),
          str_latency_p50_ms = metric_max rm_latency_p50_ms ms, str_latency_p90_ms = metric_max rm_latency_p90_ms ms,
          str_latency_p99_ms = metric_max rm_latency_p99_ms ms,
          str_nodes = map (\<lambda>(i, m). \<lparr>snr_node_id = i, snr_total_requests = rm_total_requests m, snr_total_errors = rm_total_errors m,
            snr_current_rps = rm_current_rps m, snr_target_rps = rm_target_rps m, snr_error_rate = rm_error_rate m,
            snr_latency_p50_ms = rm_latency_p50_ms m, snr_latency_p90_ms = rm_latency_p90_ms m,
            snr_latency_p99_ms = rm_latency_p99_ms m\<rparr>) (dr_nodes r)\<rparr>)"

section \<open>The directory\<close>

text \<open>
  The files of the results directory by name. Every call that changes the directory takes its outcome from
  \<open>dk_io\<close>: it succeeds, it fails (a failed write may leave a part of the data, \<open>None\<close> the file as it was), or the
  process dies during or after the call; a call is fine when no outcome is listed. \<open>dk_crashed\<close> records that the
  process has died: no later call has an effect. A read fails when \<open>dk_read_fails\<close> says so.
\<close>

datatype io = IoOk | IoErr "string option" | CrashDuring "string option" | CrashAfter

record disk =
  dk_files :: "string \<rightharpoonup> string"
  dk_io :: "io list"
  dk_read_fails :: "bool list"
  dk_crashed :: bool

definition next_io :: "disk \<Rightarrow> io \<times> disk" where
  "next_io d = (case dk_io d of [] \<Rightarrow> (IoOk, d) | x # xs \<Rightarrow> (x, d\<lparr>dk_io := xs\<rparr>))"

definition left_over :: "string \<Rightarrow> string option \<Rightarrow> (string \<rightharpoonup> string) \<Rightarrow> (string \<rightharpoonup> string)" where
  "left_over path part fs = (case part of None \<Rightarrow> fs | Some s \<Rightarrow> fs(path \<mapsto> s))"

definition fs_write :: "string \<Rightarrow> string \<Rightarrow> disk \<Rightarrow> disk \<times> bool" where
  "fs_write path data d = (if dk_crashed d then (d, False) else
     let fs = dk_files d; (x, d') = next_io d in case x of
       IoOk \<Rightarrow> (d'\<lparr>dk_files := fs(path \<mapsto> data)\<rparr>, True)
     | IoErr part \<Rightarrow> (d'\<lparr>dk_files := left_over path part fs\<rparr>, False)
     | CrashDuring part \<Rightarrow> (d'\<lparr>dk_files := left_over path part fs, dk_crashed := True\<rparr>, False)
     | CrashAfter \<Rightarrow> (d'\<lparr>dk_files := fs(path \<mapsto> data), dk_crashed := True\<rparr>, False))"

definition fs_rename :: "string \<Rightarrow> string \<Rightarrow> disk \<Rightarrow> disk \<times> bool" where
  "fs_rename src dst d = (if dk_crashed d then (d, False) else
     let fs = dk_files d; (x, d') = next_io d in case (x, fs src) of
       (IoOk, Some s) \<Rightarrow> (d'\<lparr>dk_files := (fs(src := None))(dst \<mapsto> s)\<rparr>, True)
     | (CrashAfter, Some s) \<Rightarrow> (d'\<lparr>dk_files := (fs(src := None))(dst \<mapsto> s), dk_crashed := True\<rparr>, False)
     | (CrashDuring _, _) \<Rightarrow> (d'\<lparr>dk_crashed := True\<rparr>, False)
     | (CrashAfter, None) \<Rightarrow> (d'\<lparr>dk_crashed := True\<rparr>, False)
     | _ \<Rightarrow> (d', False))"

definition fs_remove :: "string \<Rightarrow> disk \<Rightarrow> disk \<times> bool" where
  "fs_remove path d = (if dk_crashed d then (d, False) else
     let fs = dk_files d; (x, d') = next_io d in case x of
       IoOk \<Rightarrow> (d'\<lparr>dk_files := fs(path := None)\<rparr>, fs path \<noteq> None)
     | IoErr _ \<Rightarrow> (d', False)
     | CrashDuring _ \<Rightarrow> (d'\<lparr>dk_crashed := True\<rparr>, False)
     | CrashAfter \<Rightarrow> (d'\<lparr>dk_files := fs(path := None), dk_crashed := True\<rparr>, False))"

definition fs_read :: "string \<Rightarrow> disk \<Rightarrow> disk \<times> string option" where
  "fs_read path d = (case dk_read_fails d of
     [] \<Rightarrow> (d, dk_files d path)
   | f # fs \<Rightarrow> (d\<lparr>dk_read_fails := fs\<rparr>, if f then None else dk_files d path))"

text \<open>\<^verbatim>\<open>Path::with_extension\<close> on a file name: the part after the last dot is replaced, unless the dot is the first character.\<close>

definition file_stem :: "string \<Rightarrow> string" where
  "file_stem name = (case rev (dropWhile (\<lambda>c. c \<noteq> CHR ''.'') (rev name)) of
     [] \<Rightarrow> name | [_] \<Rightarrow> name | s \<Rightarrow> butlast s)"

definition with_extension :: "string \<Rightarrow> string \<Rightarrow> string" where
  "with_extension name ext = file_stem name @ ''.'' @ ext"

definition atomic_write :: "string \<Rightarrow> string \<Rightarrow> disk \<Rightarrow> disk \<times> bool" where
  "atomic_write path data d =
     (let tmp = with_extension path ''tmp''; (d1, ok) = fs_write tmp data d
      in if ok then fs_rename tmp path d1 else (d1, False))"

section \<open>The store\<close>

text \<open>
  The JSON printer and parser of \<^verbatim>\<open>serde_json\<close> are parameters. \<open>json_index_ok\<close> is what is used of them for the
  index, a list of strings and enumeration names: what is printed is read back.
\<close>

record 'd json =
  js_entry_to :: "'d StoredTestEntry \<Rightarrow> string option"
  js_entry_from :: "string \<Rightarrow> 'd StoredTestEntry option"
  js_index_to :: "TestInfo list \<Rightarrow> string option"
  js_index_from :: "string \<Rightarrow> TestInfo list option"

definition json_index_ok :: "'d json \<Rightarrow> bool" where
  "json_index_ok J \<longleftrightarrow> (\<forall>idx. \<exists>s. js_index_to J idx = Some s \<and> js_index_from J s = Some idx)"

record ResultStore =
  rs_max_results :: nat

definition entry_path :: "string \<Rightarrow> string" where
  "entry_path i = i @ ''.json''"

definition index_path :: string where
  "index_path = ''index.json''"

definition load_index :: "'d json \<Rightarrow> disk \<Rightarrow> disk \<times> TestInfo list" where
  "load_index J d = (case fs_read index_path d of
     (d', Some data) \<Rightarrow> (d', the_or [] (js_index_from J data))
   | (d', None) \<Rightarrow> (d', []))"

definition load_entry :: "'d json \<Rightarrow> string \<Rightarrow> disk \<Rightarrow> disk \<times> 'd StoredTestEntry option" where
  "load_entry J i d = (case fs_read (entry_path i) d of
     (d', Some data) \<Rightarrow> (d', js_entry_from J data)
   | (d', None) \<Rightarrow> (d', None))"

definition is_terminal :: "TestInfo \<Rightarrow> bool" where
  "is_terminal i \<longleftrightarrow> inf_status i \<in> {TS_Completed, TS_Failed, TS_Cancelled}"

definition remove_existing :: "string \<Rightarrow> disk \<Rightarrow> disk" where
  "remove_existing i d = (if dk_files d (entry_path i) = None then d else fst (fs_remove (entry_path i) d))"

definition prune :: "ResultStore \<Rightarrow> TestInfo list \<Rightarrow> disk \<Rightarrow> disk \<times> TestInfo list" where
  "prune st index d =
     (let terminal = filter is_terminal index in
      if length terminal \<le> rs_max_results st then (d, index)
      else let remove_ids = map inf_id (take (length terminal - rs_max_results st) terminal)
           in (fold remove_existing remove_ids d, filter (\<lambda>i. inf_id i \<notin> set remove_ids) index))"

fun replace_or_append :: "TestInfo \<Rightarrow> TestInfo list \<Rightarrow> TestInfo list" where
  "replace_or_append info [] = [info]"
| "replace_or_append info (i # index) = (if inf_id i = inf_id info then info # index else i # replace_or_append info index)"

definition write_index :: "'d json \<Rightarrow> TestInfo list \<Rightarrow> disk \<Rightarrow> disk \<times> bool" where
  "write_index J index d = (case js_index_to J index of
     None \<Rightarrow> (d, False) | Some index_json \<Rightarrow> atomic_write index_path index_json d)"

definition save :: "'d json \<Rightarrow> ResultStore \<Rightarrow> 'd StoredTestEntry \<Rightarrow> disk \<Rightarrow> disk \<times> bool" where
  "save J st entry d = (case js_entry_to J entry of
     None \<Rightarrow> (d, False)
   | Some json \<Rightarrow>
       (let (d1, ok) = atomic_write (entry_path (inf_id (ste_info entry))) json d in
        if \<not> ok then (d1, False)
        else let (d2, index) = load_index J d1;
                 (d3, index') = prune st (replace_or_append (ste_info entry) index) d2
             in write_index J index' d3))"

definition ResultStore_remove :: "'d json \<Rightarrow> string \<Rightarrow> disk \<Rightarrow> disk \<times> bool" where
  "ResultStore_remove J i d =
     (let (d1, ok) = (if dk_files d (entry_path i) = None then (d, True) else fs_remove (entry_path i) d) in
      if \<not> ok then (d1, False)
      else let (d2, index) = load_index J d1 in write_index J (filter (\<lambda>x. inf_id x \<noteq> i) index) d2)"

section \<open>What the index holds\<close>

text \<open>The index a reader of the directory sees; a name is proper when it does not collide with the index file.\<close>

definition stored_index :: "'d json \<Rightarrow> disk \<Rightarrow> TestInfo list option" where
  "stored_index J d = (case dk_files d index_path of None \<Rightarrow> Some [] | Some s \<Rightarrow> js_index_from J s)"

definition proper_id :: "string \<Rightarrow> bool" where
  "proper_id i \<longleftrightarrow> i \<noteq> [] \<and> i \<noteq> ''index''"

definition index_ok :: "nat \<Rightarrow> TestInfo list \<Rightarrow> bool" where
  "index_ok n idx \<longleftrightarrow> distinct (map inf_id idx) \<and> list_all (proper_id \<circ> inf_id) idx \<and> length (filter is_terminal idx) \<le> n"

text \<open>The reference for pruning: the oldest \<open>k\<close> finished tests are dropped, every other test is kept in its place.\<close>

fun drop_terminal :: "nat \<Rightarrow> TestInfo list \<Rightarrow> TestInfo list" where
  "drop_terminal (Suc k) (i # idx) = (if is_terminal i then drop_terminal k idx else i # drop_terminal (Suc k) idx)"
| "drop_terminal _ idx = idx"

definition keep_newest :: "nat \<Rightarrow> TestInfo list \<Rightarrow> TestInfo list" where
  "keep_newest n idx = drop_terminal (length (filter is_terminal idx) - n) idx"

lemma drop_terminal_0 [simp]: "drop_terminal 0 idx = idx"
  by (cases idx) auto

lemma filter_drop_terminal: "filter is_terminal (drop_terminal k idx) = drop k (filter is_terminal idx)"
  by (induction k idx rule: drop_terminal.induct) auto

lemma set_drop_terminal: "set (drop_terminal k idx) \<subseteq> set idx"
  by (induction k idx rule: drop_terminal.induct) auto

lemma distinct_drop_terminal: "distinct (map inf_id idx) \<Longrightarrow> distinct (map inf_id (drop_terminal k idx))"
proof (induction k idx rule: drop_terminal.induct)
  case (1 k i idx)
  then have "inf_id i \<notin> inf_id ` set (drop_terminal (Suc k) idx)" using set_drop_terminal by fastforce
  with 1 show ?case by simp
qed auto

lemma drop_terminal_keeps: "i \<in> set idx \<Longrightarrow> \<not> is_terminal i \<Longrightarrow> i \<in> set (drop_terminal k idx)"
  by (induction k idx rule: drop_terminal.induct) auto

lemma filter_not_in_drop_terminal:
  assumes "distinct (map inf_id idx)"
  shows "filter (\<lambda>i. inf_id i \<notin> inf_id ` set (take k (filter is_terminal idx))) idx = drop_terminal k idx"
  using assms
proof (induction k idx rule: drop_terminal.induct)
  case (1 k i idx)
  then have ne: "inf_id i \<notin> inf_id ` set idx" by simp
  have sub: "set (take m (filter is_terminal idx)) \<subseteq> set idx" for m using set_take_subset[of m "filter is_terminal idx"] by auto
  then have ni: "inf_id i \<notin> inf_id ` set (take m (filter is_terminal idx))" for m using ne by blast
  have ins: "filter (\<lambda>x. inf_id x \<notin> insert (inf_id i) A) idx = filter (\<lambda>x. inf_id x \<notin> A) idx" for A
    using ne by (intro filter_cong) (simp_all, metis imageI)
  show ?case
  proof (cases "is_terminal i")
    case True
    then show ?thesis using 1(1)[OF True] 1(3) ins[of "inf_id ` set (take k (filter is_terminal idx))"] by simp
  next
    case False
    then show ?thesis using 1(2)[OF False] 1(3) ni[of "Suc k"] by simp
  qed
qed auto

lemma keep_newest_props:
  assumes "distinct (map inf_id idx)" "list_all (proper_id \<circ> inf_id) idx"
  shows "index_ok n (keep_newest n idx)" "set (keep_newest n idx) \<subseteq> set idx"
proof -
  show sub: "set (keep_newest n idx) \<subseteq> set idx" unfolding keep_newest_def by (rule set_drop_terminal)
  then show "index_ok n (keep_newest n idx)"
    using assms distinct_drop_terminal[OF assms(1)] unfolding index_ok_def keep_newest_def list_all_iff
    by (auto simp: filter_drop_terminal)
qed

lemma replace_or_append_ids: "inf_id ` set (replace_or_append info idx) = insert (inf_id info) (inf_id ` set idx)"
  by (induction idx) auto

lemma replace_or_append_set: "set (replace_or_append info idx) \<subseteq> insert info (set idx)" "info \<in> set (replace_or_append info idx)"
  by (induction idx) auto

lemma distinct_replace_or_append: "distinct (map inf_id idx) \<Longrightarrow> distinct (map inf_id (replace_or_append info idx))"
  by (induction idx) (auto simp: replace_or_append_ids[unfolded image_iff] image_iff, (metis replace_or_append_ids imageI insert_iff)?)

section \<open>The directory after each call\<close>

lemma file_stem_append: "s \<noteq> [] \<Longrightarrow> CHR ''.'' \<notin> set e \<Longrightarrow> file_stem (s @ CHR ''.'' # e) = s"
proof -
  assume s: "s \<noteq> []" and e: "CHR ''.'' \<notin> set e"
  have "dropWhile (\<lambda>c. c \<noteq> CHR ''.'') (rev (s @ CHR ''.'' # e)) = CHR ''.'' # rev s"
    using e by (subst rev_append, simp, subst dropWhile_append2) auto
  moreover obtain a b t where t: "s @ ''.'' = a # b # t" using s by (cases s; cases "tl s") auto
  then have "butlast (a # b # t) = s" using butlast_snoc[of s] by metis
  ultimately show ?thesis using t by (simp add: file_stem_def)
qed

lemma tmp_paths:
  "with_extension index_path ''tmp'' = ''index.tmp''"
  "i \<noteq> [] \<Longrightarrow> with_extension (entry_path i) ''tmp'' = i @ ''.tmp''"
  using file_stem_append[of i "''json''"] by (simp_all add: with_extension_def index_path_def entry_path_def file_stem_def)

lemma path_names:
  "entry_path i = entry_path j \<longleftrightarrow> i = j" "entry_path i = index_path \<longleftrightarrow> i = ''index''"
  "entry_path i \<noteq> j @ ''.tmp''" "index_path \<noteq> j @ ''.tmp''"
proof -
  have "last (entry_path i) = CHR ''n''" "last index_path = CHR ''n''" "last (j @ ''.tmp'') = CHR ''p''" "CHR ''n'' \<noteq> CHR ''p''"
    by (simp_all add: entry_path_def index_path_def)
  then show "entry_path i \<noteq> j @ ''.tmp''" "index_path \<noteq> j @ ''.tmp''" by metis+
  have "index_path = ''index'' @ ''.json''" by (simp add: index_path_def)
  then show "entry_path i = index_path \<longleftrightarrow> i = ''index''" unfolding entry_path_def by (metis append_same_eq)
qed (simp add: entry_path_def)

lemma next_io_fields [simp]:
  "dk_files (snd (next_io d)) = dk_files d" "dk_read_fails (snd (next_io d)) = dk_read_fails d"
  by (simp_all add: next_io_def split: list.split)

lemma fs_write_effect:
  "fs_write p s d = (d', ok) \<Longrightarrow> (\<forall>q. q \<noteq> p \<longrightarrow> dk_files d' q = dk_files d q) \<and> (ok \<longrightarrow> dk_files d' p = Some s) \<and> dk_read_fails d' = dk_read_fails d"
  by (cases "next_io d") (use next_io_fields[of d] in \<open>auto simp: fs_write_def left_over_def Let_def split: if_splits io.splits option.splits\<close>)

lemma fs_rename_effect:
  "fs_rename p q d = (d', ok) \<Longrightarrow> dk_files d p = Some s \<Longrightarrow> p \<noteq> q \<Longrightarrow> (\<forall>r. r \<noteq> p \<and> r \<noteq> q \<longrightarrow> dk_files d' r = dk_files d r)
     \<and> (dk_files d' q = dk_files d q \<and> \<not> ok \<or> dk_files d' q = Some s) \<and> dk_read_fails d' = dk_read_fails d"
  by (cases "next_io d") (use next_io_fields[of d] in \<open>auto simp: fs_rename_def Let_def split: if_splits io.splits option.splits\<close>)

lemma fs_remove_effect:
  "(\<forall>q. q \<noteq> p \<longrightarrow> dk_files (fst (fs_remove p d)) q = dk_files d q) \<and> dk_read_fails (fst (fs_remove p d)) = dk_read_fails d"
  by (cases "next_io d") (use next_io_fields[of d] in \<open>auto simp: fs_remove_def Let_def split: if_splits io.splits\<close>)

lemma atomic_write_effect:
  assumes "atomic_write p s d = (d', ok)" "with_extension p ''tmp'' \<noteq> p"
  shows "(\<forall>q. q \<noteq> p \<and> q \<noteq> with_extension p ''tmp'' \<longrightarrow> dk_files d' q = dk_files d q)
    \<and> (dk_files d' p = dk_files d p \<and> \<not> ok \<or> dk_files d' p = Some s) \<and> dk_read_fails d' = dk_read_fails d"
proof (cases "fs_write (with_extension p ''tmp'') s d")
  case (Pair d1 w)
  note w = fs_write_effect[OF Pair]
  show ?thesis
  proof (cases w)
    case True
    then have "fs_rename (with_extension p ''tmp'') p d1 = (d', ok)" using assms(1) Pair by (simp add: atomic_write_def Let_def)
    from fs_rename_effect[OF this _ assms(2)] w True show ?thesis using assms(2) by auto
  next
    case False
    then show ?thesis using assms Pair w by (auto simp: atomic_write_def Let_def)
  qed
qed

lemma write_entry_effect:
  assumes "atomic_write (entry_path i) s d = (d', ok)" "proper_id i"
  shows "dk_files d' index_path = dk_files d index_path" "dk_read_fails d' = dk_read_fails d"
    "ok \<Longrightarrow> dk_files d' (entry_path i) = Some s" "j \<noteq> i \<Longrightarrow> dk_files d' (entry_path j) = dk_files d (entry_path j)"
proof -
  have i: "i \<noteq> []" "i \<noteq> ''index''" using assms(2) by (simp_all add: proper_id_def)
  note e = atomic_write_effect[OF assms(1), unfolded tmp_paths(2)[OF i(1)], OF path_names(3)[symmetric]]
  show "dk_files d' index_path = dk_files d index_path" using e i path_names(2)[of i] path_names(4)[of i] by auto
  show "dk_read_fails d' = dk_read_fails d" using e by simp
  show "ok \<Longrightarrow> dk_files d' (entry_path i) = Some s" using e by simp
  show "j \<noteq> i \<Longrightarrow> dk_files d' (entry_path j) = dk_files d (entry_path j)"
    using e path_names(1)[of j i] path_names(3)[of j i] by auto
qed

lemma write_index_effect:
  assumes "write_index J idx d = (d', ok)" "json_index_ok J"
  shows "stored_index J d' = stored_index J d \<and> \<not> ok \<or> stored_index J d' = Some idx" "dk_read_fails d' = dk_read_fails d"
    "i \<noteq> ''index'' \<Longrightarrow> dk_files d' (entry_path i) = dk_files d (entry_path i)"
proof -
  obtain s where s: "js_index_to J idx = Some s" "js_index_from J s = Some idx" using assms(2) unfolding json_index_ok_def by blast
  have ne: "''index.tmp'' \<noteq> index_path" "entry_path i \<noteq> ''index.tmp''"
    using path_names(4)[of "''index''"] path_names(3)[of i "''index''"] by auto
  from assms(1) s have "atomic_write index_path s d = (d', ok)" by (simp add: write_index_def)
  note e = atomic_write_effect[OF this, unfolded tmp_paths(1), OF ne(1)]
  show "dk_read_fails d' = dk_read_fails d" using e by blast
  from e consider "dk_files d' index_path = dk_files d index_path" "\<not> ok" | "dk_files d' index_path = Some s" by blast
  then show "stored_index J d' = stored_index J d \<and> \<not> ok \<or> stored_index J d' = Some idx"
    by cases (simp_all add: stored_index_def s(2))
  show "dk_files d' (entry_path i) = dk_files d (entry_path i)" if "i \<noteq> ''index''" using e ne(2) path_names(2)[of i] that by blast
qed

lemma atomic_write_succeeds:
  "dk_io d = [] \<Longrightarrow> \<not> dk_crashed d \<Longrightarrow> \<exists>d'. atomic_write p s d = (d', True) \<and> dk_io d' = [] \<and> \<not> dk_crashed d'"
  by (simp add: atomic_write_def fs_write_def fs_rename_def next_io_def)

lemma write_index_succeeds:
  assumes "json_index_ok J" "dk_io d = []" "\<not> dk_crashed d"
  shows "\<exists>d'. write_index J idx d = (d', True) \<and> stored_index J d' = Some idx"
proof -
  obtain s where s: "js_index_to J idx = Some s" using assms(1) unfolding json_index_ok_def by blast
  obtain d' where w: "write_index J idx d = (d', True)" using atomic_write_succeeds[OF assms(2,3)] s by (auto simp: write_index_def)
  then show ?thesis using write_index_effect[OF w assms(1)] by blast
qed

lemma remove_existing_effect:
  "i \<noteq> ''index'' \<Longrightarrow> dk_files (remove_existing i d) index_path = dk_files d index_path"
  "dk_read_fails (remove_existing i d) = dk_read_fails d"
  "j \<noteq> i \<Longrightarrow> dk_files (remove_existing i d) (entry_path j) = dk_files d (entry_path j)"
  using fs_remove_effect[of "entry_path i" d] path_names(1)[of j i] path_names(2)[of i]
  by (auto simp: remove_existing_def)

lemma remove_all_effect:
  "''index'' \<notin> set ids \<Longrightarrow> dk_files (fold remove_existing ids d) index_path = dk_files d index_path"
  "dk_read_fails (fold remove_existing ids d) = dk_read_fails d"
  "j \<notin> set ids \<Longrightarrow> dk_files (fold remove_existing ids d) (entry_path j) = dk_files d (entry_path j)"
  by (induction ids arbitrary: d) (auto simp: remove_existing_effect)

lemma prune_effect:
  assumes "prune st idx d = (d', idx')" "distinct (map inf_id idx)" "list_all (proper_id \<circ> inf_id) idx"
  shows "idx' = keep_newest (rs_max_results st) idx" "dk_files d' index_path = dk_files d index_path" "dk_read_fails d' = dk_read_fails d"
    "info \<in> set idx' \<Longrightarrow> dk_files d' (entry_path (inf_id info)) = dk_files d (entry_path (inf_id info))"
proof -
  let ?t = "filter is_terminal idx"
  let ?k = "length ?t - rs_max_results st"
  have "set (take ?k ?t) \<subseteq> set idx" using set_take_subset[of ?k ?t] by auto
  then have "''index'' \<notin> set (map inf_id (take ?k ?t))" using assms(3) by (auto simp: list_all_iff proper_id_def)
  note r = remove_all_effect(1)[OF this, of d]
  consider "length ?t \<le> rs_max_results st" "d' = d" "idx' = idx"
    | "d' = fold remove_existing (map inf_id (take ?k ?t)) d" "idx' = filter (\<lambda>i. inf_id i \<notin> set (map inf_id (take ?k ?t))) idx"
    using assms(1)[symmetric] unfolding prune_def Let_def
    by (cases "length ?t \<le> rs_max_results st") (simp_all only: if_True if_False prod.inject)
  then have "idx' = drop_terminal ?k idx \<and> dk_files d' index_path = dk_files d index_path \<and> dk_read_fails d' = dk_read_fails d
    \<and> (info \<in> set idx' \<longrightarrow> dk_files d' (entry_path (inf_id info)) = dk_files d (entry_path (inf_id info)))"
  proof cases
    case 2
    note f = filter_not_in_drop_terminal[OF assms(2), of ?k, folded set_map]
    have "info \<in> set idx' \<Longrightarrow> inf_id info \<notin> set (map inf_id (take ?k ?t))" unfolding 2(2) by simp
    then show ?thesis using f r remove_all_effect(2,3) unfolding 2 by blast
  qed simp
  then show "idx' = keep_newest (rs_max_results st) idx" "dk_files d' index_path = dk_files d index_path" "dk_read_fails d' = dk_read_fails d"
    "info \<in> set idx' \<Longrightarrow> dk_files d' (entry_path (inf_id info)) = dk_files d (entry_path (inf_id info))"
    unfolding keep_newest_def by blast+
qed

lemma load_index_stored:
  "dk_read_fails d = [] \<Longrightarrow> stored_index J d = Some idx \<Longrightarrow> load_index J d = (d, idx)"
  by (auto simp: load_index_def fs_read_def stored_index_def split: option.splits)

lemma save_effect:
  assumes "save J st e d = (d', ok)" "json_index_ok J" "dk_read_fails d = []" "stored_index J d = Some idx"
    "index_ok (rs_max_results st) idx" "proper_id (inf_id (ste_info e))"
  defines "new \<equiv> keep_newest (rs_max_results st) (replace_or_append (ste_info e) idx)"
  shows "dk_read_fails d' = []" "stored_index J d' = Some idx \<and> \<not> ok \<or> stored_index J d' = Some new"
    "index_ok (rs_max_results st) new" "set new \<subseteq> insert (ste_info e) (set idx)"
    "ok \<Longrightarrow> ste_info e \<in> set new \<Longrightarrow> dk_files d' (entry_path (inf_id (ste_info e))) = js_entry_to J e"
proof -
  let ?i = "inf_id (ste_info e)" and ?r = "replace_or_append (ste_info e) idx"
  have r: "distinct (map inf_id ?r)" "list_all (proper_id \<circ> inf_id) ?r"
    using assms(5,6) distinct_replace_or_append replace_or_append_set(1)[of "ste_info e" idx] by (auto simp: index_ok_def list_all_iff)
  show "index_ok (rs_max_results st) new" "set new \<subseteq> insert (ste_info e) (set idx)"
    using keep_newest_props[OF r, of "rs_max_results st"] replace_or_append_set(1)[of "ste_info e" idx] unfolding new_def by auto
  have "dk_read_fails d' = [] \<and> (stored_index J d' = Some idx \<and> \<not> ok \<or> stored_index J d' = Some new)
    \<and> (ok \<longrightarrow> ste_info e \<in> set new \<longrightarrow> dk_files d' (entry_path ?i) = js_entry_to J e)"
  proof (cases "js_entry_to J e")
    case (Some s)
    obtain d1 w where w: "atomic_write (entry_path ?i) s d = (d1, w)" by (cases "atomic_write (entry_path ?i) s d")
    note w1 = write_entry_effect[OF w assms(6)]
    have s1: "stored_index J d1 = Some idx" using w1(1) assms(4) by (simp add: stored_index_def)
    show ?thesis
    proof (cases w)
      case True
      obtain d3 idx' where p: "prune st ?r d1 = (d3, idx')" by (cases "prune st ?r d1")
      note p1 = prune_effect[OF p r]
      from assms(1) Some w True p load_index_stored[OF _ s1] w1(2) assms(3)
      have "write_index J idx' d3 = (d', ok)" by (simp add: save_def)
      note wi = write_index_effect[OF this assms(2)]
      have "stored_index J d3 = Some idx" using s1 p1(2) by (simp add: stored_index_def)
      moreover have "dk_files d' (entry_path ?i) = dk_files d3 (entry_path ?i)" using assms(6) wi(3) by (simp add: proper_id_def)
      moreover have "idx' = new" using p1(1) by (simp add: new_def)
      ultimately show ?thesis using wi(1,2) p1(3) p1(4)[of "ste_info e"] w1(2,3) True Some assms(3) by metis
    qed (use assms(1,3) Some w w1(2) s1 in \<open>auto simp: save_def\<close>)
  qed (use assms(1,3,4) in \<open>auto simp: save_def\<close>)
  then show "dk_read_fails d' = []" "stored_index J d' = Some idx \<and> \<not> ok \<or> stored_index J d' = Some new"
    "ok \<Longrightarrow> ste_info e \<in> set new \<Longrightarrow> dk_files d' (entry_path ?i) = js_entry_to J e" by blast+
qed

section \<open>Sequences of saves\<close>

text \<open>Each save meets outcomes of its own; when the process died it is started again before the next save.\<close>

definition restart :: "io list \<Rightarrow> disk \<Rightarrow> disk" where
  "restart ios d = d\<lparr>dk_io := ios, dk_crashed := False\<rparr>"

definition save_all :: "'d json \<Rightarrow> ResultStore \<Rightarrow> ('d StoredTestEntry \<times> io list) list \<Rightarrow> disk \<Rightarrow> disk" where
  "save_all J st = fold (\<lambda>(e, ios) d. fst (save J st e (restart ios d)))"

lemma restart_fields [simp]:
  "dk_files (restart ios d) = dk_files d" "dk_read_fails (restart ios d) = dk_read_fails d" "stored_index J (restart ios d) = stored_index J d"
  by (simp_all add: restart_def stored_index_def)

lemma save_all_index:
  assumes "json_index_ok J" "dk_read_fails d = []" "stored_index J d = Some idx" "index_ok (rs_max_results st) idx"
    "\<forall>(e, ios) \<in> set saves. proper_id (inf_id (ste_info e))"
  shows "\<exists>idx'. dk_read_fails (save_all J st saves d) = [] \<and> stored_index J (save_all J st saves d) = Some idx'
    \<and> index_ok (rs_max_results st) idx' \<and> set idx' \<subseteq> set idx \<union> (ste_info \<circ> fst) ` set saves"
  using assms(2-)
proof (induction saves arbitrary: d idx)
  case (Cons x saves)
  obtain e ios where x: "x = (e, ios)" by (cases x)
  obtain d' ok where s: "save J st e (restart ios d) = (d', ok)" by (cases "save J st e (restart ios d)")
  let ?new = "keep_newest (rs_max_results st) (replace_or_append (ste_info e) idx)"
  note e = save_effect[OF s assms(1) _ _ Cons.prems(3)]
  obtain idx1 where i1: "dk_read_fails d' = []" "stored_index J d' = Some idx1" "index_ok (rs_max_results st) idx1"
    "set idx1 \<subseteq> insert (ste_info e) (set idx)"
    using e Cons.prems x by (cases "stored_index J d' = Some ?new") (auto)
  from Cons.IH[OF i1(1-3)] Cons.prems(4) obtain idx' where "dk_read_fails (save_all J st saves d') = []"
    "stored_index J (save_all J st saves d') = Some idx'" "index_ok (rs_max_results st) idx'"
    "set idx' \<subseteq> set idx1 \<union> (ste_info \<circ> fst) ` set saves" by auto
  then show ?case using i1(4) s x by (intro exI[of _ idx']) (auto simp: save_all_def)
qed (simp add: save_all_def)


text \<open>
  A read that fails is taken for an empty index: the next save replaces the index by one that lists only the test
  that is saved.
\<close>
lemma failed_read_loses_index:
  assumes "json_index_ok J" "dk_read_fails d = True # fs" "dk_io d = []" "\<not> dk_crashed d" "js_entry_to J e = Some s"
    "proper_id (inf_id (ste_info e))" "0 < rs_max_results st"
  shows "stored_index J (fst (save J st e d)) = Some [ste_info e]"
proof -
  obtain d1 where w: "atomic_write (entry_path (inf_id (ste_info e))) s d = (d1, True)" "dk_io d1 = []" "\<not> dk_crashed d1"
    using atomic_write_succeeds[OF assms(3,4)] by blast
  obtain d2 where d2: "load_index J d1 = (d2, [])" "dk_io d2 = []" "\<not> dk_crashed d2"
    using assms(2) write_entry_effect(2)[OF w(1) assms(6)] w by (auto simp: load_index_def fs_read_def)
  have "save J st e d = write_index J [ste_info e] d2" using assms(5,7) w(1) d2(1) by (simp add: save_def prune_def)
  then show ?thesis using write_index_succeeds[OF assms(1) d2(2,3)] by (metis fst_conv)
qed

section \<open>A printer and parser of the index\<close>

text \<open>A concrete printer that meets \<open>json_index_ok\<close>: each character of a string is marked, each string and list is closed.\<close>

fun print_string :: "string \<Rightarrow> string" where
  "print_string [] = ''.''"
| "print_string (c # s) = CHR ''x'' # c # print_string s"

fun scan_string :: "string \<Rightarrow> (string \<times> string) option" where
  "scan_string (a # r) = (if a = CHR ''.'' then Some ([], r) else case r of [] \<Rightarrow> None
     | c # r' \<Rightarrow> map_option (apfst ((#) c)) (scan_string r'))"
| "scan_string [] = None"

definition print_optional :: "string option \<Rightarrow> string" where
  "print_optional x = (case x of None \<Rightarrow> ''-'' | Some s \<Rightarrow> CHR ''+'' # print_string s)"

definition scan_optional :: "string \<Rightarrow> (string option \<times> string) option" where
  "scan_optional r = (case r of [] \<Rightarrow> None
     | c # r' \<Rightarrow> if c = CHR ''-'' then Some (None, r') else map_option (apfst Some) (scan_string r'))"

definition status_names :: "(char \<times> TestStatus) list" where
  "status_names = zip ''qsrcfx'' [TS_Queued, TS_Starting, TS_Running, TS_Completed, TS_Failed, TS_Cancelled]"

definition print_info :: "TestInfo \<Rightarrow> string" where
  "print_info i = [the (map_of (map prod.swap status_names) (inf_status i))] @ print_string (inf_id i) @ print_string (inf_created_at i)
     @ print_optional (inf_started_at i) @ print_optional (inf_completed_at i) @ print_string (inf_config_summary i)"

definition scan_info :: "string \<Rightarrow> (TestInfo \<times> string) option" where
  "scan_info r = (case r of [] \<Rightarrow> None | c # r0 \<Rightarrow> do {
     st \<leftarrow> map_of status_names c;
     (i, r1) \<leftarrow> scan_string r0;
     (created, r2) \<leftarrow> scan_string r1;
     (started, r3) \<leftarrow> scan_optional r2;
     (completed, r4) \<leftarrow> scan_optional r3;
     (summary, r5) \<leftarrow> scan_string r4;
     Some (\<lparr>inf_id = i, inf_status = st, inf_created_at = created, inf_started_at = started, inf_completed_at = completed,
            inf_config_summary = summary\<rparr>, r5)
   })"

definition print_index :: "TestInfo list \<Rightarrow> string" where
  "print_index idx = dec (length idx) @ CHR '':'' # concat (map print_info idx)"

fun scan_infos :: "nat \<Rightarrow> string \<Rightarrow> (TestInfo list \<times> string) option" where
  "scan_infos 0 r = Some ([], r)"
| "scan_infos (Suc n) r = do { (i, r1) \<leftarrow> scan_info r; (is, r2) \<leftarrow> scan_infos n r1; Some (i # is, r2) }"

definition scan_index :: "string \<Rightarrow> TestInfo list option" where
  "scan_index r = map_option fst (scan_infos (digits_value (takeWhile is_digit r)) (tl (dropWhile is_digit r)))"

definition demo_json :: "unit json" where
  "demo_json = \<lparr>js_entry_to = (\<lambda>_. Some ''entry''), js_entry_from = (\<lambda>_. None),
     js_index_to = (\<lambda>idx. Some (print_index idx)), js_index_from = scan_index\<rparr>"

lemma scan_print_string: "scan_string (print_string s @ r) = Some (s, r)"
  by (induction s) auto

lemma scan_print_optional: "scan_optional (print_optional x @ r) = Some (x, r)"
  by (auto simp: scan_optional_def print_optional_def scan_print_string split: option.splits)

lemma scan_print_info: "scan_info (print_info i @ r) = Some (i, r)"
proof -
  have "map_of status_names (the (map_of (map prod.swap status_names) (inf_status i))) = Some (inf_status i)"
    by (cases "inf_status i") (simp_all add: status_names_def)
  then show ?thesis by (simp add: scan_info_def print_info_def scan_print_string scan_print_optional)
qed

lemma scan_print_infos: "scan_infos (length idx) (concat (map print_info idx) @ r) = Some (idx, r)"
  by (induction idx arbitrary: r) (simp_all add: scan_print_info)

lemma json_index_ok_demo: "json_index_ok demo_json"
proof -
  have d: "list_all is_digit (dec n)" for n by (rule dec_text_digits)
  then have "takeWhile is_digit (dec n @ CHR '':'' # r) = dec n" "dropWhile is_digit (dec n @ CHR '':'' # r) = CHR '':'' # r" for n r
    by (simp_all add: list_all_iff takeWhile_append dropWhile_append is_digit_def[of "CHR '':''"])
  then have "scan_index (print_index idx) = Some idx" for idx
    using scan_print_infos[of idx "[]"] by (simp add: scan_index_def print_index_def digits_value_dec)
  then show ?thesis by (simp add: json_index_ok_def demo_json_def)
qed

definition demo_entry :: "string \<Rightarrow> TestStatus \<Rightarrow> unit StoredTestEntry" where
  "demo_entry i st = \<lparr>ste_info = \<lparr>inf_id = i, inf_status = st, inf_created_at = ''2026-01-01T00:00:00Z'', inf_started_at = None,
     inf_completed_at = None, inf_config_summary = ''Static 100 RPS, 6s, 1 target(s)''\<rparr>, ste_spec = demo_spec, ste_result = None\<rparr>"

definition demo_disk :: disk where
  "demo_disk = \<lparr>dk_files = Map.empty, dk_io = [], dk_read_fails = [], dk_crashed = False\<rparr>"

text \<open>Two tests are saved in a store that keeps one finished test; the process dies while the index is written for the second.\<close>

abbreviation demo_saved :: disk where
  "demo_saved \<equiv> save_all demo_json \<lparr>rs_max_results = 1\<rparr> [(demo_entry ''a'' TS_Completed, [])] demo_disk"

abbreviation demo_died :: disk where
  "demo_died \<equiv> fst (save demo_json \<lparr>rs_max_results = 1\<rparr> (demo_entry ''b'' TS_Completed)
     (restart [IoOk, IoOk, IoOk, CrashDuring (Some ''1:'')] demo_saved))"


end
