(* ===== verification/Test_Queue.thy ===== *)
theory Test_Queue
  imports Result_Store
begin

text \<open>
  The leader's queue of tests (\<^verbatim>\<open>netanvil-distributed/src/test_queue.rs\<close>): the calls of the API, the scheduler that runs one
  test at a time through the distributed coordinator, and what is kept in the result store. The queue is shown to
  implement a board of tests with their status, and a test is followed from acceptance to its stored result.
\<close>

section \<open>State\<close>

record 'd QueueEntry =
  qe_id :: string
  qe_config :: "'d TestConfig"
  qe_spec :: "'d TestSpec option"
  qe_summary :: string
  qe_created_at :: system_time

text \<open>The channels to the coordinator of the running test are the messages that wait in them.\<close>

record 'd RunningTest =
  rt_id :: string
  rt_config_summary :: string
  rt_spec :: "'d TestSpec option"
  rt_created_at :: system_time
  rt_started_at :: system_time
  rt_progress :: "DistributedProgressUpdate option"
  rt_cancel :: "unit list"
  rt_rate_override :: "f64 list"
  rt_signal :: "(string \<times> f64) list"
  rt_hold :: "HoldCommand list"
  rt_controller_update :: "(string \<times> params) list"
  rt_controller_info :: "unit list"

record 'd QueueInner =
  qi_pending :: "'d QueueEntry list"
  qi_running :: "'d RunningTest option"
  qi_all_tests :: "TestInfo list"
  qi_store :: ResultStore
  qi_disk :: disk

datatype CancelResult = Cancelled | Stopping | AlreadyDone | NotFound

definition TestQueue_new :: "'d json \<Rightarrow> ResultStore \<Rightarrow> disk \<Rightarrow> 'd QueueInner" where
  "TestQueue_new J st d = (let (d', all_tests) = load_index J d
     in \<lparr>qi_pending = [], qi_running = None, qi_all_tests = all_tests, qi_store = st, qi_disk = d'\<rparr>)"

section \<open>Enqueueing\<close>

text \<open>\<^verbatim>\<open>{:.0}\<close> prints the nearest integer, ties to the even one.\<close>

definition fmt_f64_0 :: "f64 \<Rightarrow> string" where
  "fmt_f64_0 x = (if is_nan x then ''NaN'' else (if x < lit 0 then ''-'' else []) @
     (if is_finite x then dec (nat (rne \<bar>key x\<bar>)) else ''inf''))"

definition TestSpec_summary :: "'d TestSpec \<Rightarrow> string" where
  "TestSpec_summary spec = (case spec_rate spec of
       RS_Static rps \<Rightarrow> ''Static '' @ fmt_f64_0 rps @ '' RPS''
     | RS_Step steps \<Rightarrow> ''Step ('' @ dec (length steps) @ '' phases)''
     | RS_Adaptive bounds _ _ constraints \<Rightarrow> ''Adaptive '' @ fmt_f64_0 (bounds_min_rps bounds) @ ''-'' @ fmt_f64_0 (bounds_max_rps bounds)
         @ '' RPS, '' @ dec (length constraints) @ '' constraints'')
     @ '', '' @ spec_duration spec @ '', '' @ dec (length (spec_targets spec)) @ '' target(s)''"

definition persist :: "'d json \<Rightarrow> 'd StoredTestEntry \<Rightarrow> 'd QueueInner \<Rightarrow> 'd QueueInner" where
  "persist J entry q = q\<lparr>qi_disk := fst (save J (qi_store q) entry (qi_disk q))\<rparr>"

definition enqueue_inner ::
  "'d json \<Rightarrow> system_time \<Rightarrow> system_time \<Rightarrow> 'd TestConfig \<Rightarrow> 'd TestSpec option \<Rightarrow> string \<Rightarrow> 'd QueueInner \<Rightarrow> string \<times> 'd QueueInner" where
  "enqueue_inner J id_now now config spec summary q =
     (let i = TestId_generate id_now;
          info = \<lparr>inf_id = i, inf_status = TS_Queued, inf_created_at = format_timestamp now, inf_started_at = None,
            inf_completed_at = None, inf_config_summary = summary\<rparr>;
          q' = q\<lparr>qi_pending := qi_pending q @ [\<lparr>qe_id = i, qe_config = config, qe_spec = spec, qe_summary = summary, qe_created_at = now\<rparr>],
                 qi_all_tests := qi_all_tests q @ [info]\<rparr>
      in (i, case spec of None \<Rightarrow> q' | Some s \<Rightarrow> persist J \<lparr>ste_info = info, ste_spec = s, ste_result = None\<rparr> q'))"

definition enqueue ::
  "'d json \<Rightarrow> system_time \<Rightarrow> system_time \<Rightarrow> 'd TestSpec \<Rightarrow> 'd QueueInner \<Rightarrow> (string \<times> 'd QueueInner) spec_result" where
  "enqueue J id_now now spec q = spec_bind (into_config spec) (\<lambda>config.
     Some (Inr (enqueue_inner J id_now now config (Some spec) (TestSpec_summary spec) q)))"

definition enqueue_config ::
  "'d json \<Rightarrow> system_time \<Rightarrow> system_time \<Rightarrow> 'd TestConfig \<Rightarrow> string \<Rightarrow> 'd QueueInner \<Rightarrow> string \<times> 'd QueueInner" where
  "enqueue_config J id_now now config summary q = enqueue_inner J id_now now config None summary q"

section \<open>Queries and commands\<close>

definition get_info :: "string \<Rightarrow> 'd QueueInner \<Rightarrow> TestInfo option" where
  "get_info i q = find (\<lambda>info. inf_id info = i) (qi_all_tests q)"

definition get_entry :: "'d json \<Rightarrow> string \<Rightarrow> 'd QueueInner \<Rightarrow> 'd QueueInner \<times> 'd StoredTestEntry option" where
  "get_entry J i q = (let (d, e) = load_entry J i (qi_disk q) in (q\<lparr>qi_disk := d\<rparr>, e))"

definition get_progress :: "string \<Rightarrow> 'd QueueInner \<Rightarrow> DistributedProgressUpdate option" where
  "get_progress i q = (case qi_running q of
     Some r \<Rightarrow> if rt_id r = i then rt_progress r else None | None \<Rightarrow> None)"

definition try_send :: "nat \<Rightarrow> 'a \<Rightarrow> 'a list \<Rightarrow> 'a list option" where
  "try_send cap x ch = (if length ch < cap then Some (ch @ [x]) else None)"

text \<open>The common frame of the senders: the test must be the running one and its channel must have room.\<close>

definition send_running :: "string \<Rightarrow> ('d RunningTest \<Rightarrow> 'd RunningTest option) \<Rightarrow> 'd QueueInner \<Rightarrow> bool \<times> 'd QueueInner" where
  "send_running i send q = (case qi_running q of
     Some r \<Rightarrow> if rt_id r = i then (case send r of Some r' \<Rightarrow> (True, q\<lparr>qi_running := Some r'\<rparr>) | None \<Rightarrow> (False, q)) else (False, q)
   | None \<Rightarrow> (False, q))"

definition send_rate_override :: "string \<Rightarrow> f64 \<Rightarrow> 'd QueueInner \<Rightarrow> bool \<times> 'd QueueInner" where
  "send_rate_override i rps = send_running i (\<lambda>r. map_option (\<lambda>ch. r\<lparr>rt_rate_override := ch\<rparr>) (try_send 4 rps (rt_rate_override r)))"

definition send_hold :: "string \<Rightarrow> f64 \<Rightarrow> 'd QueueInner \<Rightarrow> bool \<times> 'd QueueInner" where
  "send_hold i rps = send_running i (\<lambda>r. map_option (\<lambda>ch. r\<lparr>rt_hold := ch\<rparr>) (try_send 4 (Hold rps) (rt_hold r)))"

definition send_release :: "string \<Rightarrow> 'd QueueInner \<Rightarrow> bool \<times> 'd QueueInner" where
  "send_release i = send_running i (\<lambda>r. map_option (\<lambda>ch. r\<lparr>rt_hold := ch\<rparr>) (try_send 4 Release (rt_hold r)))"

definition send_signal :: "string \<Rightarrow> string \<Rightarrow> f64 \<Rightarrow> 'd QueueInner \<Rightarrow> bool \<times> 'd QueueInner" where
  "send_signal i name v = send_running i (\<lambda>r. map_option (\<lambda>ch. r\<lparr>rt_signal := ch\<rparr>) (try_send 16 (name, v) (rt_signal r)))"

text \<open>
  The next two calls wait for an answer of the coordinator; \<open>answer\<close> is what arrives within ten seconds. \<open>None\<close>
  tells that the test is not running or the channel is full, \<open>Some None\<close> that no answer came.
\<close>

definition send_controller_update ::
  "string \<Rightarrow> string \<Rightarrow> params \<Rightarrow> update_result option \<Rightarrow> 'd QueueInner \<Rightarrow> update_result option option \<times> 'd QueueInner" where
  "send_controller_update i action ps answer q =
     (let (sent, q') = send_running i (\<lambda>r. map_option (\<lambda>ch. r\<lparr>rt_controller_update := ch\<rparr>)
            (try_send 4 (action, ps) (rt_controller_update r))) q
      in (if sent then Some answer else None, q'))"

definition get_controller_info :: "string \<Rightarrow> ControllerView option \<Rightarrow> 'd QueueInner \<Rightarrow> ControllerView option \<times> 'd QueueInner" where
  "get_controller_info i answer q =
     (let (sent, q') = send_running i (\<lambda>r. map_option (\<lambda>ch. r\<lparr>rt_controller_info := ch\<rparr>) (try_send 4 () (rt_controller_info r))) q
      in (if sent then answer else None, q'))"

fun update_first :: "string \<Rightarrow> (TestInfo \<Rightarrow> TestInfo) \<Rightarrow> TestInfo list \<Rightarrow> TestInfo list" where
  "update_first i f [] = []"
| "update_first i f (x # xs) = (if inf_id x = i then f x # xs else x # update_first i f xs)"

fun remove_entry :: "string \<Rightarrow> 'd QueueEntry list \<Rightarrow> ('d QueueEntry \<times> 'd QueueEntry list) option" where
  "remove_entry i [] = None"
| "remove_entry i (e # es) = (if qe_id e = i then Some (e, es) else map_option (apsnd ((#) e)) (remove_entry i es))"

text \<open>
  \<open>None\<close>: the call does not return. The stop signal is sent by \<^verbatim>\<open>send\<close>, which waits while the channel is full; the
  channel holds one message, and the caller keeps the lock of the queue.
\<close>

definition cancel :: "'d json \<Rightarrow> system_time \<Rightarrow> string \<Rightarrow> 'd QueueInner \<Rightarrow> (CancelResult \<times> 'd QueueInner) option" where
  "cancel J now i q = (case remove_entry i (qi_pending q) of
     Some (entry, pending) \<Rightarrow>
       (let now_str = format_timestamp now;
            q1 = q\<lparr>qi_pending := pending, qi_all_tests := update_first i
              (\<lambda>info. info\<lparr>inf_status := TS_Cancelled, inf_completed_at := Some now_str\<rparr>) (qi_all_tests q)\<rparr>
        in Some (Cancelled, case qe_spec entry of
             None \<Rightarrow> q1
           | Some spec \<Rightarrow> persist J \<lparr>ste_info = \<lparr>inf_id = i, inf_status = TS_Cancelled,
                 inf_created_at = format_timestamp (qe_created_at entry), inf_started_at = None, inf_completed_at = Some now_str,
                 inf_config_summary = qe_summary entry\<rparr>, ste_spec = spec, ste_result = None\<rparr> q1))
   | None \<Rightarrow>
       if map_option rt_id (qi_running q) = Some i
       then let r = the (qi_running q) in
            map_option (\<lambda>ch. (Stopping, q\<lparr>qi_running := Some (r\<lparr>rt_cancel := ch\<rparr>)\<rparr>)) (try_send 1 () (rt_cancel r))
       else Some (case get_info i q of
              Some info \<Rightarrow> if is_terminal info then (AlreadyDone, q) else (NotFound, q)
            | None \<Rightarrow> (NotFound, q)))"

section \<open>The scheduler\<close>

definition try_dequeue :: "system_time \<Rightarrow> 'd QueueInner \<Rightarrow> ((string \<times> 'd TestConfig \<times> string) \<times> 'd QueueInner) option" where
  "try_dequeue now q = (if qi_running q \<noteq> None then None else case qi_pending q of
     [] \<Rightarrow> None
   | entry # pending \<Rightarrow> Some ((qe_id entry, qe_config entry, qe_summary entry), q\<lparr>qi_pending := pending,
       qi_running := Some \<lparr>rt_id = qe_id entry, rt_config_summary = qe_summary entry, rt_spec = qe_spec entry,
         rt_created_at = qe_created_at entry, rt_started_at = now, rt_progress = None, rt_cancel = [], rt_rate_override = [],
         rt_signal = [], rt_hold = [], rt_controller_update = [], rt_controller_info = []\<rparr>,
       qi_all_tests := update_first (qe_id entry)
         (\<lambda>info. info\<lparr>inf_status := TS_Running, inf_started_at := Some (format_timestamp now)\<rparr>) (qi_all_tests q)\<rparr>))"

definition mark_completed ::
  "'d json \<Rightarrow> system_time \<Rightarrow> string \<Rightarrow> DistributedTestResult \<Rightarrow> TestStatus \<Rightarrow> 'd QueueInner \<Rightarrow> 'd QueueInner" where
  "mark_completed J now i result status q = (case qi_running q of
     None \<Rightarrow> q
   | Some running \<Rightarrow> if rt_id running \<noteq> i then q else
       let q1 = q\<lparr>qi_running := None, qi_all_tests := update_first i
             (\<lambda>info. info\<lparr>inf_status := status, inf_completed_at := Some (format_timestamp now)\<rparr>) (qi_all_tests q)\<rparr>
       in case rt_spec running of
            None \<Rightarrow> q1
          | Some spec \<Rightarrow> persist J \<lparr>ste_info = \<lparr>inf_id = i, inf_status = status, inf_created_at = format_timestamp (rt_created_at running),
                inf_started_at = Some (format_timestamp (rt_started_at running)), inf_completed_at = Some (format_timestamp now),
                inf_config_summary = rt_config_summary running\<rparr>, ste_spec = spec, ste_result = Some (from_distributed result)\<rparr> q1)"

text \<open>
  What a run reads from its surroundings. With mutual TLS the three clients may fail to be built; the nodes and
  the coordinator are the same as without.
\<close>

record run_env =
  re_start :: instant
  re_clock :: instant
  re_trace_ok :: bool
  re_tls_discovery_error :: "string option"
  re_tls_client_error :: "string option"
  re_probe :: "string \<Rightarrow> NodeInfo option"
  re_dist :: dist_env

text \<open>
  \<open>None\<close>: the task of the scheduler panics, which ends the leader's scheduling; \<open>Inl\<close>: the run fails with a message.
  The channels that \<^verbatim>\<open>configure_and_run\<close> connects are the inputs of \<open>dist_run\<close>, the progress it reports is in \<open>dc_progress\<close>.
\<close>

definition run_test ::
  "libm \<Rightarrow> iter_order \<Rightarrow> run_env \<Rightarrow> dist_input list \<Rightarrow> string list \<Rightarrow> 'd TestConfig
    \<Rightarrow> (string + 'd DistributedCoordinator \<times> DistributedTestResult option) option" where
  "run_test m iter env dis workers test_config =
     (case build_rate_controller (re_trace_ok env) (cfg_rate test_config) (cfg_control_interval test_config) (re_start env)
             (cfg_duration test_config) (re_clock env) (cfg_control_trace test_config) of
        Inl _ \<Rightarrow> None
      | Inr rc \<Rightarrow> (case re_tls_discovery_error env of
          Some e \<Rightarrow> Some (Inl (''mTLS discovery: '' @ e))
        | None \<Rightarrow> (case re_tls_client_error env of
            Some e \<Rightarrow> Some (Inl e)
          | None \<Rightarrow> map_option Inr (dist_run m iter (re_dist env) dis
              (DistributedCoordinator_new (StaticDiscovery_new (re_probe env) workers) test_config rc)))))"

definition finish_test :: "'d json \<Rightarrow> system_time \<Rightarrow> string \<Rightarrow> string + DistributedTestResult \<Rightarrow> 'd QueueInner \<Rightarrow> 'd QueueInner" where
  "finish_test J now i result q = (case result of
     Inr r \<Rightarrow> mark_completed J now i r TS_Completed q
   | Inl _ \<Rightarrow> mark_completed J now i empty_result TS_Failed q)"

section \<open>Histories of calls\<close>

text \<open>
  The lock of the queue makes every call one step. The calls are those of the API (the first four and the
  senders), of the scheduler (\<open>Op_Dequeue\<close>, \<open>Op_Finish\<close>), and a tick of the running coordinator, which empties the
  channels, takes one stop signal and may report progress.
\<close>

datatype 'd queue_op =
    Op_Enqueue system_time system_time "'d TestSpec"
  | Op_EnqueueConfig system_time system_time "'d TestConfig" string
  | Op_Cancel system_time string
  | Op_Entry string
  | Op_Hold string f64 | Op_Release string | Op_Override string f64 | Op_Signal string string f64
  | Op_Update string string params "update_result option"
  | Op_Info string "ControllerView option"
  | Op_Dequeue system_time
  | Op_Finish system_time string "string + DistributedTestResult"
  | Op_Tick "DistributedProgressUpdate option"

datatype queue_reply = R_Id string | R_Rejected SpecError | R_Cancel CancelResult | R_Started "string option" | R_Sent bool | R_Unit

definition coordinator_reads :: "DistributedProgressUpdate option \<Rightarrow> 'd RunningTest \<Rightarrow> 'd RunningTest" where
  "coordinator_reads p r = r\<lparr>rt_cancel := tl (rt_cancel r), rt_rate_override := [], rt_signal := [], rt_hold := [],
     rt_controller_update := [], rt_controller_info := [], rt_progress := (case p of Some _ \<Rightarrow> p | None \<Rightarrow> rt_progress r)\<rparr>"

text \<open>\<open>None\<close>: the call panics or does not return.\<close>

fun queue_step :: "'d json \<Rightarrow> 'd queue_op \<Rightarrow> 'd QueueInner \<Rightarrow> (queue_reply \<times> 'd QueueInner) option" where
  "queue_step J (Op_Enqueue t1 t2 spec) q = (case enqueue J t1 t2 spec q of
     None \<Rightarrow> None | Some (Inl e) \<Rightarrow> Some (R_Rejected e, q) | Some (Inr (i, q')) \<Rightarrow> Some (R_Id i, q'))"
| "queue_step J (Op_EnqueueConfig t1 t2 cfg summary) q = Some (apfst R_Id (enqueue_config J t1 t2 cfg summary q))"
| "queue_step J (Op_Cancel t i) q = map_option (apfst R_Cancel) (cancel J t i q)"
| "queue_step J (Op_Entry i) q = Some (R_Unit, fst (get_entry J i q))"
| "queue_step J (Op_Hold i rps) q = Some (apfst R_Sent (send_hold i rps q))"
| "queue_step J (Op_Release i) q = Some (apfst R_Sent (send_release i q))"
| "queue_step J (Op_Override i rps) q = Some (apfst R_Sent (send_rate_override i rps q))"
| "queue_step J (Op_Signal i name v) q = Some (apfst R_Sent (send_signal i name v q))"
| "queue_step J (Op_Update i action ps answer) q = Some (R_Unit, snd (send_controller_update i action ps answer q))"
| "queue_step J (Op_Info i answer) q = Some (R_Unit, snd (get_controller_info i answer q))"
| "queue_step J (Op_Dequeue t) q = (case try_dequeue t q of
     None \<Rightarrow> Some (R_Started None, q) | Some ((i, _, _), q') \<Rightarrow> Some (R_Started (Some i), q'))"
| "queue_step J (Op_Finish t i res) q = Some (R_Unit, finish_test J t i res q)"
| "queue_step J (Op_Tick p) q = Some (R_Unit, q\<lparr>qi_running := map_option (coordinator_reads p) (qi_running q)\<rparr>)"

fun run_steps :: "('x \<Rightarrow> 'q \<Rightarrow> ('r \<times> 'q) option) \<Rightarrow> 'x list \<Rightarrow> 'q \<Rightarrow> ('r list \<times> 'q) option" where
  "run_steps step [] q = Some ([], q)"
| "run_steps step (x # xs) q = do { (r, q1) \<leftarrow> step x q; (rs, q2) \<leftarrow> run_steps step xs q1; Some (r # rs, q2) }"

section \<open>The board: what the queue promises\<close>

text \<open>
  The contract: a board lists the tests of this leader in the order they were accepted, each with its status.
  A test starts when none runs, the oldest waiting one first; only a waiting test is cancelled; the running test
  becomes completed or failed when the scheduler says so. \<open>old\<close> are the tests of the index the leader started with.
\<close>

type_synonym board = "(string \<times> TestStatus) list"

definition with_status :: "TestStatus \<Rightarrow> board \<Rightarrow> string list" where
  "with_status s b = map fst (filter (\<lambda>x. snd x = s) b)"

definition set_status :: "string \<Rightarrow> TestStatus \<Rightarrow> board \<Rightarrow> board" where
  "set_status i s = map (\<lambda>x. if fst x = i then (i, s) else x)"

definition finished :: "board \<Rightarrow> string list" where
  "finished b = with_status TS_Completed b @ with_status TS_Failed b @ with_status TS_Cancelled b"

definition board_cancel :: "TestInfo list \<Rightarrow> string \<Rightarrow> board \<Rightarrow> queue_reply \<times> board" where
  "board_cancel old i b =
     (if i \<in> set (with_status TS_Queued b) then (R_Cancel Cancelled, set_status i TS_Cancelled b)
      else if i \<in> set (with_status TS_Running b) then (R_Cancel Stopping, b)
      else if i \<in> set (finished b) \<union> inf_id ` {x \<in> set old. is_terminal x} then (R_Cancel AlreadyDone, b)
      else (R_Cancel NotFound, b))"

fun board_step :: "TestInfo list \<Rightarrow> 'd queue_op \<Rightarrow> board \<Rightarrow> queue_reply \<times> board" where
  "board_step old (Op_Enqueue t1 t2 spec) b = (case into_config spec of
     Some (Inl e) \<Rightarrow> (R_Rejected e, b) | _ \<Rightarrow> (R_Id (TestId_generate t1), b @ [(TestId_generate t1, TS_Queued)]))"
| "board_step old (Op_EnqueueConfig t1 t2 cfg summary) b = (R_Id (TestId_generate t1), b @ [(TestId_generate t1, TS_Queued)])"
| "board_step old (Op_Cancel t i) b = board_cancel old i b"
| "board_step old (Op_Dequeue t) b = (case (with_status TS_Running b, with_status TS_Queued b) of
     ([], i # _) \<Rightarrow> (R_Started (Some i), set_status i TS_Running b) | _ \<Rightarrow> (R_Started None, b))"
| "board_step old (Op_Finish t i res) b = (R_Unit, if i \<in> set (with_status TS_Running b)
     then set_status i (case res of Inr _ \<Rightarrow> TS_Completed | Inl _ \<Rightarrow> TS_Failed) b else b)"
| "board_step old _ b = (R_Unit, b)"

fun board_run :: "TestInfo list \<Rightarrow> 'd queue_op list \<Rightarrow> board \<Rightarrow> queue_reply list \<times> board" where
  "board_run old [] b = ([], b)"
| "board_run old (x # xs) b = (let (r, b1) = board_step old x b; (rs, b2) = board_run old xs b1 in (r # rs, b2))"

text \<open>The answer of a sender depends on the room in its channel, which the contract leaves open.\<close>

definition visible :: "queue_reply \<Rightarrow> queue_reply" where
  "visible r = (case r of R_Sent _ \<Rightarrow> R_Unit | _ \<Rightarrow> r)"

fun generated :: "'d queue_op \<Rightarrow> string list" where
  "generated (Op_Enqueue t1 t2 spec) = [TestId_generate t1]"
| "generated (Op_EnqueueConfig t1 t2 cfg summary) = [TestId_generate t1]"
| "generated _ = []"

section \<open>Boards\<close>

lemma with_status_simps [simp]:
  "with_status s [] = []" "with_status s (x # b) = (if snd x = s then fst x # with_status s b else with_status s b)"
  "with_status s (b @ b') = with_status s b @ with_status s b'"
  by (simp_all add: with_status_def)

lemma set_status_simps [simp]:
  "set_status i s [] = []" "set_status i s (x # b) = (if fst x = i then (i, s) else x) # set_status i s b"
  "map fst (set_status i s b) = map fst b"
  by (auto simp: set_status_def)

lemma with_status_ids: "set (with_status s b) \<subseteq> fst ` set b"
  by (auto simp: with_status_def)

lemma in_with_status: "i \<in> set (with_status s b) \<longleftrightarrow> (i, s) \<in> set b"
  by (force simp: with_status_def)

lemma set_status_other: "i \<notin> fst ` set b \<Longrightarrow> set_status i s b = b"
  by (induction b) auto

lemma with_status_set_status:
  assumes "distinct (map fst b)" "s \<noteq> s'"
  shows "with_status s (set_status i s' b) = filter ((\<noteq>) i) (with_status s b)"
  using assms(1)
proof (induction b)
  case (Cons x b)
  then have "fst x = i \<Longrightarrow> set_status i s' b = b \<and> filter ((\<noteq>) i) (with_status s b) = with_status s b"
    using with_status_ids[of s b] by (auto simp: set_status_other filter_id_conv)
  then show ?case using Cons assms(2) by auto
qed simp

lemma with_status_set_same:
  "distinct (map fst b) \<Longrightarrow> i \<in> fst ` set b \<Longrightarrow> with_status s b = [] \<Longrightarrow> with_status s (set_status i s b) = [i]"
proof (induction b)
  case (Cons x b)
  show ?case
  proof (cases "fst x = i")
    case True
    then have "set_status i s b = b" using Cons.prems(1) by (auto simp: set_status_other)
    then show ?thesis using Cons.prems(3) True by (simp split: if_splits)
  qed (use Cons in \<open>auto split: if_splits\<close>)
qed simp

lemma with_status_exclusive:
  "distinct (map fst b) \<Longrightarrow> i \<in> set (with_status s b) \<Longrightarrow> i \<in> set (with_status s' b) \<Longrightarrow> s = s'"
  by (auto simp: with_status_def dest: eq_key_imp_eq_value)

lemma distinct_with_status: "distinct (map fst b) \<Longrightarrow> distinct (with_status s b)"
  by (simp add: with_status_def distinct_map_filter)

lemma board_step_ids: "map fst (snd (board_step old x b)) = map fst b \<or> map fst (snd (board_step old x b)) = map fst b @ generated x"
  by (cases x) (auto simp: board_cancel_def split: option.splits sum.splits list.splits)

section \<open>The order of the tests\<close>

definition accepted_ids :: "queue_reply list \<Rightarrow> string list" where
  "accepted_ids rs = concat (map (\<lambda>r. case r of R_Id i \<Rightarrow> [i] | _ \<Rightarrow> []) rs)"

definition started_ids :: "queue_reply list \<Rightarrow> string list" where
  "started_ids rs = concat (map (\<lambda>r. case r of R_Started (Some i) \<Rightarrow> [i] | _ \<Rightarrow> []) rs)"

definition cancelled_ids :: "'d queue_op list \<Rightarrow> queue_reply list \<Rightarrow> string set" where
  "cancelled_ids xs rs = {i. \<exists>t. (Op_Cancel t i, R_Cancel Cancelled) \<in> set (zip xs rs)}"

lemma ids_simps [simp]:
  "accepted_ids [] = []" "accepted_ids (r # rs) = (case r of R_Id i \<Rightarrow> [i] | _ \<Rightarrow> []) @ accepted_ids rs"
  "started_ids [] = []" "started_ids (r # rs) = (case r of R_Started (Some i) \<Rightarrow> [i] | _ \<Rightarrow> []) @ started_ids rs"
  "cancelled_ids [] rs = {}"
  "cancelled_ids (x # xs) (r # rs) = {i. \<exists>t. x = Op_Cancel t i \<and> r = R_Cancel Cancelled} \<union> cancelled_ids xs rs"
  by (auto simp: accepted_ids_def started_ids_def cancelled_ids_def)

lemma board_step_accepts: "accepted_ids [fst (board_step old x b)] \<noteq> [] \<Longrightarrow> accepted_ids [fst (board_step old x b)] = generated x"
  by (cases x) (auto simp: board_cancel_def split: option.splits sum.splits list.splits if_splits)

lemma board_step_queue:
  assumes "distinct (map fst b @ generated x)" "board_step old x b = (r, b1)"
  shows "filter (\<lambda>i. i \<notin> cancelled_ids [x] [r]) (with_status TS_Queued b @ accepted_ids [r]) = started_ids [r] @ with_status TS_Queued b1"
    "cancelled_ids [x] [r] \<subseteq> set (with_status TS_Queued b)" "set (accepted_ids [r]) \<subseteq> set (generated x)"
    "distinct (map fst b1)" "set (map fst b1) \<subseteq> set (map fst b) \<union> set (generated x)"
proof -
  have d: "distinct (map fst b)" using assms(1) by simp
  have st: "with_status TS_Queued (set_status i s b) = filter ((\<noteq>) i) (with_status TS_Queued b)" if "s \<noteq> TS_Queued" for i s
    using with_status_set_status[OF d, of TS_Queued s i] that by simp
  show "distinct (map fst b1)" "set (map fst b1) \<subseteq> set (map fst b) \<union> set (generated x)"
    using board_step_ids[of old x b] assms by (elim disjE; simp del: set_map add: set_map[symmetric])+
  show "cancelled_ids [x] [r] \<subseteq> set (with_status TS_Queued b)" "set (accepted_ids [r]) \<subseteq> set (generated x)"
    using assms(2) board_step_accepts[of old x b] by (cases x; auto simp: board_cancel_def split: if_splits)+
  show "filter (\<lambda>i. i \<notin> cancelled_ids [x] [r]) (with_status TS_Queued b @ accepted_ids [r]) = started_ids [r] @ with_status TS_Queued b1"
  proof (cases x)
    case (Op_Cancel t i)
    then show ?thesis using assms(2) st by (auto simp: board_cancel_def split: if_splits)
  next
    case (Op_Dequeue t)
    show ?thesis
    proof (cases "with_status TS_Running b = [] \<and> with_status TS_Queued b \<noteq> []")
      case True
      then obtain i js where i: "with_status TS_Queued b = i # js" by (cases "with_status TS_Queued b") auto
      then have "filter ((\<noteq>) i) js = js" using distinct_with_status[OF d, of TS_Queued] by (auto simp: filter_id_conv)
      then show ?thesis using True i assms(2) Op_Dequeue st[of TS_Running i] by auto
    qed (use assms(2) Op_Dequeue in \<open>auto split: list.splits\<close>)
  next
    case (Op_Finish t i res)
    have "i \<in> set (with_status TS_Running b) \<Longrightarrow> filter ((\<noteq>) i) (with_status TS_Queued b) = with_status TS_Queued b"
      using with_status_exclusive[OF d, of i TS_Running TS_Queued] by (auto simp: filter_id_conv)
    then show ?thesis using assms(2) Op_Finish st by (auto split: if_splits sum.splits)
  qed (use assms(2) in \<open>auto split: option.splits sum.splits\<close>)
qed

lemma ids_Cons: "accepted_ids (r # rs) = accepted_ids [r] @ accepted_ids rs" "started_ids (r # rs) = started_ids [r] @ started_ids rs"
  "cancelled_ids (x # xs) (r # rs) = cancelled_ids [x] [r] \<union> cancelled_ids xs rs"
  by auto

lemma board_run_Cons:
  "board_run old (x # xs) b = (rs', b') \<Longrightarrow> \<exists>r b1 rs. board_step old x b = (r, b1) \<and> board_run old xs b1 = (rs, b') \<and> rs' = r # rs"
  by (auto split: prod.splits)

lemma board_run_queue:
  assumes "distinct (map fst b @ concat (map generated xs))" "board_run old xs b = (rs, b')"
  shows "set (accepted_ids rs) \<subseteq> set (concat (map generated xs))
    \<and> cancelled_ids xs rs \<subseteq> set (with_status TS_Queued b) \<union> set (accepted_ids rs)
    \<and> filter (\<lambda>i. i \<notin> cancelled_ids xs rs) (with_status TS_Queued b @ accepted_ids rs) = started_ids rs @ with_status TS_Queued b'"
  using assms
proof (induction xs arbitrary: b rs)
  case (Cons x xs)
  obtain r b1 rs1 where r: "board_step old x b = (r, b1)" "board_run old xs b1 = (rs1, b')" "rs = r # rs1"
    using board_run_Cons[OF Cons.prems(2)] by blast
  have d: "distinct (map fst b @ generated x)" using Cons.prems(1) by auto
  note q = board_step_queue[OF d r(1)]
  have D: "distinct (map fst b)" "distinct (concat (map generated xs))" "set (map fst b) \<inter> set (concat (map generated xs)) = {}"
    "set (generated x) \<inter> set (concat (map generated xs)) = {}"
    using Cons.prems(1) unfolding list.map concat.simps distinct_append set_append by blast+
  then have d1: "distinct (map fst b1 @ concat (map generated xs))" using q(4,5) unfolding distinct_append by blast
  note IH = Cons.IH[OF d1 r(2)]
  let ?c = "cancelled_ids [x] [r]" and ?C = "cancelled_ids xs rs1" and ?Q = "with_status TS_Queued"
  have fresh: "set (map fst b) \<inter> set (accepted_ids rs1) = {}" "set (generated x) \<inter> set (accepted_ids rs1) = {}"
    using IH D(3,4) by blast+
  have Qb: "set (?Q b) \<subseteq> set (map fst b)" using with_status_ids[of TS_Queued b] by simp
  then have c: "?c \<inter> set (accepted_ids rs1) = {}" using q(2) fresh by blast
  have "distinct (?Q b @ accepted_ids [r])"
    using d q(3) distinct_with_status[OF D(1), of TS_Queued] Qb unfolding distinct_append
    by (cases r) (simp_all, blast)
  then have qd: "distinct (started_ids [r] @ ?Q b1)" unfolding q(1)[symmetric] by (rule distinct_filter)
  have sub: "set (started_ids [r] @ ?Q b1) \<subseteq> set (?Q b) \<union> set (accepted_ids [r])" unfolding q(1)[symmetric] by auto
  then have "set (started_ids [r]) \<inter> set (accepted_ids rs1) = {}" using Qb q(3) fresh unfolding set_append by blast
  then have s: "set (started_ids [r]) \<inter> ?C = {}" using IH qd unfolding distinct_append by blast
  have "filter (\<lambda>i. i \<notin> ?c \<union> ?C) (?Q b @ accepted_ids [r]) = filter (\<lambda>i. i \<notin> ?C) (started_ids [r] @ ?Q b1)"
    unfolding q(1)[symmetric] by (simp only: filter_filter) (auto intro: filter_cong)
  moreover have "filter (\<lambda>i. i \<notin> ?c \<union> ?C) (accepted_ids rs1) = filter (\<lambda>i. i \<notin> ?C) (accepted_ids rs1)"
    using c by (intro filter_cong) auto
  moreover have "filter (\<lambda>i. i \<notin> ?C) (started_ids [r]) = started_ids [r]" using s by (auto simp: filter_id_conv)
  ultimately have "filter (\<lambda>i. i \<notin> ?c \<union> ?C) (?Q b @ accepted_ids [r] @ accepted_ids rs1) = started_ids [r] @ started_ids rs1 @ ?Q b'"
    using IH by (metis append_assoc filter_append)
  moreover have "?c \<union> ?C \<subseteq> set (?Q b) \<union> set (accepted_ids [r] @ accepted_ids rs1)"
    using q(2) IH sub by auto
  moreover have "set (accepted_ids [r] @ accepted_ids rs1) \<subseteq> set (concat (map generated (x # xs)))" using q(3) IH by auto
  ultimately show ?case unfolding r(3) ids_Cons(1,2)[of r rs1] ids_Cons(3)[where x = x and xs = xs and r = r and rs = rs1] by (simp only: append_assoc simp_thms)
qed simp

section \<open>The queue keeps the contract\<close>

text \<open>
  The interface the API and the scheduler rely on: every call of a queue in a good state, with a new id if it
  accepts a test, answers and changes the board as the contract says.
\<close>

locale board_queue =
  fixes step :: "'d queue_op \<Rightarrow> 'q \<Rightarrow> (queue_reply \<times> 'q) option" and ok :: "'q \<Rightarrow> bool" and board :: "'q \<Rightarrow> board"
    and old :: "TestInfo list"
  assumes ok_distinct: "ok q \<Longrightarrow> distinct (map inf_id old @ map fst (board q))"
    and step_board: "ok q \<Longrightarrow> step x q = Some (r, q') \<Longrightarrow> distinct (map inf_id old @ map fst (board q) @ generated x) \<Longrightarrow>
      ok q' \<and> (visible r, board q') = board_step old x (board q)"
begin

lemma run_board:
  "ok q \<Longrightarrow> run_steps step xs q = Some (rs, q') \<Longrightarrow> distinct (map inf_id old @ map fst (board q) @ concat (map generated xs)) \<Longrightarrow>
    ok q' \<and> (map visible rs, board q') = board_run old xs (board q)"
proof (induction xs arbitrary: q rs)
  case (Cons x xs)
  from Cons.prems(2) obtain r q1 rs1 where s: "step x q = Some (r, q1)" "run_steps step xs q1 = Some (rs1, q')" "rs = r # rs1"
    by (auto simp: bind_Some_iff)
  have d: "distinct (map inf_id old @ map fst (board q) @ generated x)" using Cons.prems(3) by auto
  note b = step_board[OF Cons.prems(1) s(1) d]
  then have "map fst (board q1) = map fst (board q) \<or> map fst (board q1) = map fst (board q) @ generated x"
    using board_step_ids[of old x "board q"] by (metis snd_conv)
  then have "distinct (map inf_id old @ map fst (board q1) @ concat (map generated xs))" using Cons.prems(3) by (elim disjE) auto
  from Cons.IH[OF _ s(2) this] b show ?case using s(3) by (auto split: prod.splits)
qed simp

lemma run_order:
  assumes "ok q" "run_steps step xs q = Some (rs, q')" "distinct (map inf_id old @ map fst (board q) @ concat (map generated xs))"
  shows "filter (\<lambda>i. i \<notin> cancelled_ids xs (map visible rs)) (with_status TS_Queued (board q) @ accepted_ids (map visible rs))
    = started_ids (map visible rs) @ with_status TS_Queued (board q')"
  using board_run_queue[of "board q" xs old "map visible rs" "board q'"] run_board[OF assms] assms(3) by simp

end

lemma visible_ids [simp]:
  "accepted_ids (map visible rs) = accepted_ids rs" "started_ids (map visible rs) = started_ids rs"
  "length xs = length rs \<Longrightarrow> cancelled_ids xs (map visible rs) = cancelled_ids xs rs"
proof -
  have v: "visible r = R_Id i \<longleftrightarrow> r = R_Id i" "visible r = R_Started x \<longleftrightarrow> r = R_Started x" "visible r = R_Cancel c \<longleftrightarrow> r = R_Cancel c" for r i x c
    by (cases r; auto simp: visible_def)+
  have "(case visible r of R_Id i \<Rightarrow> [i] | _ \<Rightarrow> []) = (case r of R_Id i \<Rightarrow> [i] | _ \<Rightarrow> [])" for r
    by (cases r) (auto simp: visible_def)
  then show "accepted_ids (map visible rs) = accepted_ids rs" by (induction rs) simp_all
  have "(case visible r of R_Started (Some i) \<Rightarrow> [i] | _ \<Rightarrow> []) = (case r of R_Started (Some i) \<Rightarrow> [i] | _ \<Rightarrow> [])" for r
    by (cases r) (auto simp: visible_def)
  then show "started_ids (map visible rs) = started_ids rs" by (induction rs) simp_all
  show "cancelled_ids xs (map visible rs) = cancelled_ids xs rs" if "length xs = length rs"
    using that by (induction xs rs rule: list_induct2) (simp_all add: v)
qed

lemma run_steps_length: "run_steps step xs q = Some (rs, q') \<Longrightarrow> length xs = length rs"
  by (induction xs arbitrary: q rs) (auto simp: bind_Some_iff)

definition queue_board :: "TestInfo list \<Rightarrow> 'd QueueInner \<Rightarrow> board" where
  "queue_board old q = map (\<lambda>x. (inf_id x, inf_status x)) (drop (length old) (qi_all_tests q))"

definition queue_ok :: "TestInfo list \<Rightarrow> 'd QueueInner \<Rightarrow> bool" where
  "queue_ok old q \<longleftrightarrow> take (length old) (qi_all_tests q) = old \<and> distinct (map inf_id (qi_all_tests q))
     \<and> map qe_id (qi_pending q) = with_status TS_Queued (queue_board old q)
     \<and> map rt_id (case qi_running q of None \<Rightarrow> [] | Some r \<Rightarrow> [r]) = with_status TS_Running (queue_board old q)"

lemma update_first_map:
  "distinct (map inf_id xs) \<Longrightarrow> update_first i f xs = map (\<lambda>x. if inf_id x = i then f x else x) xs"
proof (induction xs)
  case (Cons x xs)
  then have "inf_id x = i \<Longrightarrow> map (\<lambda>x. if inf_id x = i then f x else x) xs = xs" by (intro map_idI) (auto simp: image_iff)
  with Cons show ?case by auto
qed simp

lemma remove_entry_Some:
  "remove_entry i es = Some (e, es') \<Longrightarrow> distinct (map qe_id es) \<Longrightarrow> qe_id e = i \<and> e \<in> set es \<and> map qe_id es' = filter ((\<noteq>) i) (map qe_id es)"
proof (induction es arbitrary: es')
  case (Cons x xs)
  then have "qe_id x = i \<Longrightarrow> filter ((\<noteq>) i) (map qe_id xs) = map qe_id xs" by (auto simp: filter_id_conv image_iff)
  with Cons show ?case by (auto split: if_splits)
qed simp

lemma remove_entry_None: "remove_entry i es = None \<longleftrightarrow> i \<notin> set (map qe_id es)"
  by (induction es) auto

lemma queue_ok_split:
  "queue_ok old q \<Longrightarrow> \<exists>new. qi_all_tests q = old @ new \<and> queue_board old q = map (\<lambda>x. (inf_id x, inf_status x)) new"
  unfolding queue_ok_def queue_board_def by (metis append_take_drop_id)

lemma queue_ok_distinct: "queue_ok old q \<Longrightarrow> distinct (map inf_id old @ map fst (queue_board old q))"
proof -
  assume q: "queue_ok old q"
  then obtain new where "qi_all_tests q = old @ new" "queue_board old q = map (\<lambda>x. (inf_id x, inf_status x)) new"
    using queue_ok_split by blast
  then show ?thesis using q by (simp only: queue_ok_def map_append map_map comp_def fst_conv)
qed

lemma queue_ok_frame:
  assumes "queue_ok old q" "qi_all_tests q' = qi_all_tests q" "map qe_id (qi_pending q') = map qe_id (qi_pending q)"
    "map_option rt_id (qi_running q') = map_option rt_id (qi_running q)"
  shows "queue_ok old q' \<and> queue_board old q' = queue_board old q"
proof -
  have "queue_board old q' = queue_board old q" using assms(2) by (simp add: queue_board_def)
  moreover have "map rt_id (case qi_running q' of None \<Rightarrow> [] | Some r \<Rightarrow> [r]) = map rt_id (case qi_running q of None \<Rightarrow> [] | Some r \<Rightarrow> [r])"
    using assms(4) by (cases "qi_running q'"; cases "qi_running q") simp_all
  ultimately show ?thesis using assms(1-3) unfolding queue_ok_def by simp
qed

lemma queue_set_status:
  assumes "queue_ok old q" "i \<in> fst ` set (queue_board old q)" "\<And>x. inf_id (f x) = inf_id x \<and> inf_status (f x) = s"
    "qi_all_tests q' = update_first i f (qi_all_tests q)"
  shows "take (length old) (qi_all_tests q') = old" "distinct (map inf_id (qi_all_tests q'))"
    "queue_board old q' = set_status i s (queue_board old q)"
proof -
  obtain new where new: "qi_all_tests q = old @ new" "queue_board old q = map (\<lambda>x. (inf_id x, inf_status x)) new"
    using queue_ok_split[OF assms(1)] by blast
  let ?g = "\<lambda>x. if inf_id x = i then f x else x"
  have d: "distinct (map inf_id (old @ new))" using assms(1) new(1) by (simp add: queue_ok_def)
  moreover have "i \<in> inf_id ` set new" using assms(2) new(2) by auto
  ultimately have "i \<notin> inf_id ` set old" unfolding map_append distinct_append set_map by blast
  then have o: "map ?g old = old" by (intro map_idI) auto
  have t: "qi_all_tests q' = old @ map ?g new" using assms(4) update_first_map[OF d, of i f] new(1) o by simp
  have g: "inf_id (?g x) = inf_id x" for x using assms(3) by simp
  have "map inf_id (qi_all_tests q') = map inf_id (old @ new)" unfolding t map_append map_map comp_def g by simp
  then show "distinct (map inf_id (qi_all_tests q'))" using d by simp
  show "take (length old) (qi_all_tests q') = old" unfolding t by simp
  show "queue_board old q' = set_status i s (queue_board old q)"
    using assms(3) by (simp add: queue_board_def t new set_status_def comp_def)
qed

lemma persist_fields [simp]:
  "qi_pending (persist J e q) = qi_pending q" "qi_running (persist J e q) = qi_running q" "qi_all_tests (persist J e q) = qi_all_tests q"
  "qi_store (persist J e q) = qi_store q"
  by (simp_all add: persist_def)

lemma send_running_fields:
  assumes "\<And>r r'. send r = Some r' \<Longrightarrow> rt_id r' = rt_id r"
  shows "qi_pending (snd (send_running i send q)) = qi_pending q" "qi_all_tests (snd (send_running i send q)) = qi_all_tests q"
    "map_option rt_id (qi_running (snd (send_running i send q))) = map_option rt_id (qi_running q)"
  using assms by (auto simp: send_running_def split: option.splits)

lemma enqueue_inner_board:
  assumes "queue_ok old q" "enqueue_inner J t1 t2 cfg spec summary q = (i, q')" "TestId_generate t1 \<notin> set (map inf_id old @ map fst (queue_board old q))"
  shows "i = TestId_generate t1" "queue_ok old q'" "queue_board old q' = queue_board old q @ [(i, TS_Queued)]"
proof -
  obtain new where new: "qi_all_tests q = old @ new" "queue_board old q = map (\<lambda>x. (inf_id x, inf_status x)) new"
    using queue_ok_split[OF assms(1)] by blast
  show i: "i = TestId_generate t1" using assms(2) by (simp add: enqueue_inner_def Let_def)
  obtain info where info: "inf_id info = i" "inf_status info = TS_Queued" "qi_all_tests q' = qi_all_tests q @ [info]"
    "map qe_id (qi_pending q') = map qe_id (qi_pending q) @ [i]" "qi_running q' = qi_running q"
    using assms(2) that[of "\<lparr>inf_id = i, inf_status = TS_Queued, inf_created_at = format_timestamp t2, inf_started_at = None,
      inf_completed_at = None, inf_config_summary = summary\<rparr>"] by (auto simp: enqueue_inner_def Let_def split: option.splits)
  show b: "queue_board old q' = queue_board old q @ [(i, TS_Queued)]" using info new by (simp add: queue_board_def)
  have "i \<notin> inf_id ` set (old @ new)" using assms(3) i new(2) by (auto simp: image_iff)
  then show "queue_ok old q'" using assms(1) info new unfolding queue_ok_def b by auto
qed

lemma find_by_id: "distinct (map f xs) \<Longrightarrow> find (\<lambda>x. f x = i) xs = Some y \<longleftrightarrow> y \<in> set xs \<and> f y = i"
  by (induction xs) (auto simp: image_iff)

lemma known_terminal:
  assumes "queue_ok old q"
  shows "(\<exists>info. get_info i q = Some info \<and> is_terminal info) \<longleftrightarrow> i \<in> set (finished (queue_board old q)) \<union> inf_id ` {x \<in> set old. is_terminal x}"
proof -
  obtain new where new: "qi_all_tests q = old @ new" "queue_board old q = map (\<lambda>x. (inf_id x, inf_status x)) new"
    using queue_ok_split[OF assms] by blast
  have d: "distinct (map inf_id (old @ new))" using assms new(1) by (simp add: queue_ok_def)
  have "get_info i q = Some info \<longleftrightarrow> info \<in> set (old @ new) \<and> inf_id info = i" for info
    unfolding get_info_def new(1) by (rule find_by_id[OF d])
  moreover have "i \<in> set (finished (queue_board old q)) \<longleftrightarrow> (\<exists>x \<in> set new. inf_id x = i \<and> is_terminal x)"
    by (auto simp: finished_def in_with_status new(2) is_terminal_def)
  ultimately show ?thesis by (auto simp: image_iff)
qed

lemma cancel_board:
  assumes "queue_ok old q" "cancel J t i q = Some (c, q')"
  shows "queue_ok old q' \<and> (R_Cancel c, queue_board old q') = board_cancel old i (queue_board old q)"
proof -
  let ?b = "queue_board old q"
  have d: "distinct (map fst ?b)" using queue_ok_distinct[OF assms(1)] by simp
  have p: "map qe_id (qi_pending q) = with_status TS_Queued ?b" using assms(1) by (simp add: queue_ok_def)
  have r: "map rt_id (case qi_running q of None \<Rightarrow> [] | Some r \<Rightarrow> [r]) = with_status TS_Running ?b" using assms(1) by (simp add: queue_ok_def)
  show ?thesis
  proof (cases "remove_entry i (qi_pending q)")
    case (Some x)
    obtain e es where x: "x = (e, es)" by (cases x)
    have "distinct (map qe_id (qi_pending q))" using p distinct_with_status[OF d] by simp
    from remove_entry_Some[OF Some[unfolded x] this] have e: "i \<in> set (with_status TS_Queued ?b)"
      "map qe_id es = filter ((\<noteq>) i) (with_status TS_Queued ?b)" using p by (metis imageI list.set_map, simp)
    have c: "c = Cancelled" "qi_pending q' = es" "qi_running q' = qi_running q" and
      t: "qi_all_tests q' = update_first i (\<lambda>info. info\<lparr>inf_status := TS_Cancelled, inf_completed_at := Some (format_timestamp t)\<rparr>) (qi_all_tests q)"
      using assms(2) Some x by (auto simp: cancel_def Let_def split: option.splits)
    have ib: "i \<in> fst ` set ?b" using e(1) with_status_ids[of TS_Queued ?b] by blast
    note st = queue_set_status[OF assms(1) ib _ t, of TS_Cancelled, simplified]
    have "filter ((\<noteq>) i) (with_status TS_Running ?b) = with_status TS_Running ?b"
      using with_status_exclusive[OF d e(1), of TS_Running] by (auto simp: filter_id_conv)
    then have "queue_ok old q'"
      using st c e(2) r with_status_set_status[OF d] unfolding queue_ok_def st(3) by simp
    then show ?thesis using e(1) st(3) c(1) by (simp add: board_cancel_def)
  next
    case None
    then have nq: "i \<notin> set (with_status TS_Queued ?b)" using remove_entry_None[of i "qi_pending q"] p by simp
    show ?thesis
    proof (cases "map_option rt_id (qi_running q) = Some i")
      case True
      then have "i \<in> set (with_status TS_Running ?b)" using r[symmetric] by (auto split: option.splits)
      moreover have "queue_ok old q' \<and> queue_board old q' = ?b" "c = Stopping"
        using assms(2) None True queue_ok_frame[OF assms(1), of q'] by (auto simp: cancel_def Let_def)
      ultimately show ?thesis using nq by (simp add: board_cancel_def)
    next
      case False
      then have nr: "i \<notin> set (with_status TS_Running ?b)" using r[symmetric] by (auto split: option.splits)
      then have c: "q' = q" "c = (case get_info i q of Some info \<Rightarrow> if is_terminal info then AlreadyDone else NotFound | None \<Rightarrow> NotFound)"
        using assms(2) None False by (auto simp: cancel_def split: option.splits if_splits)
      then show ?thesis using assms(1) nq nr known_terminal[OF assms(1), of i] by (auto simp: board_cancel_def split: option.splits)
    qed
  qed
qed

lemma try_dequeue_board:
  assumes "queue_ok old q"
  shows "case try_dequeue t q of
      None \<Rightarrow> board_step old (Op_Dequeue t) (queue_board old q) = (R_Started None, queue_board old q)
    | Some ((i, x), q') \<Rightarrow> queue_ok old q' \<and> board_step old (Op_Dequeue t) (queue_board old q) = (R_Started (Some i), queue_board old q')"
proof -
  let ?b = "queue_board old q"
  have d: "distinct (map fst ?b)" using queue_ok_distinct[OF assms] by simp
  have p: "map qe_id (qi_pending q) = with_status TS_Queued ?b"
    and r: "map rt_id (case qi_running q of None \<Rightarrow> [] | Some r \<Rightarrow> [r]) = with_status TS_Running ?b"
    using assms by (simp_all add: queue_ok_def)
  show ?thesis
  proof (cases "qi_running q = None \<and> qi_pending q \<noteq> []")
    case True
    then obtain e es where e: "qi_pending q = e # es" by (cases "qi_pending q") auto
    obtain q' where q': "try_dequeue t q = Some ((qe_id e, qe_config e, qe_summary e), q')" "qi_pending q' = es"
      "map_option rt_id (qi_running q') = Some (qe_id e)"
      "qi_all_tests q' = update_first (qe_id e) (\<lambda>info. info\<lparr>inf_status := TS_Running, inf_started_at := Some (format_timestamp t)\<rparr>) (qi_all_tests q)"
      using True e by (simp add: try_dequeue_def)
    have Q: "with_status TS_Queued ?b = qe_id e # map qe_id es" "with_status TS_Running ?b = []" using p r True e by simp_all
    then have i: "qe_id e \<in> fst ` set ?b" using with_status_ids[of TS_Queued ?b] by auto
    note st = queue_set_status[OF assms i _ q'(4), of TS_Running, simplified]
    have "with_status TS_Queued (set_status (qe_id e) TS_Running ?b) = map qe_id es"
      using with_status_set_status[OF d, of TS_Queued TS_Running "qe_id e"] distinct_with_status[OF d, of TS_Queued] Q(1)
      by (auto simp: filter_id_conv)
    moreover have "with_status TS_Running (set_status (qe_id e) TS_Running ?b) = [qe_id e]"
      using with_status_set_same[OF d i] Q(2) by simp
    ultimately have "queue_ok old q'" using st q'(2,3) unfolding queue_ok_def st(3) by (auto split: option.splits)
    then show ?thesis using q'(1) Q st(3) by simp
  next
    case False
    then have "try_dequeue t q = None" by (auto simp: try_dequeue_def)
    moreover have "with_status TS_Running ?b \<noteq> [] \<or> with_status TS_Queued ?b = []" using False p r by (auto split: option.splits)
    ultimately show ?thesis by (auto split: list.splits)
  qed
qed

lemma finish_board:
  assumes "queue_ok old q"
  shows "queue_ok old (finish_test J t i res q)
    \<and> (R_Unit, queue_board old (finish_test J t i res q)) = board_step old (Op_Finish t i res) (queue_board old q)"
proof -
  let ?b = "queue_board old q" and ?q = "finish_test J t i res q"
  let ?s = "case res of Inr _ \<Rightarrow> TS_Completed | Inl _ \<Rightarrow> TS_Failed"
  have d: "distinct (map fst ?b)" using queue_ok_distinct[OF assms] by simp
  have p: "map qe_id (qi_pending q) = with_status TS_Queued ?b"
    and r: "map rt_id (case qi_running q of None \<Rightarrow> [] | Some r \<Rightarrow> [r]) = with_status TS_Running ?b"
    using assms by (simp_all add: queue_ok_def)
  show ?thesis
  proof (cases "map_option rt_id (qi_running q) = Some i")
    case True
    then have R: "with_status TS_Running ?b = [i]" using r[symmetric] by (auto split: option.splits)
    have f: "qi_pending ?q = qi_pending q" "qi_running ?q = None"
      "qi_all_tests ?q = update_first i (\<lambda>info. info\<lparr>inf_status := ?s, inf_completed_at := Some (format_timestamp t)\<rparr>) (qi_all_tests q)"
      using True by (auto simp: finish_test_def mark_completed_def Let_def split: sum.splits option.splits)
    have i: "i \<in> fst ` set ?b" using R with_status_ids[of TS_Running ?b] by auto
    note st = queue_set_status[OF assms i _ f(3), of ?s, simplified]
    have "with_status TS_Queued (set_status i ?s ?b) = with_status TS_Queued ?b"
      using with_status_set_status[OF d, of TS_Queued ?s i] with_status_exclusive[OF d, of i TS_Running TS_Queued] R
      by (auto simp: filter_id_conv split: sum.splits)
    moreover have "with_status TS_Running (set_status i ?s ?b) = []"
      using with_status_set_status[OF d, of TS_Running ?s i] R by (auto split: sum.splits)
    ultimately have "queue_ok old ?q" using st p f(1,2) unfolding queue_ok_def st(3) by simp
    then show ?thesis using R st(3) by simp
  next
    case False
    then have "i \<notin> set (with_status TS_Running ?b)" "?q = q" using r[symmetric]
      by (auto simp: finish_test_def mark_completed_def split: option.splits sum.splits)
    then show ?thesis using assms by simp
  qed
qed

lemma send_running_board:
  assumes "queue_ok old q" "send_running i send q = (b, q')" "\<And>r r'. send r = Some r' \<Longrightarrow> rt_id r' = rt_id r"
  shows "queue_ok old q' \<and> queue_board old q' = queue_board old q"
  using queue_ok_frame[OF assms(1), of q'] send_running_fields[of "send", OF assms(3), of i q] assms(2) by simp

lemma senders_board:
  assumes "queue_ok old q"
  shows "send_hold i rps q = (b, q') \<Longrightarrow> queue_ok old q' \<and> queue_board old q' = queue_board old q"
    "send_release i q = (b, q') \<Longrightarrow> queue_ok old q' \<and> queue_board old q' = queue_board old q"
    "send_rate_override i rps q = (b, q') \<Longrightarrow> queue_ok old q' \<and> queue_board old q' = queue_board old q"
    "send_signal i name rps q = (b, q') \<Longrightarrow> queue_ok old q' \<and> queue_board old q' = queue_board old q"
    "send_controller_update i action ps ur q = (x, q') \<Longrightarrow> queue_ok old q' \<and> queue_board old q' = queue_board old q"
    "get_controller_info i cv q = (y, q') \<Longrightarrow> queue_ok old q' \<and> queue_board old q' = queue_board old q"
  unfolding send_hold_def send_release_def send_rate_override_def send_signal_def send_controller_update_def get_controller_info_def Let_def
  by (auto split: prod.splits elim!: send_running_board[OF assms])

lemma queue_step_board:
  assumes "queue_ok old q" "queue_step J x q = Some (r, q')" "distinct (map inf_id old @ map fst (queue_board old q) @ generated x)"
  shows "queue_ok old q' \<and> (visible r, queue_board old q') = board_step old x (queue_board old q)"
proof (cases x)
  case (Op_Enqueue t1 t2 spec)
  have "TestId_generate t1 \<notin> set (map inf_id old @ map fst (queue_board old q))" using assms(3) Op_Enqueue by auto
  note b = enqueue_inner_board[OF assms(1) _ this]
  show ?thesis using assms(1,2) Op_Enqueue b
    by (auto simp: enqueue_def spec_bind_def visible_def split: option.splits sum.splits prod.splits)
next
  case (Op_EnqueueConfig t1 t2 cfg summary)
  have "TestId_generate t1 \<notin> set (map inf_id old @ map fst (queue_board old q))" using assms(3) Op_EnqueueConfig by auto
  moreover obtain i where "enqueue_inner J t1 t2 cfg None summary q = (i, q')" "r = R_Id i"
    using assms(2) Op_EnqueueConfig by (cases "enqueue_inner J t1 t2 cfg None summary q") (auto simp: enqueue_config_def)
  ultimately show ?thesis using enqueue_inner_board[OF assms(1)] Op_EnqueueConfig by (auto simp: visible_def)
next
  case (Op_Cancel t i)
  then show ?thesis using assms(2) cancel_board[OF assms(1)] by (auto simp: visible_def)
next
  case (Op_Dequeue t)
  then show ?thesis using assms(1,2) try_dequeue_board[OF assms(1), of t]
    by (auto simp: visible_def split: option.splits prod.splits)
next
  case (Op_Finish t i res)
  then show ?thesis using assms(2) finish_board[OF assms(1), of J t i res] by (auto simp: visible_def)
next
  case (Op_Update i action ps ur)
  then show ?thesis using assms(2) senders_board(5)[OF assms(1), OF prod.collapse[symmetric]] by (auto simp: visible_def)
next
  case (Op_Info i cv)
  then show ?thesis using assms(2) senders_board(6)[OF assms(1), OF prod.collapse[symmetric]] by (auto simp: visible_def)
next
  case (Op_Tick p)
  then show ?thesis using assms(2) queue_ok_frame[OF assms(1), of q']
    by (auto simp: visible_def coordinator_reads_def option.map_comp comp_def)
next
  case (Op_Entry i)
  then show ?thesis using assms(2) queue_ok_frame[OF assms(1), of q'] by (auto simp: visible_def get_entry_def split: prod.splits)
qed (use assms(2) senders_board(1-4)[OF assms(1)] in \<open>auto simp: visible_def apfst_def map_prod_def split: prod.splits\<close>)

interpretation leader: board_queue "queue_step J" "queue_ok old" "queue_board old" old for J :: "'d json" and old :: "TestInfo list"
  using queue_ok_distinct queue_step_board by unfold_locales blast+

lemma queue_new_ok:
  assumes "distinct (map inf_id (snd (load_index J d)))"
  shows "queue_ok (snd (load_index J d)) (TestQueue_new J st d)" "queue_board (snd (load_index J d)) (TestQueue_new J st d) = []"
  using assms by (auto simp: queue_ok_def queue_board_def TestQueue_new_def split: prod.splits)

section \<open>A test from acceptance to its stored result\<close>

definition healthy :: "disk \<Rightarrow> bool" where
  "healthy d \<longleftrightarrow> dk_io d = [] \<and> dk_read_fails d = [] \<and> \<not> dk_crashed d"

lemma healthy_write: "healthy d \<Longrightarrow> \<exists>d'. atomic_write p s d = (d', True) \<and> healthy d'"
  by (simp add: healthy_def atomic_write_def fs_write_def fs_rename_def next_io_def)

lemma healthy_remove: "healthy d \<Longrightarrow> healthy (fold remove_existing ids d)"
  by (induction ids arbitrary: d) (simp_all add: remove_existing_def healthy_def fs_remove_def next_io_def)

lemma healthy_save:
  assumes "healthy d" "json_index_ok J" "js_entry_to J e \<noteq> None"
  shows "\<exists>d'. save J st e d = (d', True) \<and> healthy d'"
proof -
  obtain s where s: "js_entry_to J e = Some s" using assms(3) by blast
  obtain d1 where d1: "atomic_write (entry_path (inf_id (ste_info e))) s d = (d1, True)" "healthy d1" using healthy_write[OF assms(1)] by blast
  obtain idx where l: "load_index J d1 = (d1, idx)" using d1(2) by (cases "dk_files d1 index_path") (auto simp: load_index_def fs_read_def healthy_def)
  obtain d3 idx' where p: "prune st (replace_or_append (ste_info e) idx) d1 = (d3, idx')" by (cases "prune st (replace_or_append (ste_info e) idx) d1")
  have "healthy d3" using p d1(2) healthy_remove[OF d1(2)] by (auto simp: prune_def Let_def split: if_splits)
  moreover obtain t where "js_index_to J idx' = Some t" using assms(2) unfolding json_index_ok_def by blast
  ultimately show ?thesis using s d1(1) l p healthy_write[of d3 index_path t] by (simp add: save_def write_index_def)
qed

lemma drop_terminal_snoc: "k \<le> length (filter is_terminal idx) \<Longrightarrow> drop_terminal k (idx @ [x]) = drop_terminal k idx @ [x]"
  by (induction k idx rule: drop_terminal.induct) (auto split: if_splits)

lemma replace_or_append_new: "inf_id x \<notin> inf_id ` set idx \<Longrightarrow> replace_or_append x idx = idx @ [x]"
  by (induction idx) auto

lemma replace_or_append_last: "inf_id x \<notin> inf_id ` set idx \<Longrightarrow> inf_id y = inf_id x \<Longrightarrow> replace_or_append y (idx @ [x]) = idx @ [y]"
  by (induction idx) auto

lemma keep_newest_last: "0 < n \<Longrightarrow> \<exists>pre. keep_newest n (idx @ [x]) = pre @ [x] \<and> set pre \<subseteq> set idx"
proof -
  assume "0 < n"
  then have k: "length (filter is_terminal (idx @ [x])) - n \<le> length (filter is_terminal idx)" by auto
  then show ?thesis using drop_terminal_snoc[OF k] set_drop_terminal unfolding keep_newest_def by blast
qed

lemma proper_id_generate: "proper_id (TestId_generate t)"
  by (simp add: proper_id_def TestId_generate_def Let_def split: prod.splits)

lemma update_first_last: "i \<notin> inf_id ` set xs \<Longrightarrow> inf_id x = i \<Longrightarrow> update_first i f (xs @ [x]) = xs @ [f x]"
  by (induction xs) auto

lemma find_last: "i \<notin> inf_id ` set xs \<Longrightarrow> inf_id x = i \<Longrightarrow> find (\<lambda>y. inf_id y = i) (xs @ [x]) = Some x"
  by (induction xs) auto

lemma two_saves:
  assumes "healthy d" "json_index_ok J" "\<forall>e. js_entry_to J e \<noteq> None" "stored_index J d = Some idx" "index_ok (rs_max_results st) idx"
    "inf_id (ste_info e1) = i" "inf_id (ste_info e2) = i" "i \<notin> inf_id ` set idx" "proper_id i" "0 < rs_max_results st"
    "d' = fst (save J st e2 (fst (save J st e1 d)))"
  shows "\<exists>idx'. stored_index J d' = Some idx' \<and> ste_info e2 \<in> set idx' \<and> dk_files d' (entry_path i) = js_entry_to J e2"
proof -
  obtain d1 where d1: "save J st e1 d = (d1, True)" "healthy d1" using healthy_save[OF assms(1,2)] assms(3) by blast
  have rf: "dk_read_fails d = []" using assms(1) by (simp add: healthy_def)
  note s1 = save_effect[OF d1(1) assms(2) rf assms(4,5), unfolded assms(6), OF assms(9)]
  obtain pre where pre: "keep_newest (rs_max_results st) (idx @ [ste_info e1]) = pre @ [ste_info e1]" "set pre \<subseteq> set idx"
    using keep_newest_last[OF assms(10)] by blast
  have new: "replace_or_append (ste_info e1) idx = idx @ [ste_info e1]" using replace_or_append_new assms(6,8) by simp
  have st1: "stored_index J d1 = Some (pre @ [ste_info e1])" "index_ok (rs_max_results st) (pre @ [ste_info e1])"
    using s1(2,3) unfolding new pre(1) by simp_all
  obtain d2 where d2: "save J st e2 d1 = (d2, True)" using healthy_save[OF d1(2) assms(2)] assms(3) by blast
  note s2 = save_effect[OF d2 assms(2) s1(1) st1, unfolded assms(7), OF assms(9)]
  have "inf_id (ste_info e1) \<notin> inf_id ` set pre" using assms(6,8) pre(2) by blast
  then have rep: "replace_or_append (ste_info e2) (pre @ [ste_info e1]) = pre @ [ste_info e2]"
    using replace_or_append_last assms(6,7) by simp
  obtain pre2 where pre2: "keep_newest (rs_max_results st) (pre @ [ste_info e2]) = pre2 @ [ste_info e2]"
    using keep_newest_last[OF assms(10)] by blast
  show ?thesis using s2(2,5) d1(1) d2 assms(11) unfolding rep pre2 by auto
qed

lemma idle_queue_runs:
  assumes "qi_running q = None" "qi_pending q = []" "i \<notin> inf_id ` set (qi_all_tests q)"
    "enqueue_inner J t1 t2 cfg (Some spec) summary q = (i, q1)"
  shows "\<exists>q2 info e1. try_dequeue t3 q1 = Some ((i, cfg, summary), q2) \<and> inf_id info = i \<and> inf_status info = TS_Completed \<and> inf_id (ste_info e1) = i
    \<and> (let q3 = finish_test J t4 i (Inr r) q2 in qi_running q3 = None \<and> qi_pending q3 = [] \<and> get_info i q3 = Some info
       \<and> qi_disk q3 = fst (save J (qi_store q) \<lparr>ste_info = info, ste_spec = spec, ste_result = Some (from_distributed r)\<rparr>
           (fst (save J (qi_store q) e1 (qi_disk q)))))"
proof -
  let ?info = "\<lparr>inf_id = i, inf_status = TS_Queued, inf_created_at = format_timestamp t2, inf_started_at = None,
    inf_completed_at = None, inf_config_summary = summary\<rparr>"
  let ?e1 = "\<lparr>ste_info = ?info, ste_spec = spec, ste_result = None\<rparr>"
  let ?run = "?info\<lparr>inf_status := TS_Running, inf_started_at := Some (format_timestamp t3)\<rparr>"
  let ?done = "?run\<lparr>inf_status := TS_Completed, inf_completed_at := Some (format_timestamp t4)\<rparr>"
  have q1: "qi_pending q1 = [\<lparr>qe_id = i, qe_config = cfg, qe_spec = Some spec, qe_summary = summary, qe_created_at = t2\<rparr>]"
    "qi_running q1 = None" "qi_all_tests q1 = qi_all_tests q @ [?info]" "qi_store q1 = qi_store q" "qi_disk q1 = fst (save J (qi_store q) ?e1 (qi_disk q))"
    using assms(1,2,4) by (auto simp: enqueue_inner_def Let_def persist_def)
  have u: "update_first i f (qi_all_tests q @ [x]) = qi_all_tests q @ [f x]" if "inf_id x = i" for f x
    using update_first_last[OF assms(3) that] .
  obtain q2 where q2: "try_dequeue t3 q1 = Some ((i, cfg, summary), q2)" by (simp add: try_dequeue_def q1)
  then have "qi_pending q2 = []" "qi_all_tests q2 = qi_all_tests q @ [?run]" "qi_store q2 = qi_store q" "qi_disk q2 = fst (save J (qi_store q) ?e1 (qi_disk q))"
    "qi_running q2 = Some \<lparr>rt_id = i, rt_config_summary = summary, rt_spec = Some spec, rt_created_at = t2, rt_started_at = t3,
       rt_progress = None, rt_cancel = [], rt_rate_override = [], rt_signal = [], rt_hold = [], rt_controller_update = [], rt_controller_info = []\<rparr>"
    by (auto simp: try_dequeue_def q1 u)
  then have "let q3 = finish_test J t4 i (Inr r) q2 in qi_running q3 = None \<and> qi_pending q3 = [] \<and> get_info i q3 = Some ?done
       \<and> qi_disk q3 = fst (save J (qi_store q) \<lparr>ste_info = ?done, ste_spec = spec, ste_result = Some (from_distributed r)\<rparr>
           (fst (save J (qi_store q) ?e1 (qi_disk q))))"
    by (simp add: finish_test_def mark_completed_def u get_info_def find_last[OF assms(3)] persist_def Let_def)
  then show ?thesis using q2 by (intro exI[of _ q2] exI[of _ ?done] exI[of _ ?e1]) simp
qed

section \<open>Properties\<close>

text \<open>
  C13. Whatever calls the API, the scheduler and the coordinator make, in any order, and whatever the disk does, a
  queue answers and reports as the board of its contract: every test has the status the contract gives it, and
  the tests of the index the leader started with stay as they were. Ids are assumed not to repeat.
\<close>
theorem queue_refines_board:
  assumes "run_steps (queue_step J) xs (TestQueue_new J st d) = Some (rs, q)" "old = snd (load_index J d)"
    "distinct (map inf_id old @ concat (map generated xs))"
  shows "\<exists>b. board_run old xs [] = (map visible rs, b) \<and> map (\<lambda>x. (inf_id x, inf_status x)) (qi_all_tests q) = map (\<lambda>x. (inf_id x, inf_status x)) old @ b
    \<and> (\<forall>(i, s) \<in> set b. map_option inf_status (get_info i q) = Some s)"
proof -
  have "distinct (map inf_id old)" using assms(3) by simp
  note new = queue_new_ok[of J d st, folded assms(2), OF this]
  from leader.run_board[OF new(1) assms(1)] new(2) assms(3) have b: "queue_ok old q" "(map visible rs, queue_board old q) = board_run old xs []"
    by simp_all
  obtain infos where i: "qi_all_tests q = old @ infos" "queue_board old q = map (\<lambda>x. (inf_id x, inf_status x)) infos"
    using queue_ok_split[OF b(1)] by blast
  have "distinct (map inf_id (old @ infos))" using b(1) i(1) by (simp add: queue_ok_def)
  from find_by_id[OF this] have "get_info (inf_id x) q = Some x" if "x \<in> set infos" for x using that by (simp add: get_info_def i(1))
  then show ?thesis using b(2) i by (intro exI[of _ "queue_board old q"]) auto
qed

text \<open>
  C14. Tests start in the order in which they were accepted, each at most once: the accepted tests without those that
  were cancelled while waiting are the started ones followed by the waiting ones.
\<close>
theorem tests_start_in_order:
  assumes "run_steps (queue_step J) xs (TestQueue_new J st d) = Some (rs, q)" "old = snd (load_index J d)"
    "distinct (map inf_id old @ concat (map generated xs))"
  shows "filter (\<lambda>i. i \<notin> cancelled_ids xs rs) (accepted_ids rs) = started_ids rs @ map qe_id (qi_pending q)"
proof -
  have "distinct (map inf_id old)" using assms(3) by simp
  note new = queue_new_ok[of J d st, folded assms(2), OF this]
  have d: "distinct (map inf_id old @ map fst (queue_board old (TestQueue_new J st d)) @ concat (map generated xs))"
    using new(2) assms(3) by simp
  have "queue_ok old q" using leader.run_board[OF new(1) assms(1) d] by blast
  then have "with_status TS_Queued (queue_board old q) = map qe_id (qi_pending q)" by (simp add: queue_ok_def)
  then show ?thesis
    using leader.run_order[OF new(1) assms(1) d] new(2) visible_ids(3)[OF run_steps_length[OF assms(1)]] by simp
qed



section \<open>A concrete leader\<close>

abbreviation demo_queue :: "unit QueueInner" where
  "demo_queue \<equiv> TestQueue_new demo_json \<lparr>rs_max_results = 1\<rparr> demo_disk"

lemma demo_queue: "demo_queue = \<lparr>qi_pending = [], qi_running = None, qi_all_tests = [], qi_store = \<lparr>rs_max_results = 1\<rparr>, qi_disk = demo_disk\<rparr>"
  "snd (load_index demo_json demo_disk) = []"
  by (simp_all add: TestQueue_new_def load_index_def fs_read_def demo_disk_def)

definition demo_calls :: "unit queue_op list" where
  "demo_calls = [Op_Enqueue 0 0 demo_spec, Op_Enqueue 1 1 demo_spec, Op_Dequeue 2, Op_Hold (TestId_generate 0) (lit 50), Op_Tick None,
     Op_Cancel 3 (TestId_generate 1), Op_Finish 4 (TestId_generate 0) (Inr empty_result), Op_Dequeue 5]"

lemma demo_ids: "TestId_generate 0 \<noteq> TestId_generate 1"
  unfolding TestId_text id_text_eq_iff by (simp add: since_epoch_def)

lemma demo_fresh: "distinct (map inf_id [] @ concat (map generated demo_calls))"
  using demo_ids by (simp add: demo_calls_def)

lemma demo_calls_run: "\<exists>rs q. run_steps (queue_step demo_json) demo_calls demo_queue = Some (rs, q)"
  using demo_ids unfolding demo_calls_def demo_queue(1)
  by (simp add: enqueue_def demo_config(1) spec_bind_def enqueue_inner_def Let_def try_dequeue_def send_hold_def send_running_def
      try_send_def coordinator_reads_def cancel_def finish_test_def mark_completed_def persist_def)

theorem queue_refines_board_witness:
  "\<exists>rs q b. run_steps (queue_step demo_json) demo_calls demo_queue = Some (rs, q) \<and> board_run [] demo_calls [] = (map visible rs, b)
    \<and> map (\<lambda>x. (inf_id x, inf_status x)) (qi_all_tests q) = b \<and> b = [(TestId_generate 0, TS_Completed), (TestId_generate 1, TS_Cancelled)]"
proof -
  obtain rs q where r: "run_steps (queue_step demo_json) demo_calls demo_queue = Some (rs, q)" using demo_calls_run by blast
  have "snd (board_run [] demo_calls []) = [(TestId_generate 0, TS_Completed), (TestId_generate 1, TS_Cancelled)]"
    using demo_ids unfolding demo_calls_def by (simp add: demo_config(1) board_cancel_def)
  then show ?thesis using queue_refines_board[OF r demo_queue(2)[symmetric] demo_fresh] r by auto
qed

theorem tests_start_in_order_witness:
  "\<exists>rs q. run_steps (queue_step demo_json) demo_calls demo_queue = Some (rs, q)
    \<and> filter (\<lambda>i. i \<notin> cancelled_ids demo_calls rs) (accepted_ids rs) = started_ids rs @ map qe_id (qi_pending q)"
  using demo_calls_run tests_start_in_order[OF _ demo_queue(2)[symmetric] demo_fresh] by blast

definition demo_running :: "unit QueueInner" where
  "demo_running = snd (the (try_dequeue 1 (snd (enqueue_config demo_json 0 0 demo_config ''x'' demo_queue))))"


lemma into_config_interval: "into_config spec = Some (Inr cfg) \<Longrightarrow> cfg_control_interval cfg = secs 3"
  by (auto simp: into_config_def spec_bind_Inr Let_def split: option.splits)

definition demo_run_env :: run_env where
  "demo_run_env = \<lparr>re_start = 0, re_clock = 0, re_trace_ok = False, re_tls_discovery_error = None, re_tls_client_error = None,
     re_probe = (\<lambda>a. Some \<lparr>ni_id = a, ni_addr = a, ni_cores = 2, ni_state = NS_Idle\<rparr>), re_dist = demo_env\<rparr>"


end
