(* ===== verification/Loss_Tracker.thy ===== *)
theory Loss_Tracker
  imports Prelude
begin

text \<open>
  The sliding-window bitmap that detects UDP packet loss (\<^verbatim>\<open>netanvil-udp/src/loss_tracker.rs\<close>). The ring is a
  list of 64 words of 64 bits with wrap-around arithmetic on the counters; the loop that evicts words is
  proved to terminate. The bitmap refines a set of sequence numbers.
\<close>

unbundle bit_operations_syntax

section \<open>The ring\<close>

definition WORDS :: nat where
  "WORDS = 64"

definition WINDOW :: nat where
  "WINDOW = WORDS * 64"

lemma WINDOW_eq [simp]: "WINDOW = 4096"
  by (simp add: WINDOW_def WORDS_def)

record LossTracker =
  lt_base :: u64
  lt_head :: nat
  lt_ring :: "u64 list"
  lt_total_sent :: u64
  lt_total_received :: u64
  lt_total_lost :: u64
  lt_snap_sent :: u64
  lt_snap_received :: u64
  lt_snap_lost :: u64

definition LossTracker_new :: LossTracker where
  "LossTracker_new = \<lparr>lt_base = 0, lt_head = 0, lt_ring = replicate WORDS 0, lt_total_sent = 0,
     lt_total_received = 0, lt_total_lost = 0, lt_snap_sent = 0, lt_snap_received = 0, lt_snap_lost = 0\<rparr>"

definition on_send :: "LossTracker \<Rightarrow> LossTracker \<times> u64" where
  "on_send t = (t\<lparr>lt_total_sent := lt_total_sent t + 1\<rparr>, lt_total_sent t)"

text \<open>\<^verbatim>\<open>count_ones\<close> and \<^verbatim>\<open>saturating_sub\<close> on \<^verbatim>\<open>u64\<close>.\<close>

definition count_ones :: "u64 \<Rightarrow> u64" where
  "count_ones w = word_of_nat (length (filter (bit w) [0..<64]))"

definition sat_sub :: "u64 \<Rightarrow> u64 \<Rightarrow> u64" where
  "sat_sub x y = (if y \<le> x then x - y else 0)"

text \<open>
  The body of the loop of \<^verbatim>\<open>advance\<close>: the bits \<open>pos, \<dots>, pos + k - 1\<close> of one word are counted and cleared,
  a whole word at once when they are all its bits.
\<close>

definition evict_word :: "u64 \<Rightarrow> nat \<Rightarrow> u64 \<Rightarrow> nat \<Rightarrow> u64 list \<Rightarrow> u64 \<Rightarrow> u64 list \<times> u64" where
  "evict_word total_sent pos seq k ring total_lost =
     (if pos mod 64 = 0 \<and> k = 64
      then (ring[pos div 64 := 0], total_lost + sat_sub (min 64 (sat_sub total_sent seq)) (count_ones (ring ! (pos div 64))))
      else let mask = (if k = 64 then - 1 else push_bit (pos mod 64) (push_bit k 1 - 1))
           in (ring[pos div 64 := ring ! (pos div 64) AND NOT mask],
               total_lost + sat_sub (min (word_of_nat k) (sat_sub total_sent seq)) (count_ones (ring ! (pos div 64) AND mask))))"

function advance_loop :: "u64 \<Rightarrow> nat \<Rightarrow> u64 \<Rightarrow> nat \<Rightarrow> u64 list \<Rightarrow> u64 \<Rightarrow> nat \<times> u64 list \<times> u64" where
  "advance_loop total_sent pos seq remaining ring total_lost =
     (if remaining = 0 then (pos, ring, total_lost)
      else let bits_in_word = min (64 - pos mod 64) remaining;
               (ring', total_lost') = evict_word total_sent pos seq bits_in_word ring total_lost
           in advance_loop total_sent ((pos + bits_in_word) mod WINDOW) (seq + word_of_nat bits_in_word)
                (remaining - bits_in_word) ring' total_lost')"
  by pat_completeness auto

termination
  by (relation "measure (\<lambda>(_, _, _, remaining, _, _). remaining)") (auto simp: min_def)

declare advance_loop.simps [simp del]

definition advance :: "nat \<Rightarrow> LossTracker \<Rightarrow> LossTracker" where
  "advance cnt t =
     (let n = min cnt WINDOW;
          (pos, ring, lost) = advance_loop (lt_total_sent t) (lt_head t) (lt_base t) n (lt_ring t) (lt_total_lost t)
      in t\<lparr>lt_ring := ring, lt_total_lost := lost, lt_head := pos, lt_base := lt_base t + word_of_nat n\<rparr>)"

text \<open>The second half of \<^verbatim>\<open>on_receive\<close>, which sets the bit of a number and counts it once.\<close>

definition mark_received :: "u64 \<Rightarrow> LossTracker \<Rightarrow> LossTracker" where
  "mark_received seq t =
     (let abs = (lt_head t + unat (seq - lt_base t)) mod WINDOW;
          word = abs div 64;
          mask = push_bit (abs mod 64) 1
      in if lt_ring t ! word AND mask = 0
         then t\<lparr>lt_ring := (lt_ring t)[word := lt_ring t ! word OR mask],
                lt_total_received := lt_total_received t + 1\<rparr>
         else t)"

definition on_receive :: "u64 \<Rightarrow> LossTracker \<Rightarrow> LossTracker" where
  "on_receive seq t =
     (if seq < lt_base t then t
      else let offset = unat (seq - lt_base t)
           in mark_received seq (if offset \<ge> WINDOW then advance (offset - WINDOW + 1) t else t))"

definition take_deltas :: "LossTracker \<Rightarrow> LossTracker \<times> u64 \<times> u64 \<times> u64" where
  "take_deltas t =
     (t\<lparr>lt_snap_sent := lt_total_sent t, lt_snap_received := lt_total_received t, lt_snap_lost := lt_total_lost t\<rparr>,
      lt_total_sent t - lt_snap_sent t, lt_total_received t - lt_snap_received t, lt_total_lost t - lt_snap_lost t)"

section \<open>Bits of the ring\<close>

definition ring_bit :: "u64 list \<Rightarrow> nat \<Rightarrow> bool" where
  "ring_bit ring p = bit (ring ! (p div 64)) (p mod 64)"

lemma bit_chunk_mask:
  "s + k \<le> 64 \<Longrightarrow> k < 64 \<Longrightarrow> bit (push_bit s (push_bit k 1 - 1) :: u64) i \<longleftrightarrow> s \<le> i \<and> i < s + k"
  by (auto simp: bit_push_bit_iff bit_mask_iff simp flip: mask_eq_exp_minus_1)

lemma unat_count_ones: "unat (count_ones w) = card {i. i < 64 \<and> bit w i}"
proof -
  have "length (filter (bit w) [0..<64]) = card {i. i < 64 \<and> bit w i}"
    using distinct_card[of "filter (bit w) [0..<64]"] by (simp add: conj_commute)
  moreover have "card {i. i < 64 \<and> bit w i} \<le> card {..<64::nat}" by (intro card_mono) auto
  ultimately show ?thesis by (simp add: count_ones_def unsigned_of_nat take_bit_nat_eq_self)
qed

lemma word_eq_of_nat: "unat (w :: u64) = n \<Longrightarrow> w = word_of_nat n"
  using unat_u64_less[of w] by (intro unsigned_word_eqI[where 'a=nat]) (simp add: unsigned_of_nat take_bit_nat_eq_self)

lemma unat_sat_sub: "unat (sat_sub x y) = unat x - unat y"
  by (simp add: sat_sub_def unat_sub word_le_nat_alt)

lemma unat_min: "unat (min x y :: u64) = min (unat x) (unat y)"
  by (simp add: min_def word_le_nat_alt)

lemma evict_word_mask:
  assumes "0 < k" "pos mod 64 + k \<le> 64" "pos < 4096" "length ring = 64"
  obtains msk :: u64 where "\<And>i. bit msk i \<longleftrightarrow> pos mod 64 \<le> i \<and> i < pos mod 64 + k"
    "evict_word sent pos seq k ring lost = (ring[pos div 64 := ring ! (pos div 64) AND NOT msk],
       lost + sat_sub (min (word_of_nat k) (sat_sub sent seq)) (count_ones (ring ! (pos div 64) AND msk)))"
proof (cases "k = 64")
  case True
  then have "pos mod 64 = 0" using assms(2) by simp
  then show ?thesis using that[of "- 1"] True by (simp add: evict_word_def)
next
  case False
  then show ?thesis using that[of "push_bit (pos mod 64) (push_bit k 1 - 1)"] bit_chunk_mask[of "pos mod 64" k] assms
    by (simp add: evict_word_def Let_def)
qed


lemma evict_word_props:
  assumes k: "0 < k" "pos mod 64 + k \<le> 64" and p: "pos < 4096" "length ring = 64"
    and sent: "\<forall>j<k. ring_bit ring (pos + j) \<longrightarrow> unat seq + j < unat sent"
    and c: "evict_word sent pos seq k ring lost = (ring', lost')"
  shows "length ring' = 64"
    "q < 4096 \<Longrightarrow> ring_bit ring' q \<longleftrightarrow> ring_bit ring q \<and> \<not> (pos \<le> q \<and> q < pos + k)"
    "lost' = lost + word_of_nat (card {j. j < k \<and> unat seq + j < unat sent \<and> \<not> ring_bit ring (pos + j)})"
proof -
  obtain msk :: u64 where msk: "\<And>i. bit msk i \<longleftrightarrow> pos mod 64 \<le> i \<and> i < pos mod 64 + k"
    and ch: "evict_word sent pos seq k ring lost = (ring[pos div 64 := ring ! (pos div 64) AND NOT msk],
       lost + sat_sub (min (word_of_nat k) (sat_sub sent seq)) (count_ones (ring ! (pos div 64) AND msk)))"
    using evict_word_mask[OF k p] by metis
  have w: "pos div 64 < 64" using p(1) by simp
  have idx: "(pos + j) div 64 = pos div 64" "(pos + j) mod 64 = pos mod 64 + j" if "j < k" for j
  proof -
    have "pos + j = 64 * (pos div 64) + (pos mod 64 + j)" "pos mod 64 + j < 64" using that k(2) by simp_all
    then show "(pos + j) div 64 = pos div 64" "(pos + j) mod 64 = pos mod 64 + j"
      by (metis add.right_neutral div_less div_mult_self4 zero_neq_numeral, metis mod_less mod_mult_self4)
  qed
  show "length ring' = 64" using c ch p(2) by auto
  show "ring_bit ring' q \<longleftrightarrow> ring_bit ring q \<and> \<not> (pos \<le> q \<and> q < pos + k)" if q: "q < 4096"
  proof (cases "q div 64 = pos div 64")
    case True
    have "q mod 64 < 64" by simp
    moreover have "pos \<le> q \<and> q < pos + k \<longleftrightarrow> pos mod 64 \<le> q mod 64 \<and> q mod 64 < pos mod 64 + k"
      using True mult_div_mod_eq[of 64 q] mult_div_mod_eq[of 64 pos] by (safe; linarith)
    ultimately show ?thesis using c ch w p(2) True
      by (auto simp: ring_bit_def bit_and_iff bit_not_iff msk)
  next
    case False
    then have "\<not> (pos \<le> q \<and> q < pos + k)" using k(2) by (metis add_diff_inverse_nat idx(1) nat_add_left_cancel_less not_less)
    then show ?thesis using c ch False by (auto simp: ring_bit_def)
  qed
  let ?S = "{j. j < k \<and> ring_bit ring (pos + j)}"
  have "{i. i < 64 \<and> bit (ring ! (pos div 64) AND msk) i} = (\<lambda>j. pos mod 64 + j) ` ?S" (is "?L = ?R")
  proof (rule set_eqI)
    fix i
    have "i \<in> ?L \<longleftrightarrow> (\<exists>j<k. i = pos mod 64 + j \<and> bit (ring ! (pos div 64)) i)"
      using k(2) by (auto simp: bit_and_iff msk intro!: exI[of _ "i - pos mod 64"])
    also have "\<dots> \<longleftrightarrow> i \<in> ?R" using idx by (auto simp: ring_bit_def)
    finally show "i \<in> ?L \<longleftrightarrow> i \<in> ?R" .
  qed
  then have set: "unat (count_ones (ring ! (pos div 64) AND msk)) = card ?S"
    by (simp add: unat_count_ones card_image)
  have "unat (word_of_nat k :: u64) = k" using k(2) by (simp add: unsigned_of_nat take_bit_nat_eq_self)
  then have exp: "unat (min (word_of_nat k) (sat_sub sent seq)) = min k (unat sent - unat seq)"
    by (simp add: unat_min unat_sat_sub)
  have "{j. j < k \<and> unat seq + j < unat sent} = {..<min k (unat sent - unat seq)}" by auto
  then have "card {j. j < k \<and> unat seq + j < unat sent} = min k (unat sent - unat seq)" by simp
  moreover have "{j. j < k \<and> unat seq + j < unat sent \<and> \<not> ring_bit ring (pos + j)} = {j. j < k \<and> unat seq + j < unat sent} - ?S"
    using sent by auto
  moreover have "?S \<subseteq> {j. j < k \<and> unat seq + j < unat sent}" using sent by auto
  ultimately have "card {j. j < k \<and> unat seq + j < unat sent \<and> \<not> ring_bit ring (pos + j)} = min k (unat sent - unat seq) - card ?S"
    by (simp add: card_Diff_subset)
  note card_lost = this
  have "sat_sub (min (word_of_nat k) (sat_sub sent seq)) (count_ones (ring ! (pos div 64) AND msk))
      = word_of_nat (card {j. j < k \<and> unat seq + j < unat sent \<and> \<not> ring_bit ring (pos + j)})"
    (is "?w = word_of_nat ?n")
  proof -
    have "unat ?w = ?n" using set exp card_lost by (simp add: unat_sat_sub)
    then show ?thesis by (rule word_eq_of_nat)
  qed
  then show "lost' = lost + word_of_nat (card {j. j < k \<and> unat seq + j < unat sent \<and> \<not> ring_bit ring (pos + j)})"
    using c ch by auto
qed

text \<open>The positions of a range of the ring; those of a range of at most a window are distinct.\<close>

lemma ring_pos_distinct:
  fixes i j pos :: nat
  assumes "i < j" "j < i + 4096"
  shows "(pos + i) mod 4096 \<noteq> (pos + j) mod 4096"
proof
  assume "(pos + i) mod 4096 = (pos + j) mod 4096"
  then have "4096 dvd pos + j - (pos + i)" using assms(1) by (intro mod_eq_dvd_iff_nat[THEN iffD1]) simp_all
  then show False using assms by (auto dest: dvd_imp_le)
qed


text \<open>The whole loop: the first \<open>n\<close> positions from \<open>pos\<close> are counted and cleared.\<close>

lemma card_split:
  fixes k n :: nat
  assumes "k \<le> n"
  shows "card {j. j < n \<and> P j} = card {j. j < k \<and> P j} + card {j. j < n - k \<and> P (k + j)}"
proof -
  have "{j. j < n \<and> P j} = {j. j < k \<and> P j} \<union> (+) k ` {j. j < n - k \<and> P (k + j)}"
  proof (rule set_eqI)
    fix j show "j \<in> {j. j < n \<and> P j} \<longleftrightarrow> j \<in> {j. j < k \<and> P j} \<union> (+) k ` {j. j < n - k \<and> P (k + j)}"
      using assms by (cases "j < k") (auto simp: image_iff intro!: exI[of _ "j - k"])
  qed
  moreover have "{j. j < k \<and> P j} \<inter> (+) k ` {j. j < n - k \<and> P (k + j)} = {}" by auto
  ultimately show ?thesis by (simp add: card_Un_disjoint card_image)
qed

lemma advance_loop_props:
  assumes "pos < 4096" "length ring = 64" "n \<le> 4096" "unat seq + n < 2 ^ 64"
    "\<forall>j<n. ring_bit ring ((pos + j) mod 4096) \<longrightarrow> unat seq + j < unat sent"
    "advance_loop sent pos seq n ring lost = (pos', ring', lost')"
  shows "pos' = (pos + n) mod 4096 \<and> length ring' = 64
    \<and> (\<forall>q<4096. ring_bit ring' q \<longleftrightarrow> ring_bit ring q \<and> \<not> (\<exists>j<n. q = (pos + j) mod 4096))
    \<and> lost' = lost + word_of_nat (card {j. j < n \<and> unat seq + j < unat sent \<and> \<not> ring_bit ring ((pos + j) mod 4096)})"
  using assms
proof (induction sent pos seq n ring lost arbitrary: pos' ring' lost' rule: advance_loop.induct)
  case (1 sent pos seq n ring lost)
  show ?case
  proof (cases "n = 0")
    case True
    then show ?thesis using "1.prems" by (simp add: advance_loop.simps)
  next
    case False
    define k where "k = min (64 - pos mod 64) n"
    have k: "0 < k" "pos mod 64 + k \<le> 64" "k \<le> n" "k \<le> 64" using False by (auto simp: k_def min_def)
    have lin: "pos + j < 4096" "(pos + j) mod 4096 = pos + j" if "j < k" for j
    proof -
      have "pos = 64 * (pos div 64) + pos mod 64" "pos div 64 < 64" using "1.prems"(1) by simp_all
      then show "pos + j < 4096" using that k(2) by linarith
      then show "(pos + j) mod 4096 = pos + j" by simp
    qed
    obtain ring1 lost1 where e: "evict_word sent pos seq k ring lost = (ring1, lost1)" by fastforce
    have "\<forall>j<k. ring_bit ring (pos + j) \<longrightarrow> unat seq + j < unat sent" using "1.prems"(5) lin(2) k(3) by fastforce
    note c = evict_word_props[OF k(1,2) "1.prems"(1,2) this e]
    define pos1 seq1 where "pos1 = (pos + k) mod 4096" and "seq1 = seq + word_of_nat k"
    have at: "(pos1 + j) mod 4096 = (pos + (k + j)) mod 4096" for j by (simp add: pos1_def mod_add_left_eq add.assoc)
    have seq1: "unat seq1 = unat seq + k"
      using "1.prems"(4) k(3) by (simp add: seq1_def unat_word_ariths unsigned_of_nat take_bit_nat_eq_self)
    have fresh: "ring_bit ring1 ((pos + (k + j)) mod 4096) = ring_bit ring ((pos + (k + j)) mod 4096)" if "j < n - k" for j
    proof -
      have "(pos + i) mod 4096 \<noteq> (pos + (k + j)) mod 4096" if "i < k" for i
        using ring_pos_distinct[of i "k + j" pos] that \<open>j < n - k\<close> "1.prems"(3) by simp
      then have "\<not> (pos \<le> (pos + (k + j)) mod 4096 \<and> (pos + (k + j)) mod 4096 < pos + k)"
        using lin(2) by (metis add_diff_inverse_nat nat_add_left_cancel_less not_less)
      then show ?thesis using c(2)[of "(pos + (k + j)) mod 4096"] by simp
    qed
    have loop: "advance_loop sent pos1 seq1 (n - k) ring1 lost1 = (pos', ring', lost')"
      using "1.prems"(6) False e by (subst (asm) advance_loop.simps) (simp add: k_def[symmetric] pos1_def seq1_def)
    have ih: "pos' = (pos1 + (n - k)) mod 4096 \<and> length ring' = 64
      \<and> (\<forall>q<4096. ring_bit ring' q \<longleftrightarrow> ring_bit ring1 q \<and> \<not> (\<exists>j<n - k. q = (pos1 + j) mod 4096))
      \<and> lost' = lost1 + word_of_nat (card {j. j < n - k \<and> unat seq1 + j < unat sent \<and> \<not> ring_bit ring1 ((pos1 + j) mod 4096)})"
    proof (rule "1.IH"[OF False k_def e[symmetric] refl, folded WINDOW_eq, unfolded WINDOW_eq, folded pos1_def seq1_def])
      show "\<forall>j<n - k. ring_bit ring1 ((pos1 + j) mod 4096) \<longrightarrow> unat seq1 + j < unat sent"
      proof (intro allI impI)
        fix j assume j: "j < n - k" "ring_bit ring1 ((pos1 + j) mod 4096)"
        then have "ring_bit ring ((pos + (k + j)) mod 4096)" "k + j < n" using fresh at by auto
        then show "unat seq1 + j < unat sent" using "1.prems"(5) seq1 by fastforce
      qed
    qed (use "1.prems" c(1) seq1 k(3) loop in \<open>simp_all add: pos1_def\<close>)
    have "pos' = (pos + n) mod 4096" using ih at[of "n - k"] k(3) by simp
    moreover have "(\<exists>j<n. q = (pos + j) mod 4096) \<longleftrightarrow>
        (pos \<le> q \<and> q < pos + k) \<or> (\<exists>j<n - k. q = (pos + (k + j)) mod 4096)" if "q < 4096" for q
    proof
      assume "\<exists>j<n. q = (pos + j) mod 4096"
      then obtain j where j: "j < n" "q = (pos + j) mod 4096" by blast
      then show "(pos \<le> q \<and> q < pos + k) \<or> (\<exists>j<n - k. q = (pos + (k + j)) mod 4096)"
        using lin(2)[of j] by (cases "j < k") (auto intro!: exI[of _ "j - k"])
    next
      assume "(pos \<le> q \<and> q < pos + k) \<or> (\<exists>j<n - k. q = (pos + (k + j)) mod 4096)"
      then show "\<exists>j<n. q = (pos + j) mod 4096"
        using lin(2)[of "q - pos"] k(3) by (auto intro: exI[of _ "q - pos"] simp: add.assoc) (metis add_diff_inverse_nat less_diff_conv2 nat_add_left_cancel_less not_less)
    qed
    moreover have "{j. j < n - k \<and> unat seq1 + j < unat sent \<and> \<not> ring_bit ring1 ((pos1 + j) mod 4096)}
        = {j. j < n - k \<and> unat seq + (k + j) < unat sent \<and> \<not> ring_bit ring ((pos + (k + j)) mod 4096)}"
      using fresh at seq1 by auto
    moreover have "{j. j < k \<and> unat seq + j < unat sent \<and> \<not> ring_bit ring (pos + j)}
        = {j. j < k \<and> unat seq + j < unat sent \<and> \<not> ring_bit ring ((pos + j) mod 4096)}"
      using lin(2) by auto
    ultimately show ?thesis
      using ih c(2,3) at card_split[OF k(3), of "\<lambda>j. unat seq + j < unat sent \<and> \<not> ring_bit ring ((pos + j) mod 4096)"]
      by (simp add: add.assoc)
  qed
qed


lemma ring_test:
  "ring ! (q div 64) AND push_bit (q mod 64) 1 = 0 \<longleftrightarrow> \<not> ring_bit ring q"
proof -
  have "q mod 64 < 64" by simp
  then show ?thesis by (auto simp: ring_bit_def bit_eq_iff[of "_ :: u64"] bit_and_iff bit_exp_iff dest: spec[of _ "q mod 64"])
qed

lemma ring_set:
  assumes "q < 4096" "length ring = 64"
  shows "ring_bit (ring[q div 64 := ring ! (q div 64) OR push_bit (q mod 64) 1]) p \<longleftrightarrow> ring_bit ring p \<or> p = q"
proof (cases "p div 64 = q div 64")
  case True
  then have "p = q \<longleftrightarrow> p mod 64 = q mod 64" by (metis div_mult_mod_eq)
  moreover have "q div 64 < length ring" using assms by simp
  moreover have "p mod 64 < 64" by simp
  ultimately show ?thesis using True
    by (auto simp: ring_bit_def bit_or_iff bit_exp_iff)
qed (auto simp: ring_bit_def)

section \<open>The tracker as a set of sequence numbers\<close>

text \<open>
  The specification keeps the numbers seen in the current window as a set. A number that is beyond the
  window moves the window so that it becomes the last one; what falls off the back, was sent and has
  not been seen is lost.
\<close>

record LossSpec =
  ls_base :: nat
  ls_sent :: nat
  ls_seen :: "nat set"
  ls_received :: nat
  ls_lost :: nat

definition spec_send :: "LossSpec \<Rightarrow> LossSpec \<times> nat" where
  "spec_send s = (s\<lparr>ls_sent := ls_sent s + 1\<rparr>, ls_sent s)"

definition spec_receive :: "nat \<Rightarrow> LossSpec \<Rightarrow> LossSpec" where
  "spec_receive seq s =
     (if seq < ls_base s then s
      else let base = max (ls_base s) (seq + 1 - 4096);
               evicted = {ls_base s..<base}
           in s\<lparr>ls_base := base, ls_seen := insert seq (ls_seen s - evicted),
                ls_received := ls_received s + (if seq \<in> ls_seen s then 0 else 1),
                ls_lost := ls_lost s + card (evicted - ls_seen s)\<rparr>)"

definition seen :: "LossTracker \<Rightarrow> nat set" where
  "seen t = {unat (lt_base t) + i | i. i < 4096 \<and> ring_bit (lt_ring t) ((lt_head t + i) mod 4096)}"

definition abs_tracker :: "LossTracker \<Rightarrow> LossSpec" where
  "abs_tracker t = \<lparr>ls_base = unat (lt_base t), ls_sent = unat (lt_total_sent t), ls_seen = seen t,
     ls_received = unat (lt_total_received t), ls_lost = unat (lt_total_lost t)\<rparr>"

definition tracker_ok :: "LossTracker \<Rightarrow> bool" where
  "tracker_ok t \<longleftrightarrow> lt_head t < 4096 \<and> length (lt_ring t) = 64
     \<and> unat (lt_total_sent t) < 2 ^ 63 \<and> unat (lt_base t) \<le> unat (lt_total_sent t)
     \<and> seen t \<subseteq> {..<unat (lt_total_sent t)}
     \<and> unat (lt_total_received t) + unat (lt_total_lost t) = unat (lt_base t) + card (seen t)"

lemma seen_window: "seen t \<subseteq> {unat (lt_base t)..<unat (lt_base t) + 4096}"
  by (auto simp: seen_def)

lemma finite_seen [simp]: "finite (seen t)"
  using finite_subset[OF seen_window] by simp

lemma seen_iff:
  "x \<in> seen t \<longleftrightarrow> unat (lt_base t) \<le> x \<and> x < unat (lt_base t) + 4096
     \<and> ring_bit (lt_ring t) ((lt_head t + (x - unat (lt_base t))) mod 4096)"
  by (auto simp: seen_def intro!: exI[of _ "x - unat (lt_base t)"])

lemma card_seen_le: "seen t \<subseteq> {..<n} \<Longrightarrow> unat (lt_base t) + card (seen t) \<le> max n (unat (lt_base t))"
proof -
  assume "seen t \<subseteq> {..<n}"
  then have "seen t \<subseteq> {unat (lt_base t)..<n}" using seen_window[of t] by fastforce
  then have "card (seen t) \<le> n - unat (lt_base t)" by (metis card_atLeastLessThan card_mono finite_atLeastLessThan)
  then show ?thesis by simp
qed

lemma advance_abs:
  assumes ok: "tracker_ok t" and n: "n \<le> 4096" "unat (lt_base t) + n \<le> unat (lt_total_sent t)"
  defines "t' \<equiv> advance n t"
  shows "lt_head t' < 4096" "length (lt_ring t') = 64" "unat (lt_base t') = unat (lt_base t) + n"
    "seen t' = seen t - {unat (lt_base t)..<unat (lt_base t) + n}"
    "unat (lt_total_lost t') = unat (lt_total_lost t) + card ({unat (lt_base t)..<unat (lt_base t) + n} - seen t)"
    "lt_total_sent t' = lt_total_sent t" "lt_total_received t' = lt_total_received t"
proof -
  obtain pos ring lost where l: "advance_loop (lt_total_sent t) (lt_head t) (lt_base t) n (lt_ring t) (lt_total_lost t) = (pos, ring, lost)"
    by (metis prod_cases3)
  have t': "t' = t\<lparr>lt_ring := ring, lt_total_lost := lost, lt_head := pos, lt_base := lt_base t + word_of_nat n\<rparr>"
    using n(1) l by (simp add: t'_def advance_def)
  have h: "lt_head t < 4096" "length (lt_ring t) = 64" "unat (lt_total_sent t) < 2 ^ 63" using ok by (simp_all add: tracker_ok_def)
  have "\<forall>j<n. ring_bit (lt_ring t) ((lt_head t + j) mod 4096) \<longrightarrow> unat (lt_base t) + j < unat (lt_total_sent t)"
    using ok n(1) by (auto simp: tracker_ok_def subset_iff seen_iff)
  from advance_loop_props[OF h(1,2) n(1) _ this l] n(2) h(3)
  have r: "pos = (lt_head t + n) mod 4096" "length ring = 64"
    "\<And>q. q < 4096 \<Longrightarrow> ring_bit ring q \<longleftrightarrow> ring_bit (lt_ring t) q \<and> \<not> (\<exists>j<n. q = (lt_head t + j) mod 4096)"
    "lost = lt_total_lost t + word_of_nat (card {j. j < n \<and> unat (lt_base t) + j < unat (lt_total_sent t)
      \<and> \<not> ring_bit (lt_ring t) ((lt_head t + j) mod 4096)})"
    by auto
  show "lt_head t' < 4096" "length (lt_ring t') = 64" "lt_total_sent t' = lt_total_sent t"
    "lt_total_received t' = lt_total_received t" using r by (simp_all add: t')
  show base: "unat (lt_base t') = unat (lt_base t) + n"
    using n h(3) by (simp add: t' unat_word_ariths unsigned_of_nat take_bit_nat_eq_self)
  show "seen t' = seen t - {unat (lt_base t)..<unat (lt_base t) + n}"
  proof (rule set_eqI)
    fix x
    show "x \<in> seen t' \<longleftrightarrow> x \<in> seen t - {unat (lt_base t)..<unat (lt_base t) + n}"
    proof (cases "unat (lt_base t) + n \<le> x \<and> x < unat (lt_base t) + n + 4096")
      case True
      define i where "i = x - unat (lt_base t) - n"
      have i: "x = unat (lt_base t) + (n + i)" "i < 4096" using True by (auto simp: i_def)
      have q: "(pos + i) mod 4096 = (lt_head t + (n + i)) mod 4096" by (simp add: r(1) mod_add_left_eq add.assoc)
      have "x \<in> seen t' \<longleftrightarrow> ring_bit ring ((lt_head t + (n + i)) mod 4096)"
        using i q by (simp add: seen_iff base) (simp add: t')
      also have "\<dots> \<longleftrightarrow> n + i < 4096 \<and> ring_bit (lt_ring t) ((lt_head t + (n + i)) mod 4096)"
      proof (cases "n + i < 4096")
        case True
        then have "(lt_head t + j) mod 4096 \<noteq> (lt_head t + (n + i)) mod 4096" if "j < n" for j
          using ring_pos_distinct[of j "n + i" "lt_head t"] that by simp
        then show ?thesis using True r(3)[of "(lt_head t + (n + i)) mod 4096"] by auto
      next
        case False
        then have "(lt_head t + (n + i)) mod 4096 = (lt_head t + (n + i - 4096)) mod 4096" "n + i - 4096 < n"
          using i(2) le_mod_geq[of 4096 "lt_head t + (n + i)"] by simp_all
        then show ?thesis using False r(3)[of "(lt_head t + (n + i)) mod 4096"] by auto
      qed
      also have "\<dots> \<longleftrightarrow> x \<in> seen t - {unat (lt_base t)..<unat (lt_base t) + n}" using i by (simp add: seen_iff)
      finally show ?thesis .
    qed (auto simp: seen_iff base)
  qed
  let ?E = "{j. j < n \<and> unat (lt_base t) + j < unat (lt_total_sent t) \<and> \<not> ring_bit (lt_ring t) ((lt_head t + j) mod 4096)}"
  have "{unat (lt_base t)..<unat (lt_base t) + n} - seen t = (+) (unat (lt_base t)) ` ?E"
  proof (rule set_eqI)
    fix x show "x \<in> {unat (lt_base t)..<unat (lt_base t) + n} - seen t \<longleftrightarrow> x \<in> (+) (unat (lt_base t)) ` ?E"
      using n by (auto simp: seen_iff image_iff intro!: exI[of _ "x - unat (lt_base t)"])
  qed
  then have c: "card ({unat (lt_base t)..<unat (lt_base t) + n} - seen t) = card ?E" by (simp add: card_image)
  show "unat (lt_total_lost t') = unat (lt_total_lost t) + card ({unat (lt_base t)..<unat (lt_base t) + n} - seen t)"
  proof -
    have "card ?E \<le> n" using card_mono[of "{..<n}" ?E] by auto
    moreover have "unat (lt_total_lost t) \<le> unat (lt_total_sent t)"
      using ok card_seen_le[of t "unat (lt_total_sent t)"] by (auto simp: tracker_ok_def)
    ultimately show ?thesis using h(3) n(1) c r(4)
      by (simp add: t' unat_word_ariths unsigned_of_nat take_bit_nat_eq_self)
  qed
qed


lemma mark_seen:
  assumes "lt_head t < 4096" "length (lt_ring t) = 64" "lt_base t \<le> seq" "unat seq < unat (lt_base t) + 4096"
  shows "seen (mark_received seq t) = insert (unat seq) (seen t)"
    "unat seq \<in> seen t \<Longrightarrow> mark_received seq t = t"
    "unat seq \<notin> seen t \<Longrightarrow> lt_total_received (mark_received seq t) = lt_total_received t + 1"
    "lt_base (mark_received seq t) = lt_base t" "lt_head (mark_received seq t) = lt_head t" "length (lt_ring (mark_received seq t)) = 64"
    "lt_total_sent (mark_received seq t) = lt_total_sent t" "lt_total_lost (mark_received seq t) = lt_total_lost t"
proof -
  define k where "k = unat (seq - lt_base t)"
  have k: "k < 4096" "unat seq = unat (lt_base t) + k"
    using assms(3,4) by (simp_all add: k_def unat_sub word_le_nat_alt)
  define q where "q = (lt_head t + k) mod 4096"
  have q: "q < 4096" by (simp add: q_def)
  have in_seen: "unat seq \<in> seen t \<longleftrightarrow> ring_bit (lt_ring t) q" using k by (simp add: seen_iff q_def)
  have m: "mark_received seq t = (if ring_bit (lt_ring t) q then t
      else t\<lparr>lt_ring := (lt_ring t)[q div 64 := lt_ring t ! (q div 64) OR push_bit (q mod 64) 1],
             lt_total_received := lt_total_received t + 1\<rparr>)"
    unfolding mark_received_def Let_def WINDOW_eq k_def[symmetric] q_def[symmetric] ring_test by simp
  have eq: "(lt_head t + i) mod 4096 = q \<longleftrightarrow> i = k" if "i < 4096" for i
    using ring_pos_distinct[of i k "lt_head t"] ring_pos_distinct[of k i "lt_head t"] that k(1)
    by (cases i k rule: linorder_cases) (auto simp: q_def)
  show "seen (mark_received seq t) = insert (unat seq) (seen t)"
  proof (cases "ring_bit (lt_ring t) q")
    case True
    then show ?thesis using in_seen m by auto
  next
    case False
    then have "x \<in> seen (mark_received seq t) \<longleftrightarrow> x \<in> insert (unat seq) (seen t)" for x
      using k eq[of "x - unat (lt_base t)"] by (auto simp: seen_iff m ring_set[OF q assms(2), unfolded push_bit_of_1])
    then show ?thesis by blast
  qed
  show "unat seq \<in> seen t \<Longrightarrow> mark_received seq t = t"
    "unat seq \<notin> seen t \<Longrightarrow> lt_total_received (mark_received seq t) = lt_total_received t + 1"
    "lt_base (mark_received seq t) = lt_base t" "lt_head (mark_received seq t) = lt_head t" "length (lt_ring (mark_received seq t)) = 64"
    "lt_total_sent (mark_received seq t) = lt_total_sent t" "lt_total_lost (mark_received seq t) = lt_total_lost t"
    using in_seen assms(2) by (simp_all add: m)
qed


text \<open>
  A number that is less than two windows ahead of the base, as every number is when packets are reordered
  by less than a window, refines the specification.
\<close>

lemma on_receive_refines:
  assumes ok: "tracker_ok t" and s: "seq < lt_total_sent t" "unat seq < unat (lt_base t) + 8192"
  shows "abs_tracker (on_receive seq t) = spec_receive (unat seq) (abs_tracker t) \<and> tracker_ok (on_receive seq t)"
proof -
  have sent: "unat seq < unat (lt_total_sent t)" using s(1) by (simp add: word_less_nat_alt)
  have h: "lt_head t < 4096" "length (lt_ring t) = 64" "unat (lt_total_sent t) < 2 ^ 63" using ok by (simp_all add: tracker_ok_def)
  show ?thesis
  proof (cases "seq < lt_base t")
    case True
    then show ?thesis
      using ok by (simp_all add: on_receive_def spec_receive_def abs_tracker_def word_less_nat_alt)
  next
    case False
    then have b: "lt_base t \<le> seq" "unat (lt_base t) \<le> unat seq" by (simp_all add: word_less_nat_alt word_le_nat_alt)
    define n where "n = unat seq + 1 - 4096 - unat (lt_base t)"
    define t1 where "t1 = (if n = 0 then t else advance n t)"
    define E where "E = {unat (lt_base t)..<unat (lt_base t) + n}"
    have off: "unat (seq - lt_base t) = unat seq - unat (lt_base t)" using b(1) by (simp add: unat_sub)
    have rec: "on_receive seq t = mark_received seq t1"
    proof (cases "4096 \<le> unat seq - unat (lt_base t)")
      case True
      then have "unat seq - unat (lt_base t) - 4096 + 1 = n" "n \<noteq> 0" by (simp_all add: n_def)
      then show ?thesis using False True by (simp only: on_receive_def Let_def t1_def WINDOW_eq off if_True if_False)
    next
      case False
      then have "n = 0" by (simp add: n_def)
      then show ?thesis using False \<open>\<not> seq < lt_base t\<close>
        by (simp only: on_receive_def Let_def t1_def WINDOW_eq off if_True if_False refl)
    qed
    have n: "n \<le> 4096" "unat (lt_base t) + n \<le> unat (lt_total_sent t)" using s(2) sent ok by (auto simp: n_def tracker_ok_def)
    note a = advance_abs[OF ok n]
    have t1: "lt_head t1 < 4096" "length (lt_ring t1) = 64" "unat (lt_base t1) = unat (lt_base t) + n"
      "seen t1 = seen t - E" "unat (lt_total_lost t1) = unat (lt_total_lost t) + card (E - seen t)"
      "lt_total_sent t1 = lt_total_sent t" "lt_total_received t1 = lt_total_received t"
      using a h by (simp_all add: t1_def E_def)
    have w: "lt_base t1 \<le> seq" "unat seq < unat (lt_base t1) + 4096"
      using t1(3) b(2) by (auto simp: word_le_nat_alt n_def)
    note m = mark_seen[OF t1(1,2) w]
    have sE: "unat seq \<notin> E" using t1(3) w(1) by (simp add: E_def word_le_nat_alt)
    then have iff: "unat seq \<in> seen t1 \<longleftrightarrow> unat seq \<in> seen t" using t1(4) by simp
    have cnt: "unat (lt_total_received (mark_received seq t1)) = unat (lt_total_received t) + (if unat seq \<in> seen t then 0 else 1)"
    proof -
      have "unat (lt_total_received t) \<le> unat (lt_total_sent t)"
        using ok card_seen_le[of t "unat (lt_total_sent t)"] by (auto simp: tracker_ok_def)
      then show ?thesis using m(2,3) iff t1(7) h(3) by (auto simp: unat_word_ariths)
    qed
    have mx: "max (unat (lt_base t)) (unat seq + 1 - 4096) = unat (lt_base t) + n" unfolding n_def by linarith
    have "abs_tracker (on_receive seq t) = spec_receive (unat seq) (abs_tracker t)"
      using b(2) mx m t1 cnt by (simp add: rec abs_tracker_def spec_receive_def Let_def E_def[symmetric])
    moreover have "tracker_ok (on_receive seq t)"
    proof -
    have "card (seen t) = card (seen t - E) + card (seen t \<inter> E)" by (metis Int_commute card_Diff_subset_Int finite_seen finite_Int card_mono inf_le1 le_add_diff_inverse2 Int_lower1)
    moreover have "card E = card (E - seen t) + card (seen t \<inter> E)"
      by (metis Int_commute card_Int_Diff E_def finite_atLeastLessThan add.commute)
    moreover have "card E = n" by (simp add: E_def)
    moreover have "card (insert (unat seq) (seen t - E)) = card (seen t - E) + (if unat seq \<in> seen t then 0 else 1)"
      using sE by (simp add: insert_absorb)
    ultimately have "unat (lt_total_received (mark_received seq t1)) + unat (lt_total_lost (mark_received seq t1))
        = unat (lt_base (mark_received seq t1)) + card (seen (mark_received seq t1))"
      using ok cnt t1 m by (simp add: tracker_ok_def)
    then show ?thesis
      using ok m t1 n sent h by (auto simp: rec tracker_ok_def)
    qed
    ultimately show ?thesis by blast
  qed
qed


text \<open>A number further ahead moves the window by one window only, and is marked modulo the window.\<close>

lemma on_receive_far:
  assumes ok: "tracker_ok t" and s: "seq < lt_total_sent t" "unat (lt_base t) + 8192 \<le> unat seq"
  defines "wrong \<equiv> lt_base t + 4096 + word_of_nat ((unat seq - unat (lt_base t)) mod 4096)"
  shows "on_receive seq t = mark_received wrong (advance 4096 t)"
    "unat wrong = unat (lt_base t) + 4096 + (unat seq - unat (lt_base t)) mod 4096" "wrong < seq"
proof -
  have sent: "unat seq < unat (lt_total_sent t)" "unat (lt_total_sent t) < 2 ^ 63" "lt_base t \<le> seq" "\<not> seq < lt_base t"
    using s ok by (auto simp: word_less_nat_alt word_le_nat_alt tracker_ok_def)
  have m: "(unat seq - unat (lt_base t)) mod 4096 < 4096" by simp
  show al: "unat wrong = unat (lt_base t) + 4096 + (unat seq - unat (lt_base t)) mod 4096"
    using sent(1,2) s(2) m unfolding wrong_def
    by (simp add: unat_word_ariths unsigned_of_nat take_bit_nat_eq_self del: mod_less_divisor)
  then show "wrong < seq" using s(2) m by (simp add: word_less_nat_alt del: mod_less_divisor)
  have off: "unat (seq - lt_base t) = unat seq - unat (lt_base t)" using sent(3) by (simp add: unat_sub)
  have base: "unat (lt_base (advance 4096 t)) = unat (lt_base t) + 4096"
    using advance_abs(3)[OF ok, of 4096] s(2) sent(1) by simp
  have ge: "lt_base (advance 4096 t) \<le> seq" "lt_base (advance 4096 t) \<le> wrong"
    using base s(2) al by (simp_all add: word_le_nat_alt)
  have d: "unat (seq - lt_base (advance 4096 t)) = unat seq - unat (lt_base t) - 4096"
    "unat (wrong - lt_base (advance 4096 t)) = (unat seq - unat (lt_base t)) mod 4096"
    using ge base al by (simp_all add: unat_sub)
  have "(unat seq - unat (lt_base t) - 4096) mod 4096 = (unat seq - unat (lt_base t)) mod 4096"
    using s(2) le_mod_geq[of 4096 "unat seq - unat (lt_base t)"] by simp
  then have "(h + unat (seq - lt_base (advance 4096 t))) mod 4096 = (h + unat (wrong - lt_base (advance 4096 t))) mod 4096" for h
    unfolding d by (metis mod_add_right_eq mod_mod_trivial)
  then have "mark_received seq (advance 4096 t) = mark_received wrong (advance 4096 t)"
    unfolding mark_received_def WINDOW_eq by simp
  moreover have "advance (unat seq - unat (lt_base t) - 4096 + 1) t = advance 4096 t"
  proof -
    have "min (unat seq - unat (lt_base t) - 4096 + 1) 4096 = 4096" using s(2) by (simp add: min_def)
    then show ?thesis unfolding advance_def WINDOW_eq by simp
  qed
  moreover have "4096 \<le> unat seq - unat (lt_base t)" using s(2) by simp
  ultimately show "on_receive seq t = mark_received wrong (advance 4096 t)"
    using sent(4) by (simp only: on_receive_def Let_def WINDOW_eq off if_True if_False)
qed

section \<open>Runs of the tracker\<close>

text \<open>
  A run sends packets, receives numbers that were sent and are less than two windows ahead of the base, and
  takes deltas. It stays below \<open>2\<^sup>6\<^sup>3\<close> packets.
\<close>

inductive tracker_step :: "LossTracker \<Rightarrow> LossTracker \<Rightarrow> bool" where
  send: "unat (lt_total_sent t) + 1 < 2 ^ 63 \<Longrightarrow> tracker_step t (fst (on_send t))"
| receive: "\<lbrakk>seq < lt_total_sent t; unat seq < unat (lt_base t) + 8192\<rbrakk> \<Longrightarrow> tracker_step t (on_receive seq t)"
| deltas: "tracker_step t (fst (take_deltas t))"

lemma tracker_ok_new: "tracker_ok LossTracker_new"
proof -
  have "seen LossTracker_new = {}"
    by (auto simp: seen_def LossTracker_new_def ring_bit_def WORDS_def nth_Cons' dest!: nth_mem split: if_splits)
  then show ?thesis by (simp add: tracker_ok_def) (simp add: LossTracker_new_def WORDS_def)
qed

lemma tracker_step_ok: "tracker_step t t' \<Longrightarrow> tracker_ok t \<Longrightarrow> tracker_ok t'"
proof (induction rule: tracker_step.induct)
  case (send t)
  have "seen (fst (on_send t)) = seen t" by (simp add: on_send_def seen_def)
  then show ?case using send by (auto simp: on_send_def tracker_ok_def unat_word_ariths)
next
  case (receive seq t)
  then show ?case using on_receive_refines by blast
next
  case (deltas t)
  have "seen (fst (take_deltas t)) = seen t" by (simp add: take_deltas_def seen_def)
  then show ?case using deltas by (auto simp: take_deltas_def tracker_ok_def)
qed

lemma tracker_run_ok: "tracker_step\<^sup>*\<^sup>* t t' \<Longrightarrow> tracker_ok t \<Longrightarrow> tracker_ok t'"
  by (induction rule: rtranclp_induct) (auto dest: tracker_step_ok)

section \<open>Properties\<close>

text \<open>
  C17. The circular bitmap implements a set: on a well-formed tracker, receiving a number that was sent and is
  less than two windows (8192) ahead of the base has exactly the effect the specification has on the set
  of numbers seen. A number behind the window is ignored, a repeated one is counted once, and one beyond
  the window moves the window, counting as lost what falls off unseen.
\<close>

theorem bitmap_implements_set:
  assumes "tracker_ok t" "seq < lt_total_sent t" "unat seq < unat (lt_base t) + 8192"
  shows "abs_tracker (on_receive seq t) = spec_receive (unat seq) (abs_tracker t)"
  using on_receive_refines[OF assms] by blast

definition demo_tracker :: LossTracker where
  "demo_tracker = LossTracker_new\<lparr>lt_total_sent := 10000\<rparr>"

lemma demo_tracker_ok: "tracker_ok demo_tracker"
proof -
  have "seen demo_tracker = seen LossTracker_new" by (simp add: seen_def demo_tracker_def)
  then show ?thesis using tracker_ok_new by (auto simp: tracker_ok_def demo_tracker_def) (simp_all add: LossTracker_new_def)
qed

theorem bitmap_implements_set_witness:
  "abs_tracker (on_receive 5000 demo_tracker) = spec_receive 5000 (abs_tracker demo_tracker)"
  using bitmap_implements_set[OF demo_tracker_ok, of 5000] by (simp add: demo_tracker_def LossTracker_new_def)

text \<open>
  C18. Every packet is accounted for exactly once: in every state a run reaches from a new tracker, the packets
  sent are those received, those lost, and those of the current window that are still outstanding.
\<close>

theorem packets_conserved:
  assumes "tracker_step\<^sup>*\<^sup>* LossTracker_new t"
  shows "unat (lt_total_sent t) = unat (lt_total_received t) + unat (lt_total_lost t)
    + card ({unat (lt_base t)..<unat (lt_total_sent t)} - seen t)"
proof -
  have ok: "tracker_ok t" using tracker_run_ok[OF assms tracker_ok_new] .
  then have "seen t \<subseteq> {unat (lt_base t)..<unat (lt_total_sent t)}"
    using seen_window[of t] by (fastforce simp: tracker_ok_def)
  then have "card ({unat (lt_base t)..<unat (lt_total_sent t)} - seen t) = unat (lt_total_sent t) - unat (lt_base t) - card (seen t)"
    "card (seen t) \<le> unat (lt_total_sent t) - unat (lt_base t)"
    using card_mono[of "{unat (lt_base t)..<unat (lt_total_sent t)}" "seen t"] by (simp_all add: card_Diff_subset)
  then show ?thesis using ok unfolding tracker_ok_def by linarith
qed

theorem packets_conserved_witness:
  "let t = on_receive 0 (fst (on_send (fst (on_send LossTracker_new)))) in
    unat (lt_total_sent t) = unat (lt_total_received t) + unat (lt_total_lost t)
    + card ({unat (lt_base t)..<unat (lt_total_sent t)} - seen t)"
proof -
  let ?t = "fst (on_send (fst (on_send LossTracker_new)))"
  have "tracker_step LossTracker_new (fst (on_send LossTracker_new))" "tracker_step (fst (on_send LossTracker_new)) ?t"
    "tracker_step ?t (on_receive 0 ?t)"
    by (rule tracker_step.intros; simp add: on_send_def LossTracker_new_def)+
  then have "tracker_step\<^sup>*\<^sup>* LossTracker_new (on_receive 0 ?t)" by (meson converse_rtranclp_into_rtranclp rtranclp.rtrancl_refl)
  from packets_conserved[OF this] show ?thesis by (simp add: Let_def)
qed

text \<open>
  A number two windows or more ahead of the base is confused with another: the window moves by one window
  only, the bit that is set belongs to a smaller number, and when the packet with that number does arrive
  it is taken for a duplicate and not counted as received.
\<close>

theorem far_jump_marks_wrong_packet:
  assumes "tracker_ok t" "seq < lt_total_sent t" "unat (lt_base t) + 8192 \<le> unat seq"
    "wrong = lt_base t + 4096 + word_of_nat ((unat seq - unat (lt_base t)) mod 4096)"
  shows "wrong < seq \<and> seen (on_receive seq t) = {unat wrong}
    \<and> lt_total_received (on_receive seq t) = lt_total_received t + 1
    \<and> on_receive wrong (on_receive seq t) = on_receive seq t"
proof -
  let ?t1 = "advance 4096 t"
  have f: "on_receive seq t = mark_received wrong ?t1" "wrong < seq"
    "unat wrong = unat (lt_base t) + 4096 + (unat seq - unat (lt_base t)) mod 4096"
    using on_receive_far[OF assms(1-3)] assms(4) by simp_all
  have "unat (lt_base t) + 4096 \<le> unat (lt_total_sent t)" using assms(2,3) by (simp add: word_less_nat_alt)
  note a = advance_abs[OF assms(1) order_refl this]
  have e: "seen ?t1 = {}" using a(4) seen_window[of t] by auto
  have w: "lt_base ?t1 \<le> wrong" "unat wrong < unat (lt_base ?t1) + 4096" using a(3) f(3) by (simp_all add: word_le_nat_alt)
  note m = mark_seen[OF a(1,2) w]
  have "\<not> wrong < lt_base (mark_received wrong ?t1)" "\<not> 4096 \<le> unat (wrong - lt_base (mark_received wrong ?t1))"
    using w m(4) by (simp_all add: unat_sub not_less word_le_nat_alt)
  then have "on_receive wrong (mark_received wrong ?t1) = mark_received wrong (mark_received wrong ?t1)"
    by (simp only: on_receive_def Let_def WINDOW_eq if_False)
  also have "\<dots> = mark_received wrong ?t1"
    using mark_seen(2)[of "mark_received wrong ?t1" wrong] m a(1) w by simp
  finally show ?thesis using f m(1,3) e a(7) by simp
qed

theorem far_jump_marks_wrong_packet_witness:
  "seen (on_receive 9000 demo_tracker) = {4904} \<and> on_receive 4904 (on_receive 9000 demo_tracker) = on_receive 9000 demo_tracker"
  using far_jump_marks_wrong_packet[OF demo_tracker_ok, of 9000 4904] by (simp add: demo_tracker_def LossTracker_new_def)

end
