(* ===== verification/Resp.thy ===== *)
theory Resp
  imports Tcp_Wire
begin

text \<open>
  The Redis wire protocol (\<^verbatim>\<open>netanvil-redis/src/resp.rs\<close>): encoding of commands, and the recursive decoder of
  responses with its byte limit. The recursion carries fuel; \<^verbatim>\<open>max_bytes + 1\<close> levels are proved to be enough.
\<close>

section \<open>Decimal and UTF-8 (standard library)\<close>

text \<open>\<^verbatim>\<open>to_string\<close> of an unsigned integer, and \<^verbatim>\<open>str::parse::<i64>\<close>.\<close>

fun dec :: "nat \<Rightarrow> bytes" where
  "dec n = (if n < 10 then [word_of_nat (48 + n)] else dec (n div 10) @ [word_of_nat (48 + n mod 10)])"

declare dec.simps [simp del]

definition is_digit :: "u8 \<Rightarrow> bool" where
  "is_digit b \<longleftrightarrow> 48 \<le> unat b \<and> unat b \<le> 57"

fun parse_digits :: "nat \<Rightarrow> bytes \<Rightarrow> nat option" where
  "parse_digits acc [] = Some acc"
| "parse_digits acc (b # bs) = (if is_digit b then parse_digits (10 * acc + (unat b - 48)) bs else None)"

definition in_i64 :: "int \<Rightarrow> int option" where
  "in_i64 n = (if - (2 ^ 63) \<le> n \<and> n < 2 ^ 63 then Some n else None)"

fun parse_i64 :: "bytes \<Rightarrow> int option" where
  "parse_i64 [] = None"
| "parse_i64 (b # bs) =
     (if b = 43 \<or> b = 45
      then (if bs = [] then None
            else case parse_digits 0 bs of None \<Rightarrow> None | Some n \<Rightarrow> in_i64 (if b = 45 then - int n else int n))
      else case parse_digits 0 (b # bs) of None \<Rightarrow> None | Some n \<Rightarrow> in_i64 (int n))"

text \<open>\<^verbatim>\<open>std::str::from_utf8\<close> succeeds exactly on well-formed UTF-8.\<close>

definition cont :: "u8 \<Rightarrow> bool" where
  "cont b \<longleftrightarrow> 0x80 \<le> b \<and> b \<le> 0xBF"

fun utf8_valid :: "bytes \<Rightarrow> bool" where
  "utf8_valid [] = True"
| "utf8_valid [b] = (b \<le> 0x7F)"
| "utf8_valid [b, c] = (if b \<le> 0x7F then utf8_valid [c] else 0xC2 \<le> b \<and> b \<le> 0xDF \<and> cont c)"
| "utf8_valid [b, c, d] =
     (if b \<le> 0x7F then utf8_valid [c, d]
      else if 0xC2 \<le> b \<and> b \<le> 0xDF then cont c \<and> utf8_valid [d]
      else (b = 0xE0 \<and> 0xA0 \<le> c \<and> c \<le> 0xBF \<or> 0xE1 \<le> b \<and> b \<le> 0xEF \<and> b \<noteq> 0xED \<and> cont c \<or> b = 0xED \<and> 0x80 \<le> c \<and> c \<le> 0x9F)
        \<and> cont d)"
| "utf8_valid (b # c # d # e # bs) =
     (if b \<le> 0x7F then utf8_valid (c # d # e # bs)
      else if 0xC2 \<le> b \<and> b \<le> 0xDF then cont c \<and> utf8_valid (d # e # bs)
      else if 0xE0 \<le> b \<and> b \<le> 0xEF
        then (b = 0xE0 \<and> 0xA0 \<le> c \<and> c \<le> 0xBF \<or> 0xE1 \<le> b \<and> b \<noteq> 0xED \<and> cont c \<or> b = 0xED \<and> 0x80 \<le> c \<and> c \<le> 0x9F)
          \<and> cont d \<and> utf8_valid (e # bs)
      else (b = 0xF0 \<and> 0x90 \<le> c \<and> c \<le> 0xBF \<or> 0xF1 \<le> b \<and> b \<le> 0xF3 \<and> cont c \<or> b = 0xF4 \<and> 0x80 \<le> c \<and> c \<le> 0x8F)
        \<and> cont d \<and> cont e \<and> utf8_valid bs)"

lemma utf8_valid_ascii_Cons: "b \<le> 0x7F \<Longrightarrow> utf8_valid (b # bs) = utf8_valid bs"
  by (cases "b # bs" rule: utf8_valid.cases) auto

lemma utf8_valid_ascii: "\<forall>b \<in> set bs. b \<le> 0x7F \<Longrightarrow> utf8_valid bs"
  by (induction bs) (auto simp: utf8_valid_ascii_Cons)

section \<open>Encoding\<close>

definition crlf :: bytes where
  "crlf = [13, 10]"

definition write_bulk_string :: "bytes \<Rightarrow> bytes" where
  "write_bulk_string data = [36] @ dec (length data) @ crlf @ data @ crlf"

definition encode_command :: "bytes \<Rightarrow> bytes list \<Rightarrow> bytes" where
  "encode_command command args =
     [42] @ dec (1 + length args) @ crlf @ write_bulk_string command @ concat (map write_bulk_string args)"

section \<open>Decoding\<close>

datatype RespValue =
    SimpleString bytes
  | Error bytes
  | Integer int
  | BulkString "bytes option"
  | Array "RespValue list"

datatype RespError =
    LineTooLong
  | EmptyLine
  | NonUtf8
  | BadInteger
  | BadBulkLength
  | BulkTooLarge nat
  | BadArrayCount
  | UnknownType u8
  | RespIo IoError

text \<open>The state of the reader: the stream and the bytes read so far.\<close>

type_synonym 's reader = "'s \<times> nat"

function read_line :: "'s stream_ops \<Rightarrow> nat \<Rightarrow> bytes \<Rightarrow> 's reader \<Rightarrow> 's reader \<times> (RespError + bytes)" where
  "read_line ops max_bytes line (s, total_read) =
     (if total_read \<ge> max_bytes then ((s, total_read), Inl LineTooLong)
      else case so_read_exact ops 1 s of
          (s1, Inl e) \<Rightarrow> ((s1, total_read), Inl (RespIo e))
        | (s1, Inr one) \<Rightarrow>
            if hd one = 13
            then (case so_read_exact ops 1 s1 of
                (s2, Inl e) \<Rightarrow> ((s2, total_read + 1), Inl (RespIo e))
              | (s2, Inr _) \<Rightarrow> ((s2, total_read + 2), Inr line))
            else read_line ops max_bytes (line @ [hd one]) (s1, total_read + 1))"
  by pat_completeness auto

termination
  by (relation "measure (\<lambda>(_, max_bytes, _, (_, total_read)). max_bytes - total_read)") auto

declare read_line.simps [simp del]

text \<open>The loop over the elements of an array; \<open>None\<close> is the fuel of the nested reader running out.\<close>

fun read_elements :: "('s reader \<Rightarrow> ('s reader \<times> (RespError + RespValue)) option) \<Rightarrow> nat \<Rightarrow> RespValue list \<Rightarrow> 's reader \<Rightarrow>
  ('s reader \<times> (RespError + RespValue)) option" where
  "read_elements rd 0 elements r = Some (r, Inr (Array elements))"
| "read_elements rd (Suc n) elements r = (case rd r of
     None \<Rightarrow> None
   | Some (r', Inl e) \<Rightarrow> Some (r', Inl e)
   | Some (r', Inr v) \<Rightarrow> read_elements rd n (elements @ [v]) r')"

text \<open>The \<^verbatim>\<open>match\<close> on the type byte.\<close>

definition read_body :: "('s reader \<Rightarrow> ('s reader \<times> (RespError + RespValue)) option) \<Rightarrow> 's stream_ops \<Rightarrow> nat \<Rightarrow> u8 \<Rightarrow> bytes \<Rightarrow>
  's reader \<Rightarrow> ('s reader \<times> (RespError + RespValue)) option" where
  "read_body rd ops max_bytes type_byte payload r1 =
     (if \<not> utf8_valid payload then Some (r1, Inl NonUtf8)
      else if type_byte = 43 then Some (r1, Inr (SimpleString payload))
      else if type_byte = 45 then Some (r1, Inr (Error payload))
      else if type_byte = 58 then Some (r1, case parse_i64 payload of None \<Rightarrow> Inl BadInteger | Some n \<Rightarrow> Inr (Integer n))
      else if type_byte = 36 then (case parse_i64 payload of
          None \<Rightarrow> Some (r1, Inl BadBulkLength)
        | Some len \<Rightarrow>
            if len < 0 then Some (r1, Inr (BulkString None))
            else let n = nat len
                 in if snd r1 + n + 2 > max_bytes then Some (r1, Inl (BulkTooLarge n))
                    else (case so_read_exact ops (n + 2) (fst r1) of
                        (s2, Inl e) \<Rightarrow> Some ((s2, snd r1), Inl (RespIo e))
                      | (s2, Inr data) \<Rightarrow> Some ((s2, snd r1 + n + 2), Inr (BulkString (Some (take n data))))))
      else if type_byte = 42 then (case parse_i64 payload of
          None \<Rightarrow> Some (r1, Inl BadArrayCount)
        | Some cnt \<Rightarrow>
            if cnt < 0 then Some (r1, Inr (Array []))
            else read_elements rd (nat cnt) [] r1)
      else Some (r1, Inl (UnknownType type_byte)))"

fun read_value :: "nat \<Rightarrow> 's stream_ops \<Rightarrow> nat \<Rightarrow> 's reader \<Rightarrow> ('s reader \<times> (RespError + RespValue)) option" where
  "read_value 0 ops max_bytes r = None"
| "read_value (Suc fuel) ops max_bytes r = (case read_line ops max_bytes [] r of
     (r1, Inl e) \<Rightarrow> Some (r1, Inl e)
   | (r1, Inr []) \<Rightarrow> Some (r1, Inl EmptyLine)
   | (r1, Inr (type_byte # payload)) \<Rightarrow> read_body (read_value fuel ops max_bytes) ops max_bytes type_byte payload r1)"

declare read_value.simps(2) [simp del]

text \<open>Every value consumes a byte, so \<open>max_bytes + 1\<close> levels are enough.\<close>

definition read_response :: "'s stream_ops \<Rightarrow> nat \<Rightarrow> 's \<Rightarrow> ('s reader \<times> (RespError + RespValue)) option" where
  "read_response ops max_bytes s = read_value (max_bytes + 1) ops max_bytes (s, 0)"

section \<open>Progress and termination\<close>

lemma read_line_progress:
  "read_line ops max_bytes line r = (r', res) \<Longrightarrow>
    snd r \<le> snd r' \<and> snd r' \<le> max (snd r) (max_bytes + 1) \<and> (\<forall>l. res = Inr l \<longrightarrow> snd r + 2 \<le> snd r')"
proof (induction ops max_bytes line r arbitrary: r' res rule: read_line.induct)
  case (1 ops max_bytes line s total_read)
  show ?case
  proof (cases "total_read \<ge> max_bytes")
    case True
    then show ?thesis using "1.prems" by (simp add: read_line.simps) auto
  next
    case False
    obtain s1 x where x: "so_read_exact ops 1 s = (s1, x)" by fastforce
    show ?thesis
    proof (cases x)
      case (Inl e)
      then show ?thesis using "1.prems" False x by (simp add: read_line.simps) auto
    next
      case (Inr one)
      show ?thesis
      proof (cases "hd one = 13")
        case True
        then show ?thesis using "1.prems" False x Inr
          by (subst (asm) read_line.simps) (auto split: prod.splits sum.splits)
      next
        case ne: False
        have "read_line ops max_bytes (line @ [hd one]) (s1, total_read + 1) = (r', res)"
          using "1.prems" False x Inr ne by (subst (asm) read_line.simps) simp
        from "1.IH"[OF False x[symmetric] Inr ne this] False show ?thesis by auto
      qed
    qed
  qed
qed

text \<open>A result of the reader: it stays within one byte of the limit, and a value consumes at least two bytes.\<close>

definition progress :: "nat \<Rightarrow> 's reader \<Rightarrow> 's reader \<times> (RespError + RespValue) \<Rightarrow> bool" where
  "progress max_bytes r out \<longleftrightarrow> snd r \<le> snd (fst out) \<and> snd (fst out) \<le> max (snd r) (max_bytes + 1)"

definition progresses :: "nat \<Rightarrow> 's reader \<Rightarrow> ('s reader \<times> (RespError + RespValue)) option \<Rightarrow> bool" where
  "progresses max_bytes r res = (case res of None \<Rightarrow> False | Some out \<Rightarrow> progress max_bytes r out)"

lemma progresses_Some [simp]: "progresses max_bytes r (Some out) = progress max_bytes r out"
  by (simp add: progresses_def)

lemma progresses_trans: "\<lbrakk>progress max_bytes r (r', v); progresses max_bytes r' res\<rbrakk> \<Longrightarrow> progresses max_bytes r res"
  by (auto simp: progresses_def progress_def split: option.splits)

lemma read_elements_progress:
  assumes "\<And>r. snd r \<ge> t \<Longrightarrow> progresses max_bytes r (rd r)"
  shows "snd r \<ge> t \<Longrightarrow> progresses max_bytes r (read_elements rd n els r)"
proof (induction n arbitrary: els r)
  case 0
  then show ?case by (simp add: progress_def)
next
  case (Suc n)
  obtain r' v where o: "rd r = Some (r', v)" "progress max_bytes r (r', v)"
    using assms[OF Suc.prems] by (auto simp: progresses_def split: option.splits)
  have "snd r' \<ge> t" using o(2) Suc.prems by (simp add: progress_def)
  then show ?case using o Suc.IH progresses_trans[OF o(2)] by (cases v) simp_all
qed

lemma read_value_progress: "max_bytes - snd r < fuel \<Longrightarrow> progresses max_bytes r (read_value fuel ops max_bytes r)"
proof (induction fuel arbitrary: r)
  case (Suc fuel)
  obtain r1 res where l: "read_line ops max_bytes [] r = (r1, res)" by fastforce
  note p = read_line_progress[OF l]
  have pr: "progress max_bytes r (r1, v)" for v using p by (simp add: progress_def)
  show ?case
  proof (cases res)
    case (Inl e)
    then show ?thesis using l pr by (simp add: read_value.simps(2))
  next
    case (Inr line)
    have lt: "snd r + 2 \<le> snd r1" "snd r1 \<le> max (snd r) (max_bytes + 1)" using p Inr by auto
    have "progresses max_bytes q (read_value fuel ops max_bytes q)" if "snd q \<ge> snd r1" for q
      using Suc.prems that lt by (intro Suc.IH) linarith
    then have els: "progresses max_bytes r (read_elements (read_value fuel ops max_bytes) n [] r1)" for n
      using read_elements_progress[of "snd r1" max_bytes "read_value fuel ops max_bytes" r1 n "[]"] progresses_trans[OF pr] by blast
    have bulk: "snd r1 + n + 2 \<le> max_bytes \<Longrightarrow> progress max_bytes r ((s2, snd r1 + n + 2), v)" for n s2 v
      using lt by (simp add: progress_def)
    have io: "progress max_bytes r ((s2, snd r1), v)" for s2 v using lt by (simp add: progress_def)
    show ?thesis
    proof (cases line)
      case Nil
      then show ?thesis using l Inr pr by (simp add: read_value.simps(2))
    next
      case (Cons tb payload)
      show ?thesis unfolding read_value.simps(2) l Inr Cons prod.case sum.case list.case read_body_def Let_def
        using bulk io pr els by (simp add: not_less split: option.split prod.split sum.split)
    qed
  qed
qed simp

section \<open>Decoding what the protocol encodes\<close>

text \<open>The encoding of a value in the protocol, for the values a server can send.\<close>

definition dec_int :: "int \<Rightarrow> bytes" where
  "dec_int n = (if n < 0 then 45 # dec (nat (- n)) else dec (nat n))"

fun encode_resp :: "RespValue \<Rightarrow> bytes" where
  "encode_resp (SimpleString s) = 43 # s @ crlf"
| "encode_resp (Error s) = 45 # s @ crlf"
| "encode_resp (Integer n) = 58 # dec_int n @ crlf"
| "encode_resp (BulkString None) = 36 # 45 # dec 1 @ crlf"
| "encode_resp (BulkString (Some data)) = write_bulk_string data"
| "encode_resp (Array vs) = 42 # dec (length vs) @ crlf @ concat (map encode_resp vs)"

fun resp_ok :: "RespValue \<Rightarrow> bool" where
  "resp_ok (SimpleString s) \<longleftrightarrow> 13 \<notin> set s \<and> utf8_valid s"
| "resp_ok (Error s) \<longleftrightarrow> 13 \<notin> set s \<and> utf8_valid s"
| "resp_ok (Integer n) \<longleftrightarrow> - (2 ^ 63) \<le> n \<and> n < 2 ^ 63"
| "resp_ok (BulkString None) \<longleftrightarrow> True"
| "resp_ok (BulkString (Some data)) \<longleftrightarrow> length data < 2 ^ 63"
| "resp_ok (Array vs) \<longleftrightarrow> length vs < 2 ^ 63 \<and> list_all resp_ok vs"

lemma digit_props: "n < 10 \<Longrightarrow> is_digit (word_of_nat (48 + n)) \<and> unat (word_of_nat (48 + n) :: u8) = 48 + n"
  by (simp add: is_digit_def del: of_nat_add)

lemma parse_digits_append: "parse_digits acc (xs @ ys) = (case parse_digits acc xs of None \<Rightarrow> None | Some k \<Rightarrow> parse_digits k ys)"
  by (induction acc xs rule: parse_digits.induct) auto

lemma parse_dec: "parse_digits 0 (dec n) = Some n"
proof (induction n rule: dec.induct)
  case (1 n)
  show ?case
  proof (cases "n < 10")
    case True
    then show ?thesis using digit_props[of n] by (subst dec.simps) simp
  next
    case False
    have m: "n mod 10 < 10" by simp
    show ?thesis using False "1.IH"[OF False] digit_props[OF m] by (subst dec.simps) (simp add: parse_digits_append del: unat_of_byte)
  qed
qed

lemma dec_digits: "b \<in> set (dec n) \<Longrightarrow> is_digit b"
proof (induction n rule: dec.induct)
  case (1 n)
  have m: "n mod 10 < 10" by simp
  show ?case
  proof (cases "n < 10")
    case True
    then show ?thesis using "1.prems" digit_props[of n] by (subst (asm) dec.simps) simp
  next
    case False
    then show ?thesis using "1.prems" "1.IH" digit_props[OF m] by (subst (asm) dec.simps) auto
  qed
qed

lemma dec_not_Nil: "dec n \<noteq> []"
  by (subst dec.simps) simp

lemma is_digit_bounds: "is_digit b \<Longrightarrow> b \<le> 0x7F \<and> b \<noteq> 13 \<and> b \<noteq> 43 \<and> b \<noteq> 45"
  by (auto simp: is_digit_def word_le_nat_alt)

lemma dec_ascii: "utf8_valid (dec n)" "13 \<notin> set (dec n)" "utf8_valid (45 # dec n)"
  using dec_digits is_digit_bounds utf8_valid_ascii[of "dec n"] utf8_valid_ascii_Cons[of 45] by (auto simp: word_le_nat_alt)

lemma parse_i64_dec: "int n < 2 ^ 63 \<Longrightarrow> parse_i64 (dec n) = Some (int n)"
proof -
  assume "int n < 2 ^ 63"
  moreover obtain b bs where d: "dec n = b # bs" using dec_not_Nil by (cases "dec n") auto
  moreover have "b \<noteq> 43 \<and> b \<noteq> 45" using is_digit_bounds dec_digits[of b n] d by simp
  ultimately show ?thesis using parse_dec[of n] by (simp add: in_i64_def)
qed

lemma parse_i64_dec_int: "- (2 ^ 63) \<le> n \<Longrightarrow> n < 2 ^ 63 \<Longrightarrow> parse_i64 (dec_int n) = Some n"
  using parse_i64_dec[of "nat n"] parse_dec[of "nat (- n)"] dec_not_Nil[of "nat (- n)"]
  by (simp add: dec_int_def in_i64_def)

lemma dec_int_ascii: "utf8_valid (dec_int n)" "13 \<notin> set (dec_int n)"
  using dec_ascii by (simp_all add: dec_int_def)

lemma read_line_reads:
  assumes laws: "stream_laws ops content"
  shows "\<lbrakk>13 \<notin> set l; content s = l @ crlf @ rest; t + length l + 2 \<le> max_bytes\<rbrakk> \<Longrightarrow>
    \<exists>s'. read_line ops max_bytes acc (s, t) = ((s', t + length l + 2), Inr (acc @ l)) \<and> content s' = rest"
proof (induction l arbitrary: acc s t)
  case Nil
  obtain s1 where s1: "so_read_exact ops 1 s = (s1, Inr [13])" "content s1 = 10 # rest"
    using stream_read_exact[OF laws, of s "[13]" "10 # rest" 1] Nil.prems(2) by (auto simp: crlf_def)
  obtain s2 where "so_read_exact ops 1 s1 = (s2, Inr [10])" "content s2 = rest"
    using stream_read_exact[OF laws, of s1 "[10]" rest 1] s1(2) by auto
  then show ?case using s1 Nil.prems(3) by (simp add: read_line.simps)
next
  case (Cons b l)
  obtain s1 where s1: "so_read_exact ops 1 s = (s1, Inr [b])" "content s1 = l @ crlf @ rest"
    using stream_read_exact[OF laws, of s "[b]" "l @ crlf @ rest" 1] Cons.prems(2) by auto
  have "\<exists>s'. read_line ops max_bytes (acc @ [b]) (s1, t + 1) = ((s', t + 1 + length l + 2), Inr ((acc @ [b]) @ l)) \<and> content s' = rest"
    using Cons.prems s1(2) by (intro Cons.IH) auto
  then show ?case using s1(1) Cons.prems by (simp add: read_line.simps[of _ _ _ s])
qed

lemma read_value_line:
  assumes "stream_laws ops content" "13 \<notin> set p" "tb \<noteq> 13" "content s = tb # p @ crlf @ rest" "t + length p + 3 \<le> max_bytes"
  obtains s1 where "read_line ops max_bytes [] (s, t) = ((s1, t + length p + 3), Inr (tb # p))" "content s1 = rest"
  using read_line_reads[OF assms(1), of "tb # p" s rest t max_bytes "[]"] assms(2-5) by auto


definition decodes :: "'s stream_ops \<Rightarrow> ('s \<Rightarrow> bytes) \<Rightarrow> nat \<Rightarrow> nat \<Rightarrow> RespValue \<Rightarrow> bool" where
  "decodes ops content max_bytes fuel v \<longleftrightarrow> (\<forall>s t rest. content s = encode_resp v @ rest \<longrightarrow>
     t + length (encode_resp v) \<le> max_bytes \<longrightarrow> max_bytes - t < fuel \<longrightarrow>
     (\<exists>s'. read_value fuel ops max_bytes (s, t) = Some ((s', t + length (encode_resp v)), Inr v) \<and> content s' = rest))"

lemma encode_resp_length: "2 \<le> length (encode_resp v)"
  by (cases v rule: encode_resp.cases) (simp_all add: crlf_def write_bulk_string_def)

lemma read_elements_decodes:
  assumes "\<And>v. v \<in> set vs \<Longrightarrow> decodes ops content max_bytes fuel v"
  shows "\<lbrakk>content s = concat (map encode_resp vs) @ rest; t + length (concat (map encode_resp vs)) \<le> max_bytes; max_bytes - t < fuel\<rbrakk> \<Longrightarrow>
    \<exists>s'. read_elements (read_value fuel ops max_bytes) (length vs) els (s, t)
      = Some ((s', t + length (concat (map encode_resp vs))), Inr (Array (els @ vs))) \<and> content s' = rest"
  using assms
proof (induction vs arbitrary: els s t)
  case (Cons v vs)
  have "decodes ops content max_bytes fuel v" using Cons.prems(4) by simp
  then obtain s1 where s1: "read_value fuel ops max_bytes (s, t) = Some ((s1, t + length (encode_resp v)), Inr v)"
    "content s1 = concat (map encode_resp vs) @ rest"
    using Cons.prems(1-3) unfolding decodes_def by (auto dest!: spec[of _ s] spec[of _ t] spec[of _ "concat (map encode_resp vs) @ rest"])
  have "\<exists>s'. read_elements (read_value fuel ops max_bytes) (length vs) (els @ [v]) (s1, t + length (encode_resp v))
      = Some ((s', t + length (encode_resp v) + length (concat (map encode_resp vs))), Inr (Array ((els @ [v]) @ vs))) \<and> content s' = rest"
    using Cons.prems s1(2) by (intro Cons.IH) auto
  then show ?case using s1(1) by (auto simp: add.assoc)
qed simp

text \<open>A value is decoded when the line of its header is read and the rest is decoded after it.\<close>

lemma decodesI:
  assumes laws: "stream_laws ops content" and e: "encode_resp v = tb # p @ crlf @ tail_bs" "13 \<notin> set p" "tb \<noteq> 13"
    and body: "\<And>s1 t1 rest fuel'. \<lbrakk>content s1 = tail_bs @ rest; t1 + length tail_bs \<le> max_bytes; max_bytes - t1 < fuel'\<rbrakk> \<Longrightarrow>
      \<exists>s'. read_body (read_value fuel' ops max_bytes) ops max_bytes tb p (s1, t1) = Some ((s', t1 + length tail_bs), Inr v) \<and> content s' = rest"
  shows "decodes ops content max_bytes fuel v"
  unfolding decodes_def
proof (intro allI impI)
  fix s t rest
  assume a: "content s = encode_resp v @ rest" "t + length (encode_resp v) \<le> max_bytes" "max_bytes - t < fuel"
  have len: "length (encode_resp v) = length p + 3 + length tail_bs" using e(1) by (simp add: crlf_def)
  obtain s1 where s1: "read_line ops max_bytes [] (s, t) = ((s1, t + length p + 3), Inr (tb # p))" "content s1 = tail_bs @ rest"
    using read_value_line[OF laws e(2,3), of s "tail_bs @ rest" t max_bytes] a(1,2) e(1) len by auto
  obtain fuel' where f: "fuel = Suc fuel'" using a(3) by (cases fuel) auto
  have "max_bytes - (t + length p + 3) < fuel'" "t + length p + 3 + length tail_bs \<le> max_bytes" using a(2,3) len f by auto
  from body[OF s1(2) this(2,1)] show
    "\<exists>s'. read_value fuel ops max_bytes (s, t) = Some ((s', t + length (encode_resp v)), Inr v) \<and> content s' = rest"
    using s1(1) f len by (simp add: read_value.simps(2) add.assoc)
qed

lemma read_value_decodes:
  assumes laws: "stream_laws ops content"
  shows "resp_ok v \<Longrightarrow> decodes ops content max_bytes fuel v"
proof (induction v arbitrary: fuel rule: encode_resp.induct)
  case (1 str)
  then show ?case by (intro decodesI[OF laws, of _ 43 str "[]"]) (simp_all add: read_body_def)
next
  case (2 str)
  then show ?case by (intro decodesI[OF laws, of _ 45 str "[]"]) (simp_all add: read_body_def)
next
  case (3 n)
  then show ?case using parse_i64_dec_int[of n] dec_int_ascii[of n]
    by (intro decodesI[OF laws, of _ 58 "dec_int n" "[]"]) (simp_all add: read_body_def)
next
  case 4
  have "parse_i64 (45 # dec 1) = Some (- 1)" using parse_i64_dec_int[of "- 1"] by (simp add: dec_int_def)
  then show ?case using dec_ascii[of 1] by (intro decodesI[OF laws, of _ 36 "45 # dec 1" "[]"]) (simp_all add: read_body_def)
next
  case (5 data)
  then have "parse_i64 (dec (length data)) = Some (int (length data))" by (intro parse_i64_dec) simp
  then show ?case using dec_ascii[of "length data"]
  proof (intro decodesI[OF laws, of _ 36 "dec (length data)" "data @ crlf"])
    fix s1 t1 rest fuel'
    assume p: "parse_i64 (dec (length data)) = Some (int (length data))" "content s1 = (data @ crlf) @ rest" "t1 + length (data @ crlf) \<le> max_bytes"
    obtain s2 where "so_read_exact ops (length data + 2) s1 = (s2, Inr (data @ crlf))" "content s2 = rest"
      using stream_read_exact[OF laws p(2), of "length data + 2"] by (auto simp: crlf_def)
    then show "\<exists>s'. read_body (read_value fuel' ops max_bytes) ops max_bytes 36 (dec (length data)) (s1, t1)
        = Some ((s', t1 + length (data @ crlf)), Inr (BulkString (Some data))) \<and> content s' = rest"
      using p dec_ascii by (simp add: read_body_def crlf_def)
  qed (simp_all add: write_bulk_string_def crlf_def)
next
  case (6 vs)
  then have "parse_i64 (dec (length vs)) = Some (int (length vs))" by (intro parse_i64_dec) simp
  moreover have "\<And>v fuel. v \<in> set vs \<Longrightarrow> decodes ops content max_bytes fuel v" using 6 by (simp add: list_all_iff)
  ultimately show ?case using dec_ascii[of "length vs"]
  proof (intro decodesI[OF laws, of _ 42 "dec (length vs)" "concat (map encode_resp vs)"])
    fix s1 t1 rest fuel'
    assume p: "parse_i64 (dec (length vs)) = Some (int (length vs))" "\<And>v fuel. v \<in> set vs \<Longrightarrow> decodes ops content max_bytes fuel v"
      and c: "content s1 = concat (map encode_resp vs) @ rest" "t1 + length (concat (map encode_resp vs)) \<le> max_bytes" "max_bytes - t1 < fuel'"
    show "\<exists>s'. read_body (read_value fuel' ops max_bytes) ops max_bytes 42 (dec (length vs)) (s1, t1)
        = Some ((s', t1 + length (concat (map encode_resp vs))), Inr (Array vs)) \<and> content s' = rest"
      using read_elements_decodes[OF p(2) c, where els = "[]"] p(1) dec_ascii by (simp add: read_body_def)
  qed simp_all
qed

section \<open>Properties\<close>

text \<open>
  C29. The decoder inverts the protocol: when the bytes to arrive start with the encoding of a value (line
  strings without carriage return and in UTF-8, integers of 64 bits, binary bulk strings, nested arrays)
  that fits the limit, one response is read, it is that value, the count of bytes is the length of its
  encoding, and what follows is left in the stream.
\<close>

theorem resp_roundtrip:
  assumes "stream_laws ops content" "resp_ok v" "content s = encode_resp v @ rest" "length (encode_resp v) \<le> max_bytes"
  shows "\<exists>s'. read_response ops max_bytes s = Some ((s', length (encode_resp v)), Inr v) \<and> content s' = rest"
  using read_value_decodes[OF assms(1,2), of max_bytes "max_bytes + 1"] assms(3,4)
  unfolding decodes_def read_response_def by (auto dest!: spec[of _ s] spec[of _ 0] spec[of _ rest])

theorem resp_roundtrip_witness:
  "\<exists>s'. read_response list_stream 100 (encode_resp (Array [Integer (- 7), BulkString (Some [13, 10]), SimpleString [79, 75]]) @ [43])
    = Some ((s', length (encode_resp (Array [Integer (- 7), BulkString (Some [13, 10]), SimpleString [79, 75]]))),
        Inr (Array [Integer (- 7), BulkString (Some [13, 10]), SimpleString [79, 75]])) \<and> s' = [43]"
  by (rule resp_roundtrip[OF list_stream_laws])
    (simp_all add: dec_int_def dec.simps write_bulk_string_def crlf_def word_le_nat_alt)

text \<open>
  C30. Reading a response always ends with a value or an error, whatever the stream delivers, and reads at most
  one byte more than the limit: arrays that announce more elements than arrive, deep nesting and endless
  lines included.
\<close>

theorem resp_read_terminates:
  "\<exists>s' n res. read_response ops max_bytes s = Some ((s', n), res) \<and> n \<le> max_bytes + 1"
  using read_value_progress[of max_bytes "(s, 0)" "max_bytes + 1" ops]
  by (auto simp: read_response_def progresses_def progress_def split: option.splits)

text \<open>
  A command is sent as an array of bulk strings: decoding the encoded command gives back the command and its
  arguments, binary safe.
\<close>

theorem command_roundtrip:
  assumes "stream_laws ops content" "content s = encode_command command args @ rest"
    "length (encode_command command args) \<le> max_bytes" "max_bytes < 2 ^ 63"
  shows "\<exists>s'. read_response ops max_bytes s = Some ((s', length (encode_command command args)),
      Inr (Array (map (BulkString \<circ> Some) (command # args)))) \<and> content s' = rest"
proof -
  let ?v = "Array (map (BulkString \<circ> Some) (command # args))"
  have e: "encode_resp ?v = encode_command command args"
    by (simp add: encode_command_def comp_def)
  have "length data < 2 ^ 63" if "data \<in> set (command # args)" for data
  proof -
    have "length data \<le> length (concat (map write_bulk_string (command # args)))"
      using that by (induction args) (auto simp: write_bulk_string_def)
    then show ?thesis using assms(3,4) by (simp add: encode_command_def)
  qed
  moreover have "length (command # args) < 2 ^ 63"
  proof -
    have "length (command # args) \<le> length (concat (map write_bulk_string (command # args)))"
      by (induction args) (auto simp: write_bulk_string_def)
    then show ?thesis using assms(3,4) by (simp add: encode_command_def)
  qed
  ultimately have "resp_ok ?v" by (simp add: list_all_iff)
  from read_value_decodes[OF assms(1) this, of max_bytes "max_bytes + 1"] assms(2,3) show ?thesis
    unfolding decodes_def read_response_def e by (auto dest!: spec[of _ s] spec[of _ 0] spec[of _ rest])
qed

theorem command_roundtrip_witness:
  "\<exists>s'. read_response list_stream 1000 (encode_command [71, 69, 84] [[107]]) = Some ((s', length (encode_command [71, 69, 84] [[107]])),
      Inr (Array [BulkString (Some [71, 69, 84]), BulkString (Some [107])])) \<and> s' = []"
  using command_roundtrip[OF list_stream_laws, of "encode_command [71, 69, 84] [[107]]" "[71, 69, 84]" "[[107]]" "[]" 1000]
  by (simp add: encode_command_def write_bulk_string_def crlf_def dec.simps)

end
