(* ===== verification/Dns_Wire.thy ===== *)
theory Dns_Wire
  imports Tcp_Client
begin

text \<open>
  DNS over UDP, both ends: the query encoder and response parsers of the client (\<^verbatim>\<open>netanvil-dns/src/wire.rs\<close>,
  \<^verbatim>\<open>executor.rs\<close>) and the response builder of the test server (\<^verbatim>\<open>netanvil-test-servers/src/dns.rs\<close>). The random
  transaction identifier and what the socket does are parameters.
\<close>

unbundle bit_operations_syntax

section \<open>Query specification (\<^verbatim>\<open>dns_spec.rs\<close>)\<close>

datatype DnsQueryType = QA | QAAAA | QMX | QCNAME | QTXT | QNS | QSOA | QPTR | QSRV | QANY

record DnsRequestSpec =
  dns_server :: string
  dns_query_name :: bytes
  dns_query_type :: DnsQueryType
  dns_recursion :: bool
  dns_dnssec :: bool
  dns_txid :: u16

fun wire_value :: "DnsQueryType \<Rightarrow> u16" where
  "wire_value QA = 1"
| "wire_value QAAAA = 28"
| "wire_value QMX = 15"
| "wire_value QCNAME = 5"
| "wire_value QTXT = 16"
| "wire_value QNS = 2"
| "wire_value QSOA = 6"
| "wire_value QPTR = 12"
| "wire_value QSRV = 33"
| "wire_value QANY = 255"

section \<open>Client (\<^verbatim>\<open>netanvil-dns/src/wire.rs\<close>)\<close>

text \<open>\<^verbatim>\<open>str::split\<close> at a character.\<close>

fun split_at :: "u8 \<Rightarrow> bytes \<Rightarrow> bytes list" where
  "split_at d [] = [[]]"
| "split_at d (b # bs) =
     (if b = d then [] # split_at d bs
      else case split_at d bs of [] \<Rightarrow> [[b]] | w # ws \<Rightarrow> (b # w) # ws)"

definition encode_domain_name :: "bytes \<Rightarrow> bytes" where
  "encode_domain_name name =
     concat (map (\<lambda>label. word_of_nat (length label) # label) (filter (\<lambda>label. label \<noteq> []) (split_at 46 name))) @ [0]"

text \<open>The identifier drawn when the specification has none is an argument.\<close>

definition encode_query :: "u16 \<Rightarrow> DnsRequestSpec \<Rightarrow> bytes" where
  "encode_query random_txid spec =
     (let txid = (if dns_txid spec \<noteq> 0 then dns_txid spec else random_txid)
      in to_be 2 (unat txid) @ to_be 2 (if dns_recursion spec then 0x0100 else 0x0000) @ to_be 2 1 @ to_be 2 0 @ to_be 2 0
         @ to_be 2 (if dns_dnssec spec then 1 else 0)
         @ encode_domain_name (dns_query_name spec) @ to_be 2 (unat (wire_value (dns_query_type spec))) @ to_be 2 1
         @ (if dns_dnssec spec then [0] @ to_be 2 41 @ to_be 2 4096 @ [0, 0] @ to_be 2 0x8000 @ to_be 2 0 else []))"

definition parse_rcode :: "bytes \<Rightarrow> u8" where
  "parse_rcode response = (if length response < 4 then 0xFF else response ! 3 AND 0x0F)"

definition parse_txid :: "bytes \<Rightarrow> u16 option" where
  "parse_txid response = (if length response < 2 then None else Some (word_of_nat (from_be [response ! 0, response ! 1])))"

section \<open>Server (\<^verbatim>\<open>netanvil-test-servers/src/dns.rs\<close>)\<close>

text \<open>The loop that skips the labels of the name; a label moves it forward by at least two.\<close>

function skip_name :: "bytes \<Rightarrow> nat \<Rightarrow> nat" where
  "skip_name query pos = (if pos < length query \<and> query ! pos \<noteq> 0 then skip_name query (pos + 1 + unat (query ! pos)) else pos)"
  by pat_completeness auto

termination
  by (relation "measure (\<lambda>(query, pos). length query - pos)") auto

declare skip_name.simps [simp del]

text \<open>Only called with queries of at least 12 bytes.\<close>

definition build_response :: "bytes \<Rightarrow> bytes" where
  "build_response query =
     (let rd = query ! 2 AND 0x01;
          pos = skip_name query 12 + 1 + 4;
          qsection_end = min pos (length query)
      in take 2 query @ [0x80 OR rd, 0x80] @ [0, 1] @ [0, 1] @ [0, 0] @ [0, 0]
         @ drop 12 (take qsection_end query)
         @ [0xC0, 0x0C] @ [0, 1] @ [0, 1] @ [0, 0, 0, 0x3C] @ [0, 4] @ [127, 0, 0, 1])"

text \<open>One datagram at the listening socket; \<open>None\<close> when it is too short to be answered.\<close>

definition dns_serve :: "bytes \<Rightarrow> bytes option" where
  "dns_serve datagram = (if length datagram \<ge> 12 then Some (build_response datagram) else None)"

section \<open>Executor (\<^verbatim>\<open>netanvil-dns/src/executor.rs\<close>)\<close>

text \<open>What the socket does is a parameter.\<close>

datatype DnsIo = BindFailed string | SendFailed string | Received bytes | RecvFailed string | RecvTimeout

record DnsResult =
  dre_status :: "u16 option"
  dre_bytes_sent :: u64
  dre_response_size :: u64
  dre_error :: "ExecutionError option"

definition execute_dns :: "u16 \<Rightarrow> (bytes \<Rightarrow> DnsIo) \<Rightarrow> DnsRequestSpec \<Rightarrow> DnsResult" where
  "execute_dns random_txid net spec =
     (let query_bytes = encode_query random_txid spec;
          bytes_sent = word_of_nat (length query_bytes)
      in case net query_bytes of
           BindFailed e \<Rightarrow> \<lparr>dre_status = None, dre_bytes_sent = 0, dre_response_size = 0, dre_error = Some (EE_Connect (''UDP bind: '' @ e))\<rparr>
         | SendFailed e \<Rightarrow> \<lparr>dre_status = None, dre_bytes_sent = bytes_sent, dre_response_size = 0, dre_error = Some (EE_Connect (''UDP send: '' @ e))\<rparr>
         | Received buf \<Rightarrow> \<lparr>dre_status = Some (ucast (parse_rcode buf)), dre_bytes_sent = bytes_sent,
             dre_response_size = word_of_nat (length buf), dre_error = None\<rparr>
         | RecvFailed e \<Rightarrow> \<lparr>dre_status = None, dre_bytes_sent = bytes_sent, dre_response_size = 0, dre_error = Some (EE_Other (''UDP recv: '' @ e))\<rparr>
         | RecvTimeout \<Rightarrow> \<lparr>dre_status = None, dre_bytes_sent = bytes_sent, dre_response_size = 0, dre_error = Some EE_Timeout\<rparr>)"

section \<open>A query answered by the server\<close>

definition labels_ok :: "bytes \<Rightarrow> bool" where
  "labels_ok name \<longleftrightarrow> list_all (\<lambda>label. length label < 256) (split_at 46 name)"

lemma skip_labels:
  assumes "\<forall>l \<in> set ls. l \<noteq> [] \<and> length l < 256"
  shows "skip_name (pre @ concat (map (\<lambda>l. word_of_nat (length l) # l) ls) @ 0 # rest) (length pre)
    = length pre + length (concat (map (\<lambda>l. word_of_nat (length l) # l) ls))"
  using assms
proof (induction ls arbitrary: pre)
  case Nil
  then show ?case by (subst skip_name.simps) simp
next
  case (Cons l ls)
  have l: "l \<noteq> []" "length l < 256" "unat (word_of_nat (length l) :: u8) = length l" using Cons.prems by simp_all
  then have nz: "word_of_nat (length l) \<noteq> (0 :: u8)" by (metis length_0_conv unsigned_0)
  have "skip_name ((pre @ word_of_nat (length l) # l) @ concat (map (\<lambda>l. word_of_nat (length l) # l) ls) @ 0 # rest) (length (pre @ word_of_nat (length l) # l))
      = length (pre @ word_of_nat (length l) # l) + length (concat (map (\<lambda>l. word_of_nat (length l) # l) ls))"
    using Cons.prems by (intro Cons.IH) simp
  then show ?case using l nz by (subst skip_name.simps) (simp add: nth_append add.assoc)
qed

definition dns_header :: "u16 \<Rightarrow> DnsRequestSpec \<Rightarrow> bytes" where
  "dns_header txid spec = to_be 2 (unat txid) @ to_be 2 (if dns_recursion spec then 0x0100 else 0x0000) @ to_be 2 1 @ to_be 2 0
     @ to_be 2 0 @ to_be 2 (if dns_dnssec spec then 1 else 0)"

definition dns_question :: "DnsRequestSpec \<Rightarrow> bytes" where
  "dns_question spec = encode_domain_name (dns_query_name spec) @ to_be 2 (unat (wire_value (dns_query_type spec))) @ to_be 2 1"

lemma query_split:
  obtains opt txid where "encode_query r spec = dns_header txid spec @ dns_question spec @ opt"
    "txid = (if dns_txid spec \<noteq> 0 then dns_txid spec else r)" "length (dns_header txid spec) = 12"
  by (simp add: encode_query_def dns_header_def dns_question_def Let_def)

lemma skip_query:
  assumes "labels_ok (dns_query_name spec)" "length h = 12"
  shows "skip_name (h @ dns_question spec @ opt) 12 + 5 = 12 + length (dns_question spec)"
proof -
  let ?ls = "filter (\<lambda>label. label \<noteq> []) (split_at 46 (dns_query_name spec))"
  have ok: "\<forall>l \<in> set ?ls. l \<noteq> [] \<and> length l < 256" using assms(1) by (auto simp: labels_ok_def list_all_iff)
  have "h @ dns_question spec @ opt = h @ concat (map (\<lambda>l. word_of_nat (length l) # l) ?ls) @ 0 #
      (to_be 2 (unat (wire_value (dns_query_type spec))) @ to_be 2 1 @ opt)"
    by (simp add: dns_question_def encode_domain_name_def)
  then show ?thesis using skip_labels[OF ok, of h] assms(2) by (simp add: dns_question_def encode_domain_name_def)
qed

text \<open>
  C31. The test server answers what the client asks: for a name whose labels are shorter than 256 bytes, the
  answer to an encoded query carries the query's identifier, the code NOERROR, one question that is byte
  for byte the question asked, whatever follows it in the query, and the fixed answer record.
\<close>

theorem dns_answer_matches_query:
  assumes "labels_ok (dns_query_name spec)"
  shows "\<exists>resp. dns_serve (encode_query r spec) = Some resp
    \<and> parse_txid resp = Some (if dns_txid spec \<noteq> 0 then dns_txid spec else r) \<and> parse_rcode resp = 0
    \<and> drop 12 resp = dns_question spec @ [0xC0, 0x0C, 0, 1, 0, 1, 0, 0, 0, 0x3C, 0, 4, 127, 0, 0, 1]"
proof -
  obtain opt txid where q: "encode_query r spec = dns_header txid spec @ dns_question spec @ opt"
    "txid = (if dns_txid spec \<noteq> 0 then dns_txid spec else r)" "length (dns_header txid spec) = 12"
    using query_split by blast
  obtain a b rest where h: "dns_header txid spec = [a, b] @ rest" "to_be 2 (unat txid) = [a, b]" "length rest = 10"
    by (auto simp: dns_header_def numeral_2_eq_2)
  have tx: "word_of_nat (from_be [a, b]) = txid"
    using from_be_to_be_id[of "unat txid" 2] h(2) unsigned_less[of txid, where 'a=nat] by simp
  have "drop 12 (take (min (skip_name (encode_query r spec) 12 + 1 + 4) (length (encode_query r spec))) (encode_query r spec)) = dns_question spec"
    using skip_query[OF assms q(3), of opt] q by (simp add: numeral_eq_Suc)
  then have "build_response (encode_query r spec) = [a, b, 0x80 OR (encode_query r spec ! 2 AND 0x01), 0x80, 0, 1, 0, 1, 0, 0, 0, 0]
      @ dns_question spec @ [0xC0, 0x0C, 0, 1, 0, 1, 0, 0, 0, 0x3C, 0, 4, 127, 0, 0, 1]"
    using q(1) h by (simp add: build_response_def Let_def)
  moreover have "12 \<le> length (encode_query r spec)" using q by simp
  ultimately show ?thesis using tx q(2) by (simp add: dns_serve_def parse_txid_def parse_rcode_def numeral_eq_Suc)
qed

text \<open>A query for the name \<^verbatim>\<open>a.bc\<close>.\<close>

definition demo_dns_spec :: DnsRequestSpec where
  "demo_dns_spec = \<lparr>dns_server = ''127.0.0.1:53'', dns_query_name = [97, 46, 98, 99], dns_query_type = QAAAA,
     dns_recursion = True, dns_dnssec = True, dns_txid = 0x1234\<rparr>"

theorem dns_answer_matches_query_witness:
  "labels_ok (dns_query_name demo_dns_spec) \<and> (\<exists>resp. dns_serve (encode_query 7 demo_dns_spec) = Some resp
    \<and> parse_txid resp = Some 0x1234 \<and> parse_rcode resp = 0
    \<and> drop 12 resp = [1, 97, 2, 98, 99, 0, 0, 28, 0, 1] @ [0xC0, 0x0C, 0, 1, 0, 1, 0, 0, 0, 0x3C, 0, 4, 127, 0, 0, 1])"
proof -
  have ok: "labels_ok (dns_query_name demo_dns_spec)" by code_simp
  have q: "dns_question demo_dns_spec = [1, 97, 2, 98, 99, 0, 0, 28, 0, 1]" "dns_txid demo_dns_spec = 0x1234"
    by code_simp+
  show ?thesis using dns_answer_matches_query[OF ok, of 7] ok unfolding q by (simp del: drop_Suc_Cons)
qed

end
