(* ===== verification/Spec2Isabelle.thy ===== *)
theory Spec2Isabelle
  imports Test_Queue Loss_Tracker Resp Dns_Wire
begin

text \<open>
  A verification development for netanvil-rs, a load generator: the translation of its control plane, of its request
  path from the schedule to the merged metrics, of its wire formats and of its leader, with the theorems that make them
  correct.

  \<^bold>\<open>The program and its parts.\<close> One process runs a coordinator, a timer thread and one I/O worker per core. The
  timer thread keeps a scheduler per worker and sends each worker a message when a request is due. A worker runs the
  request, counts it in its collector and hands the coordinator a snapshot now and then. The coordinator merges the
  snapshots, asks the rate controller for the next rate, and sends it to the timer thread. In distributed mode a leader
  queues tests, runs them one at a time with a coordinator of its own that talks to such processes on several agents,
  and stores the results. The paths below are under \<^verbatim>\<open>src/crates/\<close>.

  \<^item> \<open>F64\<close>, \<open>Prelude\<close>: the vocabulary. \<open>F64\<close> is Rust's \<^verbatim>\<open>f64\<close>: exact binary64 values and round-to-nearest-even
    arithmetic with infinities and NaN; the two zeros are one value. \<open>Prelude\<close> has the machine words, the
    saturating casts, durations in nanoseconds, big-endian bytes and the facts the components share.
  \<^item> \<open>Rate_Types\<close>, \<open>Smoothing\<close>, \<open>Constraints\<close>, \<open>Threshold\<close>, \<open>Composition\<close>, \<open>Ceiling\<close>, \<open>Pid_Math\<close>, \<open>Autotune\<close>,
    \<open>Pid_Constraint\<close>, \<open>Dyn_Constraint\<close>, \<open>Trace\<close>, \<open>Arbiter\<close>: the files of \<^verbatim>\<open>netanvil-core/src/controller\<close> of these names.
    Each struct is a record, each method a function on it; a method that can panic (\<^verbatim>\<open>clamp\<close> with bounds in the wrong
    order, an index out of range) has an option as result. \<open>Dyn_Constraint\<close> is the trait object over the two kinds of
    constraint, with the contract \<open>rate_constraint\<close> that both are shown to meet.
  \<^item> \<open>Controllers\<close>, \<open>Builder\<close>: \<^verbatim>\<open>static_rate.rs\<close>, \<^verbatim>\<open>step_rate.rs\<close>, the trait object over the three rate controllers
    with the contract \<open>rate_controller\<close>, and \<^verbatim>\<open>builder.rs\<close>, which makes a controller from its configuration.
  \<^item> \<open>Schedulers\<close>, \<open>Timer\<close>: \<^verbatim>\<open>netanvil-core/src/scheduler\<close> with the contract \<open>request_scheduler\<close>, and \<^verbatim>\<open>timer_thread.rs\<close>.
  \<^item> \<open>Metrics\<close>, \<open>Io_Worker\<close>, \<open>Coordinator\<close>: \<^verbatim>\<open>netanvil-metrics/src\<close>, \<^verbatim>\<open>io_worker.rs\<close> with \<^verbatim>\<open>in_flight.rs\<close>, and
    \<^verbatim>\<open>coordinator.rs\<close> of \<^verbatim>\<open>netanvil-core/src\<close>.
  \<^item> \<open>Test_Spec\<close>, \<open>Dist_Coordinator\<close>, \<open>Result_Store\<close>, \<open>Test_Queue\<close>: \<^verbatim>\<open>test_spec.rs\<close>, \<^verbatim>\<open>coordinator.rs\<close> with the static
    discovery of \<^verbatim>\<open>http_cluster.rs\<close>, \<^verbatim>\<open>result_store.rs\<close> and \<^verbatim>\<open>test_queue.rs\<close> of \<^verbatim>\<open>netanvil-distributed/src\<close>.
  \<^item> \<open>Tcp_Wire\<close>, \<open>Tcp_Client\<close>, \<open>Resp\<close>, \<open>Dns_Wire\<close>, \<open>Loss_Tracker\<close>: the frames of \<^verbatim>\<open>netanvil-tcp\<close> with the header parser
    of \<^verbatim>\<open>netanvil-test-servers\<close>, its pool and executor, \<^verbatim>\<open>netanvil-redis/src/resp.rs\<close>, both ends of DNS, and
    \<^verbatim>\<open>netanvil-udp/src/loss_tracker.rs\<close>.

  \<^bold>\<open>State and environment.\<close> The state of a thread is a record with the fields of its struct or the locals of its loop.
  What it reads from the outside (the clock, channels, sockets, agents, the disk) is an input: a list of records, one
  for each iteration, or an outcome for each call. What it sends is logged in the state. So a statement over all inputs holds
  for every interleaving that the channels and locks allow. Third-party code is a parameter: the HDR histogram
  (\<open>hist_ops\<close>, with the laws \<open>hist_laws\<close>), the exponential distribution, MD5, random numbers, the
  transcendental functions of the platform (\<open>libm\<close>; the contract of the PID constraint uses \<open>exp_sane\<close>, that an
  exponential is not negative), the order in which a hash map is listed (\<open>hash_order\<close>), and the JSON printer and
  parser (\<open>json_index_ok\<close>). Each law is met by a concrete function in a witness.

  \<^bold>\<open>What is shown.\<close>
  \<^item> Control: from a state with ordered bounds no tick of the arbiter panics and every rate is within the bounds, also
    after commands of an operator with finite values and ordered bounds; the limits on rate changes, the cooldown and the exploration phase do what they say
    (\<open>Arbiter_Safety\<close>); every controller that can be built from a good configuration never panics (\<open>Builder\<close>), and it
    is stated exactly which configurations can be built.
  \<^item> Requests: the timer thread fires in time order, never early and never after the deadline of a worker, and it ends;
    constant rates do not drift; a worker never exceeds its in-flight limit, loses no request and reports each once.
  \<^item> Numbers: the merged metrics are the sums over the results of all cores however they are cut into snapshots and in
    whatever order these arrive; the coordinator counts each snapshot once; every fire message is in the total of the result, in flight or dropped (below); the bitmap of the loss tracker implements a
    set of sequence numbers.
  \<^item> Runs: the coordinator and the leader's coordinator send only finite, non-negative rates, end in time and stop
    everything; the totals of a distributed run are the last answers of the agents, and the shares add up to the rate.
  \<^item> The leader: the queue implements a board of tests (locale \<open>board_queue\<close>), tests start in order, the index on disk survives failing
    calls and a process that dies at any point, and a test is followed from acceptance to its stored result.
  \<^item> Formats: round trips of frames, headers, Redis values, dates and duration texts; a DNS answer matches its query.

  \<^bold>\<open>Bounds and fuel.\<close> Recursion over the inputs is structural. Loops of the source are functions with termination proofs,
  except three. The Redis reader carries fuel: \<^verbatim>\<open>max_bytes + 1\<close> levels are enough for any input, since each level
  reads a byte. The timer loop and the two control loops run over a list of inputs; the theorems on termination
  say how long a list brings them to their end. Word arithmetic wraps, as in a release build.

  \<^bold>\<open>Not modelled.\<close> The adapters to code that is not part of the repository: the HTTP executor and its TLS connector, the
  plugin engines, the event log, the HTTP servers of agent and leader, sockets and the test servers around the wire
  formats. The wiring of threads and CPU pinning: the threads are modelled one by one. Log output, reports, the command
  line with its value parsers, random sampling of distributions, and the generators and transformers of
  requests, which are parameters of the worker. A failure of the disk is one of a call or of the process; what a power failure does to
  files that were not synced is not.
\<close>

section \<open>From the fire messages to the result\<close>

text \<open>The runs of the workers of one test: what each did, and its state after it has exited.\<close>

definition workers_exited ::
  "('g, 't, 's) pipeline \<Rightarrow> 'h hist_ops \<Rightarrow> (bytes \<Rightarrow> string) \<Rightarrow> duration \<Rightarrow> (wlabel list \<times> ('g, 't, 's, 'h) worker) list \<Rightarrow> bool" where
  "workers_exited P H md5_hex report ws \<longleftrightarrow> (\<forall>(ls, w) \<in> set ws. wk_phase w = Exited \<and>
     (\<exists>core now g t m mx. worker_run P H md5_hex report (worker_start P core now g t m mx) ls w \<and> collector_counters m = 0))"

lemma cn_requests_sum: "cn_requests (sum_list cs) = sum_list (map cn_requests cs)"
proof -
  have plus: "cn_requests (a + b) = cn_requests a + cn_requests b" for a b by (cases a; cases b) simp
  show ?thesis by (induction cs) (simp_all add: plus zero_counters_def)
qed

lemma cn_requests_contribution: "cn_requests (contribution md5_hex m x) = 1"
  by (simp add: contribution_def Let_def)

lemma exited_worker:
  assumes "worker_run P H md5_hex report (worker_start P core now g t m mx) ls w" "collector_counters m = 0" "wk_phase w = Exited"
  shows "cn_requests (sum_list (map snapshot_counters (wk_snapshots w))) = of_nat (length (done_results ls))"
    "of_nat (fires ls) = of_nat (length (wk_tasks w)) + of_nat (length (done_results ls)) + wk_in_flight_drops w"
proof -
  have a: "accounts md5_hex m mx ls w" using run_accounts[OF assms(1) start_accounts[OF assms(2)]] .
  then have "sum_list (map snapshot_counters (wk_snapshots w)) = sum_list (map (contribution md5_hex m) (done_results ls))"
    using assms(3) by (auto simp: accounts_def reported_def)
  then show "cn_requests (sum_list (map snapshot_counters (wk_snapshots w))) = of_nat (length (done_results ls))"
    by (simp add: cn_requests_sum cn_requests_contribution comp_def sum_list_triv)
  show "of_nat (fires ls) = of_nat (length (wk_tasks w)) + of_nat (length (done_results ls)) + wk_in_flight_drops w"
    using a by (auto simp: accounts_def)
qed

text \<open>
  C8. Every request that the timer thread fired is accounted for in the result of a test without warmup: if the
  snapshots that the workers handed over are those the coordinator received, in any order, in the ticks it made
  and while the threads were joined, then the total of the result is the number of requests the workers completed,
  and the fire messages the workers handled are that total, the requests still in flight and the dropped ones.
\<close>
theorem fired_requests_accounted:
  assumes "workers_exited P H md5_hex report ws"
    "coordinator_run m H tis fi (Coordinator_new H t rc dur interval) = Some (c, Some r)" "sorted (map ti_now tis)"
    "\<forall>k < length tis. \<exists>c1. coordinator_run m H (take k tis) fi (Coordinator_new H t rc dur interval) = Some (c1, None)"
    "mset (concat (map (concat \<circ> ti_snapshots) tis) @ concat (fi_before fi) @ concat (fi_after fi)) = mset (concat (map (wk_snapshots \<circ> snd) ws))"
  shows "tres_total_requests r = of_nat (sum_list (map (length \<circ> done_results \<circ> fst) ws))
    \<and> of_nat (sum_list (map (fires \<circ> fst) ws))
      = tres_total_requests r + of_nat (sum_list (map (length \<circ> wk_tasks \<circ> snd) ws)) + sum_list (map (wk_in_flight_drops \<circ> snd) ws)"
proof -
  let ?new = "Coordinator_new H t rc dur interval"
  let ?ss = "concat (map (concat \<circ> ti_snapshots) tis) @ concat (fi_before fi) @ concat (fi_after fi)"
  obtain n where n: "n \<le> length tis" "coordinator_run m H (take n tis) fi ?new = Some (c, Some r)"
    "aggregate_counters (co_total_aggregate c) = sum_list (map snapshot_counters
        (counted_snapshots ?new (take n tis) @ concat (fi_before fi) @ concat (fi_after fi)))"
    using run_totals[OF assms(2,3), where warmup = None, simplified option.case, OF refl] by blast
  have "n = length tis" using n(1,2) assms(4) by (metis le_neq_implies_less option.inject option.distinct(1) prod.inject)
  moreover have "counted_snapshots ?new tis = concat (map (concat \<circ> ti_snapshots) tis)"
    by (simp add: counted_snapshots_def counts_def Coordinator_new_def)
  ultimately have "tres_total_requests r = sum_list (map (cn_requests \<circ> snapshot_counters) ?ss)"
    using n(3) result_counters(1)[OF assms(2)] by (simp add: cn_requests_sum del: map_append)
  also have "\<dots> = sum_list (map (cn_requests \<circ> snapshot_counters) (concat (map (wk_snapshots \<circ> snd) ws)))"
    using assms(5) by (metis mset_map sum_mset_sum_list)
  also have "\<dots> = sum_list (map (\<lambda>x. of_nat (length (done_results (fst x)))) ws)"
    using assms(1)
  proof (induction ws)
    case (Cons x ws)
    obtain ls w where x: "x = (ls, w)" by (cases x)
    have "sum_list (map (cn_requests \<circ> snapshot_counters) (wk_snapshots w)) = of_nat (length (done_results ls))"
      using Cons.prems x exited_worker(1) by (fastforce simp: workers_exited_def cn_requests_sum)
    then show ?case using Cons x by (simp add: workers_exited_def comp_def)
  qed simp
  also have "\<dots> = of_nat (sum_list (map (length \<circ> done_results \<circ> fst) ws))" by (induction ws) simp_all
  finally have total: "tres_total_requests r = of_nat (sum_list (map (length \<circ> done_results \<circ> fst) ws))" .
  have "of_nat (sum_list (map (fires \<circ> fst) ws)) = (of_nat (sum_list (map (length \<circ> done_results \<circ> fst) ws)) :: u64)
      + of_nat (sum_list (map (length \<circ> wk_tasks \<circ> snd) ws)) + sum_list (map (wk_in_flight_drops \<circ> snd) ws)"
    using assms(1)
  proof (induction ws)
    case (Cons x ws)
    obtain ls w where x: "x = (ls, w)" by (cases x)
    have "of_nat (fires ls) = of_nat (length (wk_tasks w)) + of_nat (length (done_results ls)) + wk_in_flight_drops w"
      using Cons.prems x exited_worker(2) by (fastforce simp: workers_exited_def)
    then show ?case using Cons x by (simp add: workers_exited_def)
  qed simp
  then show ?thesis using total by simp
qed

section \<open>Example\<close>

text \<open>The worker of the example of \<open>Io_Worker\<close>, whose snapshot arrives in the one tick of a test.\<close>

definition demo_arrival :: "u64 multiset tick_input" where
  "demo_arrival = \<lparr>ti_commands = [], ti_snapshots = [wk_snapshots demo_w4], ti_polled = None, ti_pushed = None,
     ti_stats = TimerStats_new, ti_now = 10, ti_control_now = 10, ti_window_now = 10, ti_end = 10\<rparr>"

definition demo_join :: "u64 multiset final_input" where
  "demo_join = \<lparr>fi_before = [], fi_after = [], fi_now = 12, fi_stats = TimerStats_new\<rparr>"

theorem fired_requests_accounted_witness:
  "\<exists>c r. coordinator_run demo_libm mset_hist [demo_arrival] demo_join (Coordinator_new mset_hist 0 demo_rc 10 10) = Some (c, Some r)
    \<and> tres_total_requests r = 1 \<and> of_nat (fires demo_labels) = tres_total_requests r + (1 :: u64)"
proof -
  let ?new = "Coordinator_new mset_hist 0 demo_rc 10 10"
  let ?started = "distribute_rate (RateController_current_rate demo_rc) ?new"
  have rc: "co_rate_controller ?new = demo_rc" by (simp add: Coordinator_new_def)
  have "build_rate_controller False (RC_Static (lit 100)) 10 0 10 0 None = Inr demo_rc" by (simp add: build_rate_controller_def)
  note start = coordinator_start_ok[OF demo_build(1) this, of mset_hist 0 10 10]
  have "\<exists>c'. coordinator_loop demo_libm mset_hist [demo_arrival] ?started = Some (c', True) \<and> coordinator_ok c'"
    by (rule coordinator_loop_completes[OF start, where interval = 10 and ?k0.0 = 0])
      (auto simp: demo_arrival_def inputs_fine_def distribute_rate_def send_timer_def Coordinator_new_def)
  then obtain c r where run: "coordinator_run demo_libm mset_hist [demo_arrival] demo_join ?new = Some (c, Some r)"
    unfolding coordinator_run_Some_iff rc by (metis prod.collapse)
  have "wk_phase demo_w4 = Exited" "collector_counters demo_metrics = 0" by (simp_all add: demo_w4_def demo_metrics_def with_packet_source_fresh)
  then have ws: "workers_exited demo_pipeline mset_hist (\<lambda>_. []) 0 [(demo_labels, demo_w4)]"
    using demo_run[unfolded demo_worker_def] unfolding workers_exited_def by auto
  have k: "\<forall>k < length [demo_arrival]. \<exists>c1. coordinator_run demo_libm mset_hist (take k [demo_arrival]) demo_join ?new = Some (c1, None)"
    by (simp add: coordinator_run_def)
  have done_1: "done_results demo_labels = [demo_result 7 None]" "fires demo_labels = 2" "wk_tasks demo_w4 = []" "wk_in_flight_drops demo_w4 = 1"
    by (simp_all add: done_results_def demo_labels_def map_filter_def fires_def demo_w4_def demo_worker_defs)
  have "mset (concat (map (concat \<circ> ti_snapshots) [demo_arrival]) @ concat (fi_before demo_join) @ concat (fi_after demo_join))
    = mset (concat (map (wk_snapshots \<circ> snd) [(demo_labels, demo_w4)]))"
    by (simp add: demo_arrival_def demo_join_def)
  from fired_requests_accounted[OF ws run _ k this] show ?thesis using run done_1 by simp
qed

end
